(* ===== verification/Prelude.thy ===== *)
theory Prelude
  imports Main "HOL-Library.Word" "HOL-Library.Monad_Syntax"
begin

text \<open>
  Shared vocabulary of the development: the widths of Go's unsigned integers, the
  run-time panics of Go as the value \<^const>\<open>None\<close> of an option, indexing and copying of
  slices with their bounds checks, and the lemma collections the components share.

  A partial operation of the source (an index out of range, a nil dereference, a division
  by zero, a slice expression out of bounds) is a function into \<^typ>\<open>'a option\<close> whose
  result \<^const>\<open>None\<close> is the panic; \<open>do\<close> blocks sequence such operations, so a panic
  aborts the rest of the caller as it does in Go. Go's own \<open>error\<close> values are not panics:
  they are \<^const>\<open>Inl\<close> of a sum.

  Go's \<open>uint\<close> and \<open>int\<close> (64 bits) are modelled by \<^typ>\<open>nat\<close> and \<^typ>\<open>int\<close> where they
  hold sizes and counts, and every explicit conversion to a narrower width is written out.
\<close>

unbundle bit_operations_syntax

type_synonym u8 = "8 word"
type_synonym u16 = "16 word"
type_synonym u32 = "32 word"
type_synonym u64 = "64 word"
type_synonym bytes = "u8 list"

named_theorems go_defs "definitions of the slice primitives"
named_theorems wf_intros "operations keep the well-formedness invariants"

section \<open>Slices\<close>

text \<open>\<open>xs[i]\<close> and \<open>xs[i] = v\<close> with the run-time bounds check.\<close>

definition slice_get :: "'a list \<Rightarrow> nat \<Rightarrow> 'a option" where
  "slice_get xs i = (if i < length xs then Some (xs ! i) else None)"

definition slice_set :: "'a list \<Rightarrow> nat \<Rightarrow> 'a \<Rightarrow> 'a list option" where
  "slice_set xs i v = (if i < length xs then Some (xs[i := v]) else None)"

text \<open>\<open>copy(dst[at:], src)\<close>: the new contents of \<open>dst\<close> and the number of copied items.\<close>

definition copy_at :: "'a list \<Rightarrow> nat \<Rightarrow> 'a list \<Rightarrow> 'a list" where
  "copy_at dst at src =
     take at dst @ take (length dst - at) src @ drop (at + length src) dst"

definition copy_count :: "'a list \<Rightarrow> nat \<Rightarrow> 'a list \<Rightarrow> nat" where
  "copy_count dst at src = min (length dst - at) (length src)"

text \<open>The remainder \<open>a % m\<close> of two unsigned words, which panics when \<open>m\<close> is zero.\<close>

definition word_rem :: "'w::len word \<Rightarrow> 'w word \<Rightarrow> 'w word option" where
  "word_rem a m = (if m = 0 then None else Some (a mod m))"

declare slice_get_def [go_defs] slice_set_def [go_defs] word_rem_def [go_defs]

lemma slice_get_Some [simp]: "i < length xs \<Longrightarrow> slice_get xs i = Some (xs ! i)"
  by (simp add: slice_get_def)

lemma slice_get_None [simp]: "length xs \<le> i \<Longrightarrow> slice_get xs i = None"
  by (simp add: slice_get_def)

lemma slice_set_Some [simp]: "i < length xs \<Longrightarrow> slice_set xs i v = Some (xs[i := v])"
  by (simp add: slice_set_def)

lemma slice_set_None [simp]: "length xs \<le> i \<Longrightarrow> slice_set xs i v = None"
  by (simp add: slice_set_def)

lemma word_rem_Some [simp]: "m \<noteq> 0 \<Longrightarrow> word_rem a m = Some (a mod m)"
  by (simp add: word_rem_def)

lemma length_copy_at [simp]: "at \<le> length dst \<Longrightarrow> length (copy_at dst at src) = length dst"
  by (simp add: copy_at_def min_def)

lemma nth_copy_at:
  assumes "at \<le> length dst" and "i < length dst"
  shows "copy_at dst at src ! i =
    (if at \<le> i \<and> i < at + length src then src ! (i - at) else dst ! i)"
  using assms by (auto simp: copy_at_def nth_append min_def)

lemma copy_at_0: "length src \<le> length dst \<Longrightarrow> copy_at dst 0 src = src @ drop (length src) dst"
  by (simp add: copy_at_def)

section \<open>Words\<close>

lemma unat_u16_less [simp]: "unat (x :: u16) < 65536"
proof -
  have "unat x < 2 ^ LENGTH(16)" by (rule unsigned_less)
  then show ?thesis by simp
qed

lemma unat_u8_less [simp]: "unat (x :: u8) < 256"
proof -
  have "unat x < 2 ^ LENGTH(8)" by (rule unsigned_less)
  then show ?thesis by simp
qed

lemma unat_of_nat_u16: "n < 65536 \<Longrightarrow> unat (of_nat n :: u16) = n"
  by (simp add: unat_of_nat take_bit_eq_mod)

lemma unat_of_nat_u8: "n < 256 \<Longrightarrow> unat (of_nat n :: u8) = n"
  by (simp add: unat_of_nat take_bit_eq_mod)

lemma unat_sub_u16: "unat (a - b :: u16) = (unat a + (65536 - unat b)) mod 65536"
proof (cases "b \<le> a")
  case True
  then have le: "unat b \<le> unat a" by (simp add: word_le_nat_alt)
  have "unat a + (65536 - unat b) = (unat a - unat b) + 65536"
    using le unat_u16_less [of b] by arith
  then have "(unat a + (65536 - unat b)) mod 65536 = (unat a - unat b) mod 65536"
    by (simp only: mod_add_self2)
  also have "\<dots> = unat a - unat b"
    using unat_u16_less [of a] by (simp only: mod_less less_imp_diff_less)
  finally show ?thesis using True by (simp only: unat_sub)
next
  case False
  then have "unat a < unat b" by (simp only: word_le_nat_alt not_le)
  moreover have "unat (a - b) = 65536 + unat a - unat b"
    using False unat_sub_if' [of a b] by (simp add: word_le_nat_alt)
  moreover have "(unat a + (65536 - unat b)) mod 65536 = unat a + (65536 - unat b)"
    using calculation unat_u16_less [of b] by (intro mod_less) arith
  ultimately show ?thesis using unat_u16_less [of b] by arith
qed

lemma unat_add_u16: "unat (a + b :: u16) = (unat a + unat b) mod 65536"
  by (simp add: unat_word_ariths)

text \<open>The conversion \<open>uint32(seq)\<close> of a sequence number is injective.\<close>

abbreviation u32_of_u16 :: "u16 \<Rightarrow> u32" where
  "u32_of_u16 \<equiv> ucast"

lemma unat_u32_of_u16 [simp]: "unat (u32_of_u16 a) = unat a"
  by (simp add: unsigned_ucast_eq take_bit_nat_eq_self_iff less_trans [OF unat_u16_less])

lemma u32_of_u16_eq [simp]: "(u32_of_u16 a = u32_of_u16 b) = (a = b)"
  by (metis unat_u32_of_u16 word_unat_eq_iff)

end
