(* ===== verification/SeqNum.thy ===== *)
theory SeqNum
  imports Prelude
begin

text \<open>
  Sequence-number arithmetic (\<open>utils.go\<close>). Sequence numbers are 16-bit and wrap; the order
  is the one on the circle: \<open>a\<close> is after \<open>b\<close> when the way from \<open>b\<close> forward to \<open>a\<close> is
  less than half the circle. At a distance of exactly half, the numerically larger number
  is the later one, so the comparison stays antisymmetric and total.
\<close>

section \<open>Definitions\<close>

definition HalfMaxUint16 :: u16 where
  "HalfMaxUint16 = of_nat (65535 div 2) + 1"

definition seqGreaterThan :: "u16 \<Rightarrow> u16 \<Rightarrow> bool" where
  "seqGreaterThan a b \<longleftrightarrow>
     (a > b \<and> a - b \<le> HalfMaxUint16) \<or> (a < b \<and> b - a > HalfMaxUint16)"

definition seqLessThan :: "u16 \<Rightarrow> u16 \<Rightarrow> bool" where
  "seqLessThan a b \<longleftrightarrow> seqGreaterThan b a"

definition seqLTE :: "u16 \<Rightarrow> u16 \<Rightarrow> bool" where
  "seqLTE a b \<longleftrightarrow> a = b \<or> seqGreaterThan b a"

section \<open>Lemmas\<close>

lemma unat_HalfMaxUint16 [simp]: "unat HalfMaxUint16 = 32768"
  by (simp add: HalfMaxUint16_def)

text \<open>The comparison in terms of the forward distance \<open>a - b\<close> on the circle.\<close>

lemma seqGreaterThan_iff:
  "seqGreaterThan a b \<longleftrightarrow>
     (0 < unat (a - b) \<and> unat (a - b) < 32768) \<or> (unat (a - b) = 32768 \<and> b < a)"
proof -
  have half: "x \<le> HalfMaxUint16 \<longleftrightarrow> unat x \<le> 32768" "HalfMaxUint16 < x \<longleftrightarrow> 32768 < unat x" for x
    by (simp_all only: word_le_nat_alt word_less_nat_alt unat_HalfMaxUint16)
  consider (eq) "a = b" | (gt) "unat b < unat a" | (lt) "unat a < unat b"
    by (metis nat_neq_iff word_unat_eq_iff)
  then show ?thesis
  proof cases
    case eq
    then show ?thesis by (simp add: seqGreaterThan_def)
  next
    case gt
    then have "unat (a - b) = unat a - unat b"
      by (intro unat_sub) (simp only: word_le_nat_alt less_imp_le)
    with gt show ?thesis by (auto simp: seqGreaterThan_def half word_less_nat_alt)
  next
    case lt
    then have "unat (b - a) = unat b - unat a"
      by (intro unat_sub) (simp only: word_le_nat_alt less_imp_le)
    moreover have "unat (a - b) = 65536 + unat a - unat b"
      using lt unat_sub_if' [of a b] by (simp add: word_le_nat_alt)
    moreover have "unat b < 65536 + unat a" using unat_u16_less [of b] by arith
    ultimately show ?thesis using lt
      by (auto simp: seqGreaterThan_def half word_less_nat_alt)
  qed
qed

lemma seqGreaterThan_irrefl [simp]: "\<not> seqGreaterThan a a"
  by (simp add: seqGreaterThan_def)

lemma seqGreaterThan_add:
  assumes "0 < unat k" and "unat k < 32768"
  shows "seqGreaterThan (a + k) a"
  using assms by (simp add: seqGreaterThan_iff)

lemma seqGreaterThan_Suc [simp]: "seqGreaterThan (a + 1) a"
  by (rule seqGreaterThan_add) simp_all

lemma unat_minus_swap_u16: "a \<noteq> b \<Longrightarrow> unat (b - a :: u16) = 65536 - unat (a - b)"
proof -
  assume "a \<noteq> b"
  then have nz: "unat (a - b) \<noteq> 0" by (simp add: unat_eq_0)
  have "unat (- (a - b)) = (if unat (a - b) = 0 then 0 else 65536 - unat (a - b))"
    using unat_sub_u16 [of 0 "a - b"] unat_u16_less [of "a - b"] by auto
  with nz show ?thesis by simp
qed

lemma seqGreaterThan_asym: "seqGreaterThan a b \<Longrightarrow> \<not> seqGreaterThan b a"
proof
  assume ab: "seqGreaterThan a b" and ba: "seqGreaterThan b a"
  then have "a \<noteq> b" by auto
  then have "unat (b - a) = 65536 - unat (a - b)" by (rule unat_minus_swap_u16)
  with ab ba show False by (auto simp: seqGreaterThan_iff)
qed

lemma seqGreaterThan_total: "a \<noteq> b \<Longrightarrow> seqGreaterThan a b \<or> seqGreaterThan b a"
proof -
  assume ne: "a \<noteq> b"
  then have "unat (b - a) = 65536 - unat (a - b)" by (rule unat_minus_swap_u16)
  moreover have "unat (a - b) \<noteq> 0" using ne by (simp add: unat_eq_0)
  moreover have "a < b \<or> b < a" using ne by auto
  ultimately show ?thesis by (auto simp: seqGreaterThan_iff)
qed

text \<open>
  A number that trails \<open>latest\<close> by at most a window of \<open>c < 32768\<close> is not outdated.
\<close>

lemma window_not_outdated:
  assumes "unat c < 32768" and "unat (s - (l - c)) < 32768"
  shows "\<not> seqLessThan s (l - c)"
proof
  assume "seqLessThan s (l - c)"
  then have gt: "seqGreaterThan (l - c) s" by (simp add: seqLessThan_def)
  then have "s \<noteq> l - c" by auto
  then have "unat ((l - c) - s) = 65536 - unat (s - (l - c))"
    by (rule unat_minus_swap_u16)
  with gt assms(2) show False by (auto simp: seqGreaterThan_iff)
qed

lemma latest_not_outdated: "unat c < 32768 \<Longrightarrow> \<not> seqLessThan l (l - c)"
  by (rule window_not_outdated) simp_all

end
