(* ===== verification/SequenceBuffer.thy ===== *)
theory SequenceBuffer
  imports SeqNum
begin

text \<open>
  The sequence buffer (\<open>buffer.go\<close>, \<open>memset.go\<close>): an array of 32-bit slots, each either the
  marker \<open>EmptySequenceBufferEntry\<close> or a 16-bit sequence number, and the next expected
  sequence number \<open>latest\<close>. The array is a list of fixed length; its \<open>cap\<close> is that length,
  since the source makes it with equal length and capacity and never reslices it.
\<close>

section \<open>State and operations\<close>

record sequence_buffer =
  latest :: u16
  seq_entries :: "u32 list"

definition EmptySequenceBufferEntry :: u32 where
  "EmptySequenceBufferEntry = 4294967295"

definition emptySequenceBufferEntryCache :: "u32 list" where
  "emptySequenceBufferEntryCache = replicate 65535 EmptySequenceBufferEntry"

text \<open>\<open>resetSequenceBuffer(b)\<close>: slicing the cache to \<open>len(b)\<close> panics above its length.\<close>

definition resetSequenceBuffer :: "u32 list \<Rightarrow> u32 list option" where
  "resetSequenceBuffer b =
     (if length b \<le> length emptySequenceBufferEntryCache
      then Some (copy_at b 0 (take (length b) emptySequenceBufferEntryCache))
      else None)"

text \<open>\<open>resetSequenceBuffer(xs[lo:hi])\<close>, which writes through to \<open>xs\<close>.\<close>

definition reset_slice :: "u32 list \<Rightarrow> nat \<Rightarrow> nat \<Rightarrow> u32 list option" where
  "reset_slice xs lo hi =
     (if lo \<le> hi \<and> hi \<le> length xs
      then do { m \<leftarrow> resetSequenceBuffer (take (hi - lo) (drop lo xs));
                Some (take lo xs @ m @ drop hi xs) }
      else None)"

definition SequenceBuffer_Reset :: "sequence_buffer \<Rightarrow> sequence_buffer option" where
  "SequenceBuffer_Reset s = do {
     es \<leftarrow> resetSequenceBuffer (seq_entries s);
     Some (s\<lparr>latest := 0, seq_entries := es\<rparr>) }"

definition NewSequenceBuffer :: "u16 \<Rightarrow> sequence_buffer option" where
  "NewSequenceBuffer cap =
     SequenceBuffer_Reset \<lparr>latest = 0, seq_entries = replicate (unat cap) 0\<rparr>"

definition RemoveRange :: "sequence_buffer \<Rightarrow> u16 \<Rightarrow> u16 \<Rightarrow> sequence_buffer option" where
  "RemoveRange s start end = do {
     let n = length (seq_entries s);
     start \<leftarrow> word_rem start (of_nat n + 1);
     end \<leftarrow> word_rem end (of_nat n + 1);
     if end < start then do {
       es \<leftarrow> reset_slice (seq_entries s) (unat start) n;
       es \<leftarrow> reset_slice es 0 (unat end);
       Some (s\<lparr>seq_entries := es\<rparr>) }
     else do {
       es \<leftarrow> reset_slice (seq_entries s) (unat start) (unat end);
       Some (s\<lparr>seq_entries := es\<rparr>) } }"

section \<open>What the operations compute\<close>

lemma length_cache [simp]: "length emptySequenceBufferEntryCache = 65535"
  by (simp add: emptySequenceBufferEntryCache_def)

lemma resetSequenceBuffer_eq [code]:
  "resetSequenceBuffer b =
     (if length b \<le> 65535 then Some (replicate (length b) EmptySequenceBufferEntry) else None)"
  by (simp add: resetSequenceBuffer_def copy_at_0)
    (simp add: emptySequenceBufferEntryCache_def min_absorb1)

lemma reset_slice_eq:
  assumes "lo \<le> hi" and "hi \<le> length xs" and "length xs \<le> 65535"
  shows "reset_slice xs lo hi =
    Some (map (\<lambda>i. if lo \<le> i \<and> i < hi then EmptySequenceBufferEntry else xs ! i) [0..<length xs])"
proof -
  have len: "length (take (hi - lo) (drop lo xs)) = hi - lo"
    using assms by simp
  have "reset_slice xs lo hi =
      Some (take lo xs @ replicate (hi - lo) EmptySequenceBufferEntry @ drop hi xs)"
    using assms by (simp only: reset_slice_def resetSequenceBuffer_eq len) simp
  also have "take lo xs @ replicate (hi - lo) EmptySequenceBufferEntry @ drop hi xs =
      map (\<lambda>i. if lo \<le> i \<and> i < hi then EmptySequenceBufferEntry else xs ! i) [0..<length xs]"
    using assms by (intro nth_equalityI) (auto simp: nth_append)
  finally show ?thesis .
qed

lemma empty_not_seq [simp]:
  "EmptySequenceBufferEntry \<noteq> u32_of_u16 s" "u32_of_u16 s \<noteq> EmptySequenceBufferEntry"
proof -
  have "unat s \<noteq> 4294967295" using unat_u16_less [of s] by arith
  then have "unat EmptySequenceBufferEntry \<noteq> unat (u32_of_u16 s)"
    by (simp add: EmptySequenceBufferEntry_def)
  then show "EmptySequenceBufferEntry \<noteq> u32_of_u16 s" "u32_of_u16 s \<noteq> EmptySequenceBufferEntry"
    by metis+
qed

text \<open>
  The slots that \<open>RemoveRange\<close> empties. Both bounds are reduced modulo the capacity plus
  one, so that the exclusive bound can name the end of the array.
\<close>

definition in_removed :: "nat \<Rightarrow> u16 \<Rightarrow> u16 \<Rightarrow> nat \<Rightarrow> bool" where
  "in_removed n start end i \<longleftrightarrow>
     (let s = unat start mod Suc n; e = unat end mod Suc n
      in if e < s then s \<le> i \<or> i < e else s \<le> i \<and> i < e)"

lemma in_removed_same [simp]: "\<not> in_removed n s s i"
  by (simp add: in_removed_def Let_def)

lemma unat_modulus: "n < 65535 \<Longrightarrow> unat (of_nat n + 1 :: u16) = Suc n"
  using unat_of_nat_u16 [of "Suc n"] by (simp add: add.commute)

lemma RemoveRange_eq:
  assumes n: "n = length (seq_entries s)" and le: "n < 65535"
  shows "RemoveRange s start end = Some (s\<lparr>seq_entries :=
    map (\<lambda>i. if in_removed n start end i then EmptySequenceBufferEntry else seq_entries s ! i)
      [0..<n]\<rparr>)"
proof -
  let ?m = "of_nat n + 1 :: u16"
  have m: "unat ?m = Suc n" using le by (rule unat_modulus)
  then have nz: "?m \<noteq> 0" by (metis Suc_not_Zero unat_0)
  have um: "unat (x mod ?m) = unat x mod Suc n" for x
    by (simp only: unat_mod m)
  have le2: "unat (x mod ?m) \<le> n" for x
    unfolding um using mod_less_divisor [of "Suc n" "unat x"] by simp
  have lt: "(a mod ?m < b mod ?m) = (unat a mod Suc n < unat b mod Suc n)" for a b
    by (simp only: word_less_nat_alt um)
  show ?thesis
  proof (cases "end mod ?m < start mod ?m")
    case True
    then show ?thesis
      using nz le le2 [of start] le2 [of "end"] n [symmetric]
      by (auto simp: RemoveRange_def reset_slice_eq um lt in_removed_def intro!: nth_equalityI)
  next
    case False
    then show ?thesis
      using nz le le2 [of start] le2 [of "end"] n [symmetric]
      by (auto simp: RemoveRange_def reset_slice_eq um lt in_removed_def not_less
          intro!: nth_equalityI)
  qed
qed

lemma NewSequenceBuffer_eq:
  "NewSequenceBuffer cap =
     Some \<lparr>latest = 0, seq_entries = replicate (unat cap) EmptySequenceBufferEntry\<rparr>"
proof -
  have "unat cap \<le> 65535" using unat_u16_less [of cap] by arith
  then show ?thesis
    by (simp add: NewSequenceBuffer_def SequenceBuffer_Reset_def resetSequenceBuffer_eq)
qed

text \<open>While neither bound exceeds the capacity the removed slots are exactly the named range.\<close>

lemma in_removed_small:
  "unat start \<le> n \<Longrightarrow> unat end \<le> n \<Longrightarrow> start \<le> end \<Longrightarrow>
   in_removed n start end i \<longleftrightarrow> unat start \<le> i \<and> i < unat end"
  by (auto simp: in_removed_def Let_def word_le_nat_alt)

end
