(* ===== verification/RingBuffer.thy ===== *)
theory RingBuffer
  imports SequenceBuffer
begin

text \<open>
  The ring of packet records indexed by sequence number. The source has four copies of this
  code, one per record type (\<open>buffer_packet.go\<close>, \<open>buffer_sent.go\<close>, \<open>buffer_recv.go\<close>,
  \<open>buffer_fragment.go\<close>), identical up to the type of the records; here they share one
  polymorphic record and theory \<open>Buffers\<close> gives the four types and their operations.

  A pointer \<open>&s.entries[i]\<close> is the index \<open>i\<close>, a nil pointer is \<^const>\<open>None\<close>; so an
  operation that returns a pointer and may panic has type \<^typ>\<open>nat option option\<close>.
\<close>

section \<open>State and operations\<close>

record 'e ring =
  ring_buf :: sequence_buffer
  ring_entries :: "'e list"

text \<open>\<open>uint16(cap(s.entries))\<close>.\<close>

definition ring_cap :: "'e ring \<Rightarrow> u16" where
  "ring_cap r = of_nat (length (ring_entries r))"

definition ring_New :: "'e \<Rightarrow> u16 \<Rightarrow> 'e ring option" where
  "ring_New zero cap = do {
     b \<leftarrow> NewSequenceBuffer cap;
     Some \<lparr>ring_buf = b, ring_entries = replicate (unat cap) zero\<rparr> }"

definition ring_IsOutdated :: "'e ring \<Rightarrow> u16 \<Rightarrow> bool" where
  "ring_IsOutdated r seq \<longleftrightarrow> seqLessThan seq (latest (ring_buf r) - ring_cap r)"

definition ring_Insert :: "'e ring \<Rightarrow> u16 \<Rightarrow> ('e ring \<times> nat option) option" where
  "ring_Insert r seq =
     (if ring_IsOutdated r seq then Some (r, None)
      else do {
        b \<leftarrow> (if seqGreaterThan (seq + 1) (latest (ring_buf r))
              then do { b \<leftarrow> RemoveRange (ring_buf r) (latest (ring_buf r)) seq;
                        Some (b\<lparr>latest := seq + 1\<rparr>) }
              else Some (ring_buf r));
        i \<leftarrow> word_rem seq (ring_cap r);
        es \<leftarrow> slice_set (seq_entries b) (unat i) (u32_of_u16 seq);
        _ \<leftarrow> slice_get (ring_entries r) (unat i);
        Some (r\<lparr>ring_buf := b\<lparr>seq_entries := es\<rparr>\<rparr>, Some (unat i)) })"

definition ring_Find :: "'e ring \<Rightarrow> u16 \<Rightarrow> nat option option" where
  "ring_Find r seq = do {
     i \<leftarrow> word_rem seq (ring_cap r);
     v \<leftarrow> slice_get (seq_entries (ring_buf r)) (unat i);
     if v = u32_of_u16 seq
     then do { _ \<leftarrow> slice_get (ring_entries r) (unat i); Some (Some (unat i)) }
     else Some None }"

definition ring_Remove :: "'e ring \<Rightarrow> u16 \<Rightarrow> 'e ring option" where
  "ring_Remove r seq = do {
     i \<leftarrow> word_rem seq (ring_cap r);
     es \<leftarrow> slice_set (seq_entries (ring_buf r)) (unat i) EmptySequenceBufferEntry;
     Some (r\<lparr>ring_buf := (ring_buf r)\<lparr>seq_entries := es\<rparr>\<rparr>) }"

text \<open>Reading and writing the record behind a pointer \<open>&s.entries[i]\<close>.\<close>

definition ring_read :: "'e ring \<Rightarrow> nat \<Rightarrow> 'e option" where
  "ring_read r i = slice_get (ring_entries r) i"

definition ring_write :: "'e ring \<Rightarrow> nat \<Rightarrow> 'e \<Rightarrow> 'e ring option" where
  "ring_write r i e = do {
     es \<leftarrow> slice_set (ring_entries r) i e;
     Some (r\<lparr>ring_entries := es\<rparr>) }"

section \<open>Well-formedness\<close>

text \<open>
  Both arrays have the same length, which is positive and below half the circle. This is what
  the constructors establish for every capacity in that range.
\<close>

definition ring_wf :: "'e ring \<Rightarrow> bool" where
  "ring_wf r \<longleftrightarrow>
     0 < length (ring_entries r) \<and> length (ring_entries r) < 32768 \<and>
     length (seq_entries (ring_buf r)) = length (ring_entries r)"

text \<open>The array index of a sequence number, and whether its slot holds it.\<close>

definition slot :: "'e ring \<Rightarrow> u16 \<Rightarrow> nat" where
  "slot r seq = unat seq mod length (ring_entries r)"

definition stored :: "'e ring \<Rightarrow> u16 \<Rightarrow> bool" where
  "stored r seq \<longleftrightarrow> seq_entries (ring_buf r) ! slot r seq = u32_of_u16 seq"

text \<open>The ring after a successful \<open>Insert(seq)\<close>, in closed form.\<close>

definition advanced :: "'e ring \<Rightarrow> u16 \<Rightarrow> bool" where
  "advanced r seq \<longleftrightarrow> seqGreaterThan (seq + 1) (latest (ring_buf r))"

definition wiped :: "'e ring \<Rightarrow> u16 \<Rightarrow> nat \<Rightarrow> bool" where
  "wiped r seq i \<longleftrightarrow> advanced r seq \<and>
     in_removed (length (ring_entries r)) (latest (ring_buf r)) seq i"

definition inserted :: "'e ring \<Rightarrow> u16 \<Rightarrow> 'e ring" where
  "inserted r seq = r\<lparr>ring_buf :=
     \<lparr>latest = (if advanced r seq then seq + 1 else latest (ring_buf r)),
      seq_entries = (map (\<lambda>i. if wiped r seq i then EmptySequenceBufferEntry
                               else seq_entries (ring_buf r) ! i)
                      [0..<length (ring_entries r)]) [slot r seq := u32_of_u16 seq]\<rparr>\<rparr>"

lemma ring_wfD [dest]:
  assumes "ring_wf r"
  shows "0 < length (ring_entries r)" "length (ring_entries r) < 32768"
    "length (seq_entries (ring_buf r)) = length (ring_entries r)"
  using assms by (simp_all add: ring_wf_def)

lemma unat_ring_cap: "ring_wf r \<Longrightarrow> unat (ring_cap r) = length (ring_entries r)"
  by (auto simp: ring_cap_def ring_wf_def intro!: unat_of_nat_u16)

lemma ring_cap_nz: "ring_wf r \<Longrightarrow> ring_cap r \<noteq> 0"
  by (metis unat_ring_cap ring_wf_def less_irrefl unat_0)

lemma slot_less [simp]: "ring_wf r \<Longrightarrow> slot r seq < length (ring_entries r)"
  by (simp add: slot_def ring_wf_def)

lemma unat_slot: "ring_wf r \<Longrightarrow> unat (seq mod ring_cap r) = slot r seq"
  by (simp add: unat_mod unat_ring_cap slot_def)

lemma slot_inserted [simp]: "slot (inserted r s) t = slot r t"
  by (simp add: slot_def inserted_def)

lemma entries_inserted [simp]: "ring_entries (inserted r s) = ring_entries r"
  by (simp add: inserted_def)

lemma latest_inserted:
  "latest (ring_buf (inserted r s)) = (if advanced r s then s + 1 else latest (ring_buf r))"
  by (simp add: inserted_def)

lemma advanced_latest [simp]: "advanced r (latest (ring_buf r))"
  by (simp add: advanced_def)

lemma wiped_latest [simp]: "\<not> wiped r (latest (ring_buf r)) i"
  by (simp add: wiped_def)

lemma ring_wf_inserted [wf_intros]: "ring_wf r \<Longrightarrow> ring_wf (inserted r s)"
  by (simp add: ring_wf_def inserted_def)

lemma ring_wf_buf_update:
  "ring_wf r \<Longrightarrow> length es = length (ring_entries r) \<Longrightarrow>
   ring_wf (r\<lparr>ring_buf := b\<lparr>seq_entries := es\<rparr>\<rparr>)"
  by (simp add: ring_wf_def)

lemma ring_wf_entries_update:
  "ring_wf r \<Longrightarrow> length es = length (ring_entries r) \<Longrightarrow> ring_wf (r\<lparr>ring_entries := es\<rparr>)"
  by (simp add: ring_wf_def)

section \<open>The operations on well-formed rings\<close>

lemma ring_New_eq:
  "ring_New z cap = Some
     \<lparr>ring_buf = \<lparr>latest = 0, seq_entries = replicate (unat cap) EmptySequenceBufferEntry\<rparr>,
      ring_entries = replicate (unat cap) z\<rparr>"
  by (simp add: ring_New_def NewSequenceBuffer_eq)

lemma ring_New_wf:
  "ring_New z cap = Some r \<Longrightarrow> 0 < unat cap \<Longrightarrow> unat cap < 32768 \<Longrightarrow> ring_wf r"
  by (auto simp: ring_New_eq ring_wf_def)

lemma ring_Find_eq:
  assumes "ring_wf r"
  shows "ring_Find r s = Some (if stored r s then Some (slot r s) else None)"
  using assms ring_wfD(3) [OF assms] slot_less [OF assms, of s]
  by (simp add: ring_Find_def ring_cap_nz unat_slot stored_def)

lemma ring_Insert_outdated: "ring_IsOutdated r s \<Longrightarrow> ring_Insert r s = Some (r, None)"
  by (simp add: ring_Insert_def)

lemma ring_Insert_eq:
  assumes wf: "ring_wf r" and ok: "\<not> ring_IsOutdated r s"
  shows "ring_Insert r s = Some (inserted r s, Some (slot r s))"
proof -
  let ?n = "length (ring_entries r)"
  have len: "length (seq_entries (ring_buf r)) = ?n" using wf by auto
  have sl: "slot r s < ?n" using wf by simp
  have rr: "RemoveRange (ring_buf r) (latest (ring_buf r)) s = Some ((ring_buf r)\<lparr>seq_entries :=
      map (\<lambda>i. if in_removed ?n (latest (ring_buf r)) s i then EmptySequenceBufferEntry
        else seq_entries (ring_buf r) ! i) [0..<?n]\<rparr>)"
    using wf len by (intro RemoveRange_eq) auto
  show ?thesis
  proof (cases "advanced r s")
    case True
    with ok wf rr sl show ?thesis
      by (simp add: ring_Insert_def ring_cap_nz unat_slot inserted_def wiped_def advanced_def)
  next
    case False
    have "map ((!) (seq_entries (ring_buf r))) [0..<?n] = seq_entries (ring_buf r)"
      using len map_nth [of "seq_entries (ring_buf r)"] by simp
    with False ok wf len sl show ?thesis
      by (simp add: ring_Insert_def ring_cap_nz unat_slot inserted_def wiped_def advanced_def)
  qed
qed

lemma ring_Insert_cases:
  assumes "ring_wf r"
  obtains (outdated) "ring_IsOutdated r s" "ring_Insert r s = Some (r, None)"
  | (stored) "\<not> ring_IsOutdated r s" "ring_Insert r s = Some (inserted r s, Some (slot r s))"
  using assms ring_Insert_eq ring_Insert_outdated by blast

lemma ring_Remove_eq:
  "ring_wf r \<Longrightarrow> ring_Remove r s = Some (r\<lparr>ring_buf := (ring_buf r)
     \<lparr>seq_entries := (seq_entries (ring_buf r)) [slot r s := EmptySequenceBufferEntry]\<rparr>\<rparr>)"
  by (simp add: ring_Remove_def ring_cap_nz unat_slot ring_wfD(3))

lemma ring_read_eq: "i < length (ring_entries r) \<Longrightarrow> ring_read r i = Some (ring_entries r ! i)"
  by (simp add: ring_read_def)

lemma ring_write_eq:
  "i < length (ring_entries r) \<Longrightarrow>
   ring_write r i e = Some (r\<lparr>ring_entries := (ring_entries r) [i := e]\<rparr>)"
  by (simp add: ring_write_def)

section \<open>Which sequence numbers are stored\<close>

lemma nth_inserted:
  "ring_wf r \<Longrightarrow> i < length (ring_entries r) \<Longrightarrow>
   seq_entries (ring_buf (inserted r s)) ! i =
     (if i = slot r s then u32_of_u16 s
      else if wiped r s i then EmptySequenceBufferEntry else seq_entries (ring_buf r) ! i)"
  by (simp add: inserted_def nth_list_update)

lemma stored_inserted:
  assumes "ring_wf r"
  shows "stored (inserted r s) t \<longleftrightarrow>
    t = s \<or> (stored r t \<and> slot r t \<noteq> slot r s \<and> \<not> wiped r s (slot r t))"
  using assms by (auto simp: stored_def nth_inserted)

lemma stored_New: "ring_New z cap = Some r \<Longrightarrow> 0 < unat cap \<Longrightarrow> \<not> stored r t"
  by (auto simp: ring_New_eq stored_def slot_def)

lemma stored_write [simp]: "stored (r\<lparr>ring_entries := (ring_entries r) [i := e]\<rparr>) t = stored r t"
  by (simp add: stored_def slot_def)

lemma slot_write [simp]: "slot (r\<lparr>ring_entries := (ring_entries r) [i := e]\<rparr>) t = slot r t"
  by (simp add: slot_def)

lemma stored_slot_inj: "stored r s \<Longrightarrow> stored r t \<Longrightarrow> slot r s = slot r t \<Longrightarrow> s = t"
  by (simp add: stored_def)

lemma not_outdated_latest: "ring_wf r \<Longrightarrow> \<not> ring_IsOutdated r (latest (ring_buf r))"
  by (simp add: ring_IsOutdated_def latest_not_outdated unat_ring_cap ring_wfD)

end
