(* ===== verification/ThirdParty.thy ===== *)
theory ThirdParty
  imports Prelude
begin

text \<open>
  The two packages the code calls and that are not part of the repository:
  \<^item> \<open>github.com/lithdew/bytesutil\<close>: \<open>AppendUint16BE\<close>, \<open>Uint16BE\<close> and \<open>ExtendSlice\<close>;
  \<^item> \<open>github.com/valyala/bytebufferpool\<close>: \<open>Pool.Get\<close> and \<open>Pool.Put\<close>.
  They are a parameter of the model, a record of functions, and \<open>lib_ok\<close> states what the
  code relies on.

  A pool hands out buffers with arbitrary old contents, which \<open>ExtendSlice\<close> makes visible.
  The model counts the calls of \<open>Get\<close>; \<open>ExtendSlice lib k n\<close> is the memory behind the
  buffer of the \<open>k\<close>-th call, up to its capacity, after it was extended to length \<open>n\<close>. Its
  contents are unconstrained, so a theorem over every \<open>lib\<close> covers every pool history.
\<close>

record lib =
  AppendUint16BE :: "bytes \<Rightarrow> u16 \<Rightarrow> bytes"
  Uint16BE :: "bytes \<Rightarrow> u16"
  ExtendSlice :: "nat \<Rightarrow> nat \<Rightarrow> bytes"

definition lib_ok :: "lib \<Rightarrow> bool" where
  "lib_ok lib \<longleftrightarrow>
     (\<forall>dst v. AppendUint16BE lib dst v = dst @ AppendUint16BE lib [] v) \<and>
     (\<forall>v. length (AppendUint16BE lib [] v) = 2) \<and>
     (\<forall>v. Uint16BE lib (AppendUint16BE lib [] v) = v) \<and>
     (\<forall>k n. n \<le> length (ExtendSlice lib k n))"

text \<open>A library that satisfies the hypotheses: big-endian coding and zeroed fresh buffers.\<close>

definition be_lib :: lib where
  "be_lib = \<lparr>
     AppendUint16BE = (\<lambda>dst v. dst @ [ucast (drop_bit 8 v), ucast v]),
     Uint16BE = (\<lambda>b. case b of [hi, lo] \<Rightarrow> push_bit 8 (ucast hi) OR ucast lo | _ \<Rightarrow> 0),
     ExtendSlice = (\<lambda>k n. replicate n 0)\<rparr>"

lemma be_roundtrip:
  "push_bit 8 (ucast (ucast (drop_bit 8 v) :: u8)) OR ucast (ucast v :: u8) = (v :: u16)"
  by (rule bit_word_eqI) (auto simp: bit_simps)

lemma be_lib_ok: "lib_ok be_lib"
  by (simp add: lib_ok_def be_lib_def be_roundtrip)

text \<open>The laws, as one locale that the codecs' lemmas are proved in.\<close>

locale library =
  fixes lib :: lib
  assumes ok: "lib_ok lib"
begin

lemma append_eq: "AppendUint16BE lib dst v = dst @ AppendUint16BE lib [] v"
  using ok unfolding lib_ok_def by blast

lemma length_append [simp]: "length (AppendUint16BE lib [] v) = 2"
  using ok unfolding lib_ok_def by blast

lemma uint16_append [simp]: "Uint16BE lib (AppendUint16BE lib [] v) = v"
  using ok unfolding lib_ok_def by blast

lemma extend_length: "n \<le> length (ExtendSlice lib k n)"
  using ok unfolding lib_ok_def by blast

lemma take_append [simp]: "take 2 (AppendUint16BE lib [] v @ rest) = AppendUint16BE lib [] v"
  by simp

lemma drop_append [simp]: "drop 2 (AppendUint16BE lib [] v @ rest) = rest"
  by simp

end

interpretation be: library be_lib
  by unfold_locales (rule be_lib_ok)

end
