(* ===== verification/PacketHeader.thy ===== *)
theory PacketHeader
  imports ThirdParty
begin

text \<open>
  The packet header and its wire format (\<open>packet.go\<close>). A header is a flag byte, the sequence
  number, the acknowledged sequence number (one byte of distance when it trails the sequence
  number by at most 255, two bytes otherwise) and those bytes of the acknowledgement bitset
  that are not all ones.
\<close>

section \<open>Errors\<close>

text \<open>The errors of the package; \<open>Wrap\<close> is \<open>fmt.Errorf("...: %w", err)\<close>.\<close>

datatype go_error =
    ErrUnexpectedEOF
  | ErrFragmentId u8 u8
  | ErrTooManyFragments u8 nat
  | ErrAlreadyReceived u8
  | ErrSeqMismatch u16 u16
  | ErrReassemblyInsert u16
  | ErrTotalMismatch nat nat
  | ErrStale u16
  | Wrap string go_error

section \<open>Flags\<close>

type_synonym packet_header_flag = u8

definition FlagFragment :: packet_header_flag where "FlagFragment = push_bit 0 1"
definition FlagA :: packet_header_flag where "FlagA = push_bit 1 1"
definition FlagB :: packet_header_flag where "FlagB = push_bit 2 1"
definition FlagC :: packet_header_flag where "FlagC = push_bit 3 1"
definition FlagD :: packet_header_flag where "FlagD = push_bit 4 1"
definition FlagACKEncoded :: packet_header_flag where "FlagACKEncoded = push_bit 5 1"

definition Toggle :: "packet_header_flag \<Rightarrow> packet_header_flag \<Rightarrow> packet_header_flag" where
  "Toggle p flag = p OR flag"

definition Toggled :: "packet_header_flag \<Rightarrow> packet_header_flag \<Rightarrow> bool" where
  "Toggled p flag \<longleftrightarrow> p AND flag \<noteq> 0"

definition PacketHeaderFlag_AppendTo :: "packet_header_flag \<Rightarrow> bytes \<Rightarrow> bytes" where
  "PacketHeaderFlag_AppendTo p dst = dst @ [p]"

section \<open>The header\<close>

definition MaxPacketHeaderSize :: nat where "MaxPacketHeaderSize = 9"

record packet_header =
  ph_seq :: u16
  ph_ack :: u16
  ph_acks :: u32

definition PacketHeader_AppendTo :: "lib \<Rightarrow> packet_header \<Rightarrow> bytes \<Rightarrow> bytes" where
  "PacketHeader_AppendTo lib p dst = (let
     acks = ph_acks p;
     flag = 0;
     flag = (if acks AND 0x000000FF \<noteq> 0x000000FF then Toggle flag FlagA else flag);
     flag = (if acks AND 0x0000FF00 \<noteq> 0x0000FF00 then Toggle flag FlagB else flag);
     flag = (if acks AND 0x00FF0000 \<noteq> 0x00FF0000 then Toggle flag FlagC else flag);
     flag = (if acks AND 0xFF000000 \<noteq> 0xFF000000 then Toggle flag FlagD else flag);
     diff = uint (ph_seq p) - uint (ph_ack p);
     diff = (if diff < 0 then diff + 65536 else diff);
     flag = (if diff \<le> 255 then Toggle flag FlagACKEncoded else flag);
     dst = PacketHeaderFlag_AppendTo flag dst;
     dst = AppendUint16BE lib dst (ph_seq p);
     dst = (if diff \<le> 255 then dst @ [word_of_int diff] else AppendUint16BE lib dst (ph_ack p));
     dst = (if acks AND 0x000000FF \<noteq> 0x000000FF
            then dst @ [ucast (acks AND 0x000000FF)] else dst);
     dst = (if acks AND 0x0000FF00 \<noteq> 0x0000FF00
            then dst @ [ucast (drop_bit 8 (acks AND 0x0000FF00))] else dst);
     dst = (if acks AND 0x00FF0000 \<noteq> 0x00FF0000
            then dst @ [ucast (drop_bit 16 (acks AND 0x00FF0000))] else dst);
     dst = (if acks AND 0xFF000000 \<noteq> 0xFF000000
            then dst @ [ucast (drop_bit 24 (acks AND 0xFF000000))] else dst)
   in dst)"

text \<open>\<open>buf[0], buf[1:]\<close>, which panics on an empty slice.\<close>

fun read_byte :: "bytes \<Rightarrow> (u8 \<times> bytes) option" where
  "read_byte [] = None"
| "read_byte (b # bs) = Some (b, bs)"

text \<open>\<open>bits.OnesCount8\<close>.\<close>

definition OnesCount8 :: "u8 \<Rightarrow> nat" where
  "OnesCount8 x = length (filter (bit x) [0..<8])"

text \<open>One block \<open>if flag.Toggled(f) { acks &= keep; acks |= uint32(buf[0]) << sh; buf = buf[1:] }\<close>.\<close>

definition unmarshal_acks_byte ::
  "packet_header_flag \<Rightarrow> packet_header_flag \<Rightarrow> u32 \<Rightarrow> nat \<Rightarrow> u32 \<times> bytes \<Rightarrow> (u32 \<times> bytes) option" where
  "unmarshal_acks_byte flag f keep sh = (\<lambda>(acks, buf).
     if Toggled flag f
     then do { (b, buf) \<leftarrow> read_byte buf;
               Some ((acks AND keep) OR push_bit sh (ucast b), buf) }
     else Some (acks, buf))"

text \<open>The four blocks in sequence, from an all-ones bitset.\<close>

definition unmarshal_acks :: "packet_header_flag \<Rightarrow> bytes \<Rightarrow> (u32 \<times> bytes) option" where
  "unmarshal_acks flag buf = do {
     s \<leftarrow> unmarshal_acks_byte flag FlagA 0xFFFFFF00 0 (0xFFFFFFFF, buf);
     s \<leftarrow> unmarshal_acks_byte flag FlagB 0xFFFF00FF 8 s;
     s \<leftarrow> unmarshal_acks_byte flag FlagC 0xFF00FFFF 16 s;
     unmarshal_acks_byte flag FlagD 0x00FFFFFF 24 s }"

text \<open>
  The outer option is a run-time panic, the sum is the returned error. On an error the source
  also returns the partial header and the rest of the buffer, which every caller discards.
\<close>

definition UnmarshalPacketHeader ::
  "lib \<Rightarrow> bytes \<Rightarrow> (go_error + packet_header \<times> bytes) option" where
  "UnmarshalPacketHeader lib buf =
     (if length buf < 3 then Some (Inl ErrUnexpectedEOF)
      else do {
        (flag, buf) \<leftarrow> read_byte buf;
        if Toggled flag FlagFragment then Some (Inl ErrUnexpectedEOF)
        else do {
          let seq = Uint16BE lib (take 2 buf);
          let buf = drop 2 buf;
          r \<leftarrow> (if Toggled flag FlagACKEncoded
                then if length buf < 1 then Some (Inl ErrUnexpectedEOF)
                     else do { (b, buf) \<leftarrow> read_byte buf; Some (Inr (seq - ucast b, buf)) }
                else if length buf < 2 then Some (Inl ErrUnexpectedEOF)
                     else Some (Inr (Uint16BE lib (take 2 buf), drop 2 buf)));
          case r of Inl err \<Rightarrow> Some (Inl err)
          | Inr (ack, buf) \<Rightarrow>
              if length buf < OnesCount8 (flag AND (FlagA OR FlagB OR FlagC OR FlagD))
              then Some (Inl ErrUnexpectedEOF)
              else do {
                (acks, buf) \<leftarrow> unmarshal_acks flag buf;
                Some (Inr (\<lparr>ph_seq = seq, ph_ack = ack, ph_acks = acks\<rparr>, buf)) } } })"

section \<open>Flags as booleans\<close>

definition header_flags :: "bool \<Rightarrow> bool \<Rightarrow> bool \<Rightarrow> bool \<Rightarrow> bool \<Rightarrow> packet_header_flag" where
  "header_flags a b c d e = (let
     flag = 0;
     flag = (if a then Toggle flag FlagA else flag);
     flag = (if b then Toggle flag FlagB else flag);
     flag = (if c then Toggle flag FlagC else flag);
     flag = (if d then Toggle flag FlagD else flag)
   in (if e then Toggle flag FlagACKEncoded else flag))"

lemmas flag_defs = FlagFragment_def FlagA_def FlagB_def FlagC_def FlagD_def FlagACKEncoded_def
  Toggle_def Toggled_def

lemma Toggled_header_flags [simp]:
  "Toggled (header_flags a b c d e) FlagFragment = False"
  "Toggled (header_flags a b c d e) FlagA = a"
  "Toggled (header_flags a b c d e) FlagB = b"
  "Toggled (header_flags a b c d e) FlagC = c"
  "Toggled (header_flags a b c d e) FlagD = d"
  "Toggled (header_flags a b c d e) FlagACKEncoded = e"
  by (simp_all add: header_flags_def flag_defs Let_def)

lemma Toggled_bit:
  "Toggled flag FlagFragment = bit flag 0"
  "Toggled flag FlagA = bit flag 1" "Toggled flag FlagB = bit flag 2"
  "Toggled flag FlagC = bit flag 3" "Toggled flag FlagD = bit flag 4"
  "Toggled flag FlagACKEncoded = bit flag 5"
  using and_exp_eq_0_iff_not_bit [of flag 0] and_exp_eq_0_iff_not_bit [of flag 1]
    and_exp_eq_0_iff_not_bit [of flag 2] and_exp_eq_0_iff_not_bit [of flag 3]
    and_exp_eq_0_iff_not_bit [of flag 4] and_exp_eq_0_iff_not_bit [of flag 5]
  by (simp_all add: Toggled_def flag_defs)

text \<open>The bounds check of the decoder counts exactly the bytes it reads afterwards.\<close>

lemma OnesCount8_ack_flags:
  "OnesCount8 (flag AND (FlagA OR FlagB OR FlagC OR FlagD)) =
     of_bool (Toggled flag FlagA) + of_bool (Toggled flag FlagB) +
     of_bool (Toggled flag FlagC) + of_bool (Toggled flag FlagD)"
proof -
  have "[0..<8] = [0, 1, 2, 3, 4, 5, 6, 7::nat]"
    by (simp add: upt_rec eval_nat_numeral)
  then show ?thesis
    unfolding Toggled_bit by (simp add: flag_defs OnesCount8_def bit_simps)
qed

section \<open>The acknowledgement bytes\<close>

definition byte_mask :: "nat \<Rightarrow> u32" where
  "byte_mask sh = push_bit sh 255"

lemma byte_masks:
  "(0x000000FF :: u32) = byte_mask 0" "(0x0000FF00 :: u32) = byte_mask 8"
  "(0x00FF0000 :: u32) = byte_mask 16" "(0xFF000000 :: u32) = byte_mask 24"
  "(0xFFFFFF00 :: u32) = NOT (byte_mask 0)" "(0xFFFF00FF :: u32) = NOT (byte_mask 8)"
  "(0xFF00FFFF :: u32) = NOT (byte_mask 16)" "(0x00FFFFFF :: u32) = NOT (byte_mask 24)"
  by (simp_all add: byte_mask_def)

lemma bit_byte_mask [simp]: "bit (byte_mask sh) n \<longleftrightarrow> sh \<le> n \<and> n < sh + 8 \<and> n < 32"
proof -
  have "byte_mask sh = push_bit sh (mask 8)" by (simp add: byte_mask_def mask_eq_exp_minus_1)
  then show ?thesis by (auto simp: bit_simps)
qed

text \<open>Where a byte of the bitset is all ones it is not sent, and reads back as all ones.\<close>

definition ack_byte :: "nat \<Rightarrow> u32 \<Rightarrow> bytes" where
  "ack_byte sh acks = (if acks AND byte_mask sh \<noteq> byte_mask sh
     then [ucast (drop_bit sh (acks AND byte_mask sh))] else [])"

lemma insert_byte:
  "sh \<le> 24 \<Longrightarrow>
   (acc AND NOT (byte_mask sh)) OR push_bit sh (ucast (ucast (drop_bit sh (acks AND byte_mask sh)) :: u8)) =
   (acc AND NOT (byte_mask sh)) OR (acks AND byte_mask sh)"
  by (rule bit_word_eqI) (auto simp: bit_simps)

lemma unmarshal_ack_byte:
  assumes "sh \<le> 24" and "acc AND byte_mask sh = byte_mask sh"
    and "Toggled flag f \<longleftrightarrow> acks AND byte_mask sh \<noteq> byte_mask sh"
  shows "unmarshal_acks_byte flag f (NOT (byte_mask sh)) sh (acc, ack_byte sh acks @ rest) =
    Some ((acc AND NOT (byte_mask sh)) OR (acks AND byte_mask sh), rest)"
proof (cases "Toggled flag f")
  case True
  with assms insert_byte [of sh acc acks] show ?thesis
    by (simp add: unmarshal_acks_byte_def ack_byte_def)
next
  case False
  have "acc = (acc AND NOT (byte_mask sh)) OR (acc AND byte_mask sh)"
    by (rule bit_word_eqI) (auto simp: bit_simps)
  with False assms show ?thesis
    by (simp add: unmarshal_acks_byte_def ack_byte_def)
qed

lemma four_bytes:
  fixes acks :: u32
  defines "x0 \<equiv> 0xFFFFFFFF :: u32"
  defines "x1 \<equiv> (x0 AND NOT (byte_mask 0)) OR (acks AND byte_mask 0)"
  defines "x2 \<equiv> (x1 AND NOT (byte_mask 8)) OR (acks AND byte_mask 8)"
  defines "x3 \<equiv> (x2 AND NOT (byte_mask 16)) OR (acks AND byte_mask 16)"
  shows "x0 AND byte_mask 0 = byte_mask 0 \<and> x1 AND byte_mask 8 = byte_mask 8 \<and>
    x2 AND byte_mask 16 = byte_mask 16 \<and> x3 AND byte_mask 24 = byte_mask 24 \<and>
    (x3 AND NOT (byte_mask 24)) OR (acks AND byte_mask 24) = acks"
proof (intro conjI)
  have "x0 = mask 32" by (simp add: x0_def mask_eq_exp_minus_1)
  then have x0: "bit x0 n \<longleftrightarrow> n < 32" for n by (simp add: bit_simps)
  show "x0 AND byte_mask 0 = byte_mask 0"
    by (rule bit_word_eqI) (auto simp: bit_simps x0)
  show "x1 AND byte_mask 8 = byte_mask 8"
    by (rule bit_word_eqI) (auto simp: bit_simps x0 x1_def)
  show "x2 AND byte_mask 16 = byte_mask 16"
    by (rule bit_word_eqI) (auto simp: bit_simps x0 x1_def x2_def)
  show "x3 AND byte_mask 24 = byte_mask 24"
    by (rule bit_word_eqI) (auto simp: bit_simps x0 x1_def x2_def x3_def)
  show "(x3 AND NOT (byte_mask 24)) OR (acks AND byte_mask 24) = acks"
    by (rule bit_word_eqI) (auto simp: bit_simps x0 x1_def x2_def x3_def)
qed

section \<open>Encoding in closed form\<close>

definition ack_diff :: "packet_header \<Rightarrow> int" where
  "ack_diff p = (let d = uint (ph_seq p) - uint (ph_ack p) in if d < 0 then d + 65536 else d)"

definition header_flag_byte :: "packet_header \<Rightarrow> packet_header_flag" where
  "header_flag_byte p = (let m = (\<lambda>sh. ph_acks p AND byte_mask sh \<noteq> byte_mask sh)
     in header_flags (m 0) (m 8) (m 16) (m 24) (ack_diff p \<le> 255))"

definition header_ack_bytes :: "lib \<Rightarrow> packet_header \<Rightarrow> bytes" where
  "header_ack_bytes lib p = (if ack_diff p \<le> 255 then [word_of_int (ack_diff p)]
     else AppendUint16BE lib [] (ph_ack p))"

definition header_acks_bytes :: "packet_header \<Rightarrow> bytes" where
  "header_acks_bytes p = ack_byte 0 (ph_acks p) @ ack_byte 8 (ph_acks p) @
     ack_byte 16 (ph_acks p) @ ack_byte 24 (ph_acks p)"

lemma ack_diff_word: "word_of_int (ack_diff p) = ph_seq p - ph_ack p"
  by (simp add: ack_diff_def Let_def)

lemma ack_diff_nonneg: "0 \<le> ack_diff p"
proof -
  have "uint (ph_ack p) < 65536" "0 \<le> uint (ph_seq p)"
    using uint_lt2p [of "ph_ack p"] by simp_all
  then show ?thesis unfolding ack_diff_def Let_def by arith
qed

lemma ack_diff_byte: "ack_diff p \<le> 255 \<Longrightarrow> ucast (word_of_int (ack_diff p) :: u8) = ph_seq p - ph_ack p"
proof -
  assume le: "ack_diff p \<le> 255"
  then have "uint (word_of_int (ack_diff p) :: u8) = ack_diff p"
    using ack_diff_nonneg [of p] by (simp add: uint_word_of_int)
  then have "ucast (word_of_int (ack_diff p) :: u8) = (word_of_int (ack_diff p) :: u16)"
    using le ack_diff_nonneg [of p]
    by (simp add: word_uint_eq_iff unsigned_ucast_eq uint_word_of_int take_bit_eq_mod)
  then show ?thesis by (simp only: ack_diff_word)
qed

context library
begin

lemma PacketHeader_AppendTo_eq:
  "PacketHeader_AppendTo lib p dst = dst @ header_flag_byte p # AppendUint16BE lib [] (ph_seq p) @
     header_ack_bytes lib p @ header_acks_bytes p"
  unfolding PacketHeader_AppendTo_def Let_def PacketHeaderFlag_AppendTo_def
    append_eq [of "_ @ _"]
  by (simp add: header_flag_byte_def header_flags_def header_ack_bytes_def
      header_acks_bytes_def ack_byte_def byte_masks ack_diff_def)

lemma PacketHeader_roundtrip:
  "UnmarshalPacketHeader lib (PacketHeader_AppendTo lib p [] @ rest) = Some (Inr (p, rest))"
proof -
  let ?acks = "ph_acks p" let ?flag = "header_flag_byte p"
  have flags: "Toggled ?flag FlagFragment = False"
    "Toggled ?flag FlagA = (?acks AND byte_mask 0 \<noteq> byte_mask 0)"
    "Toggled ?flag FlagB = (?acks AND byte_mask 8 \<noteq> byte_mask 8)"
    "Toggled ?flag FlagC = (?acks AND byte_mask 16 \<noteq> byte_mask 16)"
    "Toggled ?flag FlagD = (?acks AND byte_mask 24 \<noteq> byte_mask 24)"
    "Toggled ?flag FlagACKEncoded = (ack_diff p \<le> 255)"
    by (simp_all add: header_flag_byte_def)
  have count: "OnesCount8 (?flag AND (FlagA OR FlagB OR FlagC OR FlagD)) =
      length (header_acks_bytes p)"
    by (simp add: OnesCount8_ack_flags header_flag_byte_def header_acks_bytes_def ack_byte_def)
  show ?thesis
    unfolding UnmarshalPacketHeader_def PacketHeader_AppendTo_eq
    using four_bytes [of ?acks]
    by (simp add: flags count header_ack_bytes_def ack_diff_byte)
      (simp add: header_acks_bytes_def unmarshal_acks_def byte_masks unmarshal_ack_byte flags)
qed

end

section \<open>Decoding arbitrary bytes\<close>

lemma unmarshal_acks_byte_total:
  "of_bool (Toggled flag f) \<le> length buf \<Longrightarrow>
   \<exists>acks'. unmarshal_acks_byte flag f keep sh (acks, buf) =
     Some (acks', drop (of_bool (Toggled flag f)) buf)"
  by (cases buf) (auto simp: unmarshal_acks_byte_def)

text \<open>
  The decoder never panics: every read is covered by a length check. On success it has
  consumed a prefix of four to nine bytes.
\<close>

lemma unmarshal_acks_total:
  assumes "OnesCount8 (flag AND (FlagA OR FlagB OR FlagC OR FlagD)) \<le> length buf"
  obtains acks c rest where "buf = c @ rest" "length c \<le> 4"
    "unmarshal_acks flag buf = Some (acks, rest)"
proof -
  let ?t = "\<lambda>f. of_bool (Toggled flag f) :: nat"
  let ?n = "?t FlagA + ?t FlagB + ?t FlagC + ?t FlagD"
  have n: "?n \<le> length buf" using assms by (simp only: OnesCount8_ack_flags)
  then obtain a1 where 1: "unmarshal_acks_byte flag FlagA 0xFFFFFF00 0 (0xFFFFFFFF, buf) =
      Some (a1, drop (?t FlagA) buf)"
    using unmarshal_acks_byte_total [of flag FlagA buf] by fastforce
  obtain a2 where 2: "unmarshal_acks_byte flag FlagB 0xFFFF00FF 8 (a1, drop (?t FlagA) buf) =
      Some (a2, drop (?t FlagB) (drop (?t FlagA) buf))"
    using n unmarshal_acks_byte_total [of flag FlagB "drop (?t FlagA) buf"] by fastforce
  obtain a3 where 3: "unmarshal_acks_byte flag FlagC 0xFF00FFFF 16
        (a2, drop (?t FlagB) (drop (?t FlagA) buf)) =
      Some (a3, drop (?t FlagC) (drop (?t FlagB) (drop (?t FlagA) buf)))"
    using n unmarshal_acks_byte_total [of flag FlagC "drop (?t FlagB) (drop (?t FlagA) buf)"]
    by fastforce
  obtain a4 where 4: "unmarshal_acks_byte flag FlagD 0x00FFFFFF 24
        (a3, drop (?t FlagC) (drop (?t FlagB) (drop (?t FlagA) buf))) =
      Some (a4, drop (?t FlagD) (drop (?t FlagC) (drop (?t FlagB) (drop (?t FlagA) buf))))"
    using n unmarshal_acks_byte_total [of flag FlagD
        "drop (?t FlagC) (drop (?t FlagB) (drop (?t FlagA) buf))"]
    by fastforce
  have "?n \<le> 1 + 1 + 1 + 1"
    by (intro add_mono) (simp_all add: of_bool_def)
  then have "length (take ?n buf) \<le> 4" unfolding length_take by arith
  moreover have "buf = take ?n buf @ drop ?n buf" by (simp only: append_take_drop_id)
  moreover have "drop (?t FlagD) (drop (?t FlagC) (drop (?t FlagB) (drop (?t FlagA) buf))) =
      drop ?n buf"
    by (simp only: drop_drop add_ac)
  ultimately show ?thesis
    using 1 2 3 4 by (intro that [of "take ?n buf" "drop ?n buf" a4]) (simp_all add: unmarshal_acks_def)
qed

lemma UnmarshalPacketHeader_cases:
  obtains (error) err where "UnmarshalPacketHeader lib b = Some (Inl err)"
  | (ok) p c rest where "UnmarshalPacketHeader lib b = Some (Inr (p, rest))" "b = c @ rest"
      "4 \<le> length c" "length c \<le> MaxPacketHeaderSize"
proof (cases "length b < 3")
  case True
  then show ?thesis by (intro error) (simp add: UnmarshalPacketHeader_def)
next
  case False
  then have "Suc (Suc (Suc 0)) \<le> length b" by simp
  then obtain flag x y b3 where b: "b = flag # x # y # b3"
    by (auto simp only: Suc_le_length_iff)
  let ?seq = "Uint16BE lib [x, y]"
  let ?count = "OnesCount8 (flag AND (FlagA OR FlagB OR FlagC OR FlagD))"
  show ?thesis
  proof (cases "Toggled flag FlagFragment")
    case True
    then show ?thesis by (intro error) (simp add: UnmarshalPacketHeader_def b)
  next
    case nofrag: False
    show ?thesis
    proof (cases "length b3 < (if Toggled flag FlagACKEncoded then 1 else 2)")
      case True
      with nofrag show ?thesis
        by (intro error) (simp add: UnmarshalPacketHeader_def b split: if_splits)
    next
      case long: False
      define k where "k = (if Toggled flag FlagACKEncoded then 1 else 2 :: nat)"
      have k: "k \<le> length b3" "1 \<le> k" "k \<le> 2" using long by (simp_all add: k_def not_less)
      define ack where "ack = (if Toggled flag FlagACKEncoded then ?seq - ucast (hd b3)
        else Uint16BE lib (take 2 b3))"
      have head: "(if Toggled flag FlagACKEncoded
          then if length b3 < 1 then Some (Inl ErrUnexpectedEOF)
               else do { (b, buf) \<leftarrow> read_byte b3; Some (Inr (?seq - ucast b, buf)) }
          else if length b3 < 2 then Some (Inl ErrUnexpectedEOF)
               else Some (Inr (Uint16BE lib (take 2 b3), drop 2 b3))) =
        Some (Inr (ack, drop k b3))"
        using long by (cases b3) (simp_all add: ack_def k_def split: if_splits)
      show ?thesis
      proof (cases "length (drop k b3) < ?count")
        case True
        with nofrag head show ?thesis
          by (intro error) (simp add: UnmarshalPacketHeader_def b)
      next
        case False
        then have "?count \<le> length (drop k b3)" by simp
        then obtain acks c rest where "drop k b3 = c @ rest" "length c \<le> 4"
          "unmarshal_acks flag (drop k b3) = Some (acks, rest)"
          by (rule unmarshal_acks_total)
        moreover from this have "b = (flag # x # y # take k b3 @ c) @ rest"
          using append_take_drop_id [of k b3] by (simp add: b del: append_take_drop_id)
        ultimately show ?thesis
          using nofrag head k False
          by (intro ok [where c = "flag # x # y # take k b3 @ c"])
            (simp_all add: UnmarshalPacketHeader_def b MaxPacketHeaderSize_def)
      qed
    qed
  qed
qed

lemma UnmarshalPacketHeader_total: "UnmarshalPacketHeader lib b \<noteq> None"
  by (cases lib b rule: UnmarshalPacketHeader_cases) simp_all

end
