(* ===== verification/Codec.thy ===== *)
theory Codec
  imports Main
begin

text \<open>
  What a wire format promises its users: encoding appends to the destination, and decoding
  what was encoded returns the value and the bytes after it. The packet header and the
  fragment header are the two instances.
\<close>

locale codec =
  fixes encode :: "'h \<Rightarrow> 'b list \<Rightarrow> 'b list"
    and decode :: "'b list \<Rightarrow> ('e + 'h \<times> 'b list) option"
  assumes encode_append: "encode h dst = dst @ encode h []"
    and decode_encode: "decode (encode h [] @ rest) = Some (Inr (h, rest))"
    and decode_total: "decode b \<noteq> None"
begin

text \<open>Encodings are uniquely decodable, whatever follows them.\<close>

lemma encode_unique: "encode h [] @ r = encode h' [] @ r' \<Longrightarrow> h = h' \<and> r = r'"
  by (metis decode_encode option.inject prod.inject sum.inject(2))

lemma encode_inj: "encode h dst = encode h' dst \<Longrightarrow> h = h'"
  by (metis append_Nil2 encode_append encode_unique same_append_eq)

lemma decode_after: "decode (drop (length dst) (encode h dst) @ rest) = Some (Inr (h, rest))"
  by (metis append_eq_conv_conj decode_encode encode_append)

end

end
