(* ===== verification/FragmentCodec.thy ===== *)
theory FragmentCodec
  imports PacketHeader Codec
begin

text \<open>
  Fragments (\<open>packet.go\<close>): the five-byte fragment header and its validation, and the
  reassembly record with its bitset of received fragment identifiers.
\<close>

section \<open>The fragment header\<close>

definition FragmentHeaderSize :: nat where "FragmentHeaderSize = 5"

record fragment_header =
  fh_seq :: u16
  fh_id :: u8
  fh_total :: u8

definition FragmentHeader_Validate :: "fragment_header \<Rightarrow> nat \<Rightarrow> go_error option" where
  "FragmentHeader_Validate f maxFragments =
     (if fh_id f > fh_total f then Some (ErrFragmentId (fh_id f) (fh_total f))
      else if unat (fh_total f) + 1 > maxFragments
      then Some (ErrTooManyFragments (fh_total f) maxFragments)
      else None)"

definition FragmentHeader_AppendTo :: "lib \<Rightarrow> fragment_header \<Rightarrow> bytes \<Rightarrow> bytes" where
  "FragmentHeader_AppendTo lib f dst = (let
     dst = PacketHeaderFlag_AppendTo FlagFragment dst;
     dst = AppendUint16BE lib dst (fh_seq f)
   in dst @ [fh_id f, fh_total f])"

definition UnmarshalFragmentHeader ::
  "lib \<Rightarrow> bytes \<Rightarrow> (go_error + fragment_header \<times> bytes) option" where
  "UnmarshalFragmentHeader lib buf =
     (if length buf < FragmentHeaderSize
      then Some (Inl (Wrap ''got %d byte(s), expected at least %d byte(s)'' ErrUnexpectedEOF))
      else do {
        let buf = drop 1 buf;
        let seq = Uint16BE lib (take 2 buf);
        let buf = drop 2 buf;
        (fid, buf) \<leftarrow> read_byte buf;
        (total, buf) \<leftarrow> read_byte buf;
        Some (Inr (\<lparr>fh_seq = seq, fh_id = fid, fh_total = total\<rparr>, buf)) })"

section \<open>The reassembly record\<close>

text \<open>A buffer of the pool: its slice \<open>B\<close> is the first \<open>bb_len\<close> bytes of its memory \<open>bb_mem\<close>.\<close>

record byte_buffer =
  bb_len :: nat
  bb_mem :: bytes

record fragment =
  fr_recv :: nat
  fr_total :: nat
  fr_buf :: "byte_buffer option"
  fr_headerSize :: nat
  fr_packetSize :: nat
  fr_marked :: "u64 list"

definition zero_Fragment :: fragment where
  "zero_Fragment = \<lparr>fr_recv = 0, fr_total = 0, fr_buf = None, fr_headerSize = 0,
     fr_packetSize = 0, fr_marked = [0, 0, 0, 0]\<rparr>"

definition Fragment_Reset :: "fragment \<Rightarrow> fragment" where
  "Fragment_Reset f = zero_Fragment"

definition MarkReceived :: "fragment \<Rightarrow> u8 \<Rightarrow> (go_error + fragment) option" where
  "MarkReceived f fid = do {
     let idx = unat (drop_bit 6 fid);
     let pos = push_bit (unat (fid AND 63)) (1 :: u64);
     m \<leftarrow> slice_get (fr_marked f) idx;
     if m AND pos \<noteq> 0 then Some (Inl (ErrAlreadyReceived fid))
     else do { ms \<leftarrow> slice_set (fr_marked f) idx (m OR pos);
               Some (Inr (f\<lparr>fr_marked := ms\<rparr>)) } }"

section \<open>Lemmas\<close>

lemma FragmentHeader_Validate_None:
  "FragmentHeader_Validate f m = None \<longleftrightarrow>
     unat (fh_id f) \<le> unat (fh_total f) \<and> unat (fh_total f) < m"
  by (auto simp: FragmentHeader_Validate_def word_less_nat_alt not_less)

lemma UnmarshalFragmentHeader_total: "UnmarshalFragmentHeader lib b \<noteq> None"
proof (cases "length b < FragmentHeaderSize")
  case True
  then show ?thesis by (simp add: UnmarshalFragmentHeader_def)
next
  case False
  then have "Suc (Suc (Suc (Suc (Suc 0)))) \<le> length b" by (simp add: FragmentHeaderSize_def)
  then obtain x y z u v bs where "b = x # y # z # u # v # bs"
    by (auto simp only: Suc_le_length_iff)
  then show ?thesis by (simp add: UnmarshalFragmentHeader_def FragmentHeaderSize_def)
qed

context library
begin

lemma FragmentHeader_AppendTo_eq:
  "FragmentHeader_AppendTo lib f dst =
     dst @ FlagFragment # AppendUint16BE lib [] (fh_seq f) @ [fh_id f, fh_total f]"
  by (simp add: FragmentHeader_AppendTo_def PacketHeaderFlag_AppendTo_def Let_def
      append_eq [of "dst @ _"])

lemma FragmentHeader_roundtrip:
  "UnmarshalFragmentHeader lib (FragmentHeader_AppendTo lib f [] @ rest) = Some (Inr (f, rest))"
  by (simp add: UnmarshalFragmentHeader_def FragmentHeader_AppendTo_eq FragmentHeaderSize_def)

lemma length_FragmentHeader [simp]: "length (FragmentHeader_AppendTo lib f []) = FragmentHeaderSize"
  by (simp add: FragmentHeader_AppendTo_eq FragmentHeaderSize_def)

lemma length_PacketHeader:
  "4 \<le> length (PacketHeader_AppendTo lib p [])"
  "length (PacketHeader_AppendTo lib p []) \<le> MaxPacketHeaderSize"
  by (simp_all add: PacketHeader_AppendTo_eq header_ack_bytes_def header_acks_bytes_def
      ack_byte_def MaxPacketHeaderSize_def)

end

sublocale library \<subseteq> header: codec "PacketHeader_AppendTo lib" "UnmarshalPacketHeader lib"
proof
  fix h dst rest b
  show "PacketHeader_AppendTo lib h dst = dst @ PacketHeader_AppendTo lib h []"
    by (simp add: PacketHeader_AppendTo_eq)
  show "UnmarshalPacketHeader lib (PacketHeader_AppendTo lib h [] @ rest) = Some (Inr (h, rest))"
    by (rule PacketHeader_roundtrip)
  show "UnmarshalPacketHeader lib b \<noteq> None"
    by (rule UnmarshalPacketHeader_total)
qed

sublocale library \<subseteq> fragment: codec "FragmentHeader_AppendTo lib" "UnmarshalFragmentHeader lib"
proof
  fix h dst rest b
  show "FragmentHeader_AppendTo lib h dst = dst @ FragmentHeader_AppendTo lib h []"
    by (simp add: FragmentHeader_AppendTo_eq)
  show "UnmarshalFragmentHeader lib (FragmentHeader_AppendTo lib h [] @ rest) = Some (Inr (h, rest))"
    by (rule FragmentHeader_roundtrip)
  show "UnmarshalFragmentHeader lib b \<noteq> None"
    by (rule UnmarshalFragmentHeader_total)
qed

section \<open>The bitset of received fragments as a set\<close>

definition marked_set :: "fragment \<Rightarrow> u8 set" where
  "marked_set f = {fid. bit (fr_marked f ! unat (drop_bit 6 fid)) (unat (fid AND 63))}"

definition fragment_wf :: "fragment \<Rightarrow> bool" where
  "fragment_wf f \<longleftrightarrow> length (fr_marked f) = 4"

lemma zero_Fragment_wf [simp]: "fragment_wf zero_Fragment"
  by (simp add: fragment_wf_def zero_Fragment_def)

lemma drop_bit_6_less: "unat (drop_bit 6 (fid :: u8)) < 4"
proof -
  have "unat (drop_bit 6 fid) = unat fid div 64"
    by (simp add: drop_bit_eq_div unat_div)
  also have "\<dots> < 4" using unat_u8_less [of fid] by arith
  finally show ?thesis .
qed

lemma and_63_less: "unat (fid AND 63 :: u8) < 64"
proof -
  have "fid AND 63 = take_bit 6 fid" by (simp add: take_bit_eq_mask mask_eq_exp_minus_1)
  then have "unat (fid AND 63) = unat fid mod 64" by (simp add: take_bit_eq_mod unat_mod)
  then show ?thesis by simp
qed

lemma u8_split: "(drop_bit 6 a = drop_bit 6 b \<and> a AND 63 = b AND 63) \<longleftrightarrow> a = (b :: u8)"
proof
  assume h: "drop_bit 6 a = drop_bit 6 b \<and> a AND 63 = b AND 63"
  have "push_bit 6 (drop_bit 6 x) OR (x AND 63) = x" for x :: u8
  proof -
    have "x AND 63 = take_bit 6 x" by (simp add: take_bit_eq_mask mask_eq_exp_minus_1)
    then show ?thesis by (simp only:) (rule bit_word_eqI, auto simp: bit_simps)
  qed
  with h show "a = b" by metis
qed simp

lemma marked_set_zero [simp]: "marked_set zero_Fragment = {}"
proof -
  have "[0, 0, 0, 0 :: u64] ! n = 0" if "n < 4" for n
    using that by (auto simp: less_Suc_eq numeral_eq_Suc)
  then show ?thesis by (simp add: marked_set_def zero_Fragment_def drop_bit_6_less)
qed

text \<open>\<open>MarkReceived\<close> inserts into the set, or reports the duplicate.\<close>

lemma MarkReceived_cases:
  assumes "fragment_wf f"
  obtains (dup) "fid \<in> marked_set f" "MarkReceived f fid = Some (Inl (ErrAlreadyReceived fid))"
  | (new) f' where "fid \<notin> marked_set f" "MarkReceived f fid = Some (Inr f')"
      "marked_set f' = insert fid (marked_set f)" "fragment_wf f'"
      "f' = f\<lparr>fr_marked := fr_marked f'\<rparr>"
proof -
  let ?i = "unat (drop_bit 6 fid)" and ?p = "unat (fid AND 63)"
  have i: "?i < length (fr_marked f)" using assms drop_bit_6_less by (simp add: fragment_wf_def)
  have p: "?p < 64" by (rule and_63_less)
  have test: "fr_marked f ! ?i AND push_bit ?p 1 \<noteq> 0 \<longleftrightarrow> fid \<in> marked_set f"
    by (simp add: marked_set_def push_bit_of_1 and_exp_eq_0_iff_not_bit)
  show ?thesis
  proof (cases "fid \<in> marked_set f")
    case True
    with i test show ?thesis by (intro dup) (simp_all add: MarkReceived_def)
  next
    case False
    let ?f' = "f\<lparr>fr_marked := (fr_marked f) [?i := fr_marked f ! ?i OR push_bit ?p 1]\<rparr>"
    have "x \<in> marked_set ?f' \<longleftrightarrow> x = fid \<or> x \<in> marked_set f" for x
    proof (cases "unat (drop_bit 6 x) = ?i")
      case True
      then have dx: "drop_bit 6 x = drop_bit 6 fid" by (simp only: word_unat_eq_iff)
      have "x \<in> marked_set ?f' \<longleftrightarrow> x \<in> marked_set f \<or> unat (x AND 63) = ?p"
        using i p True by (auto simp: marked_set_def push_bit_of_1 bit_simps)
      also have "unat (x AND 63) = ?p \<longleftrightarrow> x = fid"
        using u8_split [of x fid] dx by (metis word_unat_eq_iff)
      finally show ?thesis by blast
    next
      case False
      then show ?thesis by (auto simp: marked_set_def)
    qed
    then have "marked_set ?f' = insert fid (marked_set f)" by blast
    moreover have "MarkReceived f fid = Some (Inr ?f')"
      using i test False by (simp add: MarkReceived_def Let_def)
    ultimately show ?thesis using False assms
      by (intro new [of ?f']) (simp_all add: fragment_wf_def)
  qed
qed

end
