(* ===== verification/Float64.thy ===== *)
theory Float64
  imports Complex_Main Prelude
begin

text \<open>
  Go's \<open>float64\<close>: IEEE 754 binary64 with round-to-nearest, ties to even. A finite value is
  the rational it denotes; the operations compute exactly and round once, overflow gives an
  infinity, and a NaN compares false with everything. The sign of zero is not kept: only a
  division by zero could tell \<open>-0\<close> from \<open>+0\<close>, and the code divides only by converted
  counts and by differences \<open>x - y\<close>, which are \<open>+0\<close> when the operands are equal.
\<close>

section \<open>Values and rounding\<close>

datatype float64 = Finite rat | PosInf | NegInf | NaN

function bit_count :: "int \<Rightarrow> int" where
  "bit_count n = (if n \<le> 0 then 0 else 1 + bit_count (n div 2))"
  by pat_completeness auto
termination
  by (relation "measure nat") auto

declare bit_count.simps [simp del]

definition pow2 :: "int \<Rightarrow> rat" where
  "pow2 e = (if 0 \<le> e then 2 ^ nat e else 1 / 2 ^ nat (- e))"

text \<open>\<open>\<lfloor>log2 x\<rfloor>\<close> of a positive rational.\<close>

definition ilog2 :: "rat \<Rightarrow> int" where
  "ilog2 x = (let (a, b) = quotient_of x; k = bit_count a - bit_count b
              in if pow2 k \<le> x then k else k - 1)"

definition round_half_even :: "rat \<Rightarrow> int" where
  "round_half_even y = (let f = floor y; r = y - of_int f
     in if r < 1 / 2 then f else if r > 1 / 2 then f + 1 else if even f then f else f + 1)"

text \<open>
  \<open>e\<close> is the exponent, \<open>ulp\<close> the weight of the last bit (at least \<open>2 ^ -1074\<close>, for the
  subnormals) and \<open>m\<close> the rounded significand; \<open>m = 2 ^ 53\<close> carries into the exponent.
\<close>

definition round64 :: "rat \<Rightarrow> float64" where
  "round64 x = (if x = 0 then Finite 0 else
     let e = ilog2 (abs x);
         ulp = pow2 (max (e - 52) (- 1074));
         m = round_half_even (abs x / ulp)
     in if e > 1023 \<or> (e = 1023 \<and> m \<ge> 2 ^ 53) then (if x > 0 then PosInf else NegInf)
        else Finite (if x > 0 then of_int m * ulp else - (of_int m * ulp)))"

definition max_float64 :: rat where
  "max_float64 = (2 ^ 53 - 1) * 2 ^ 971"

section \<open>Operations\<close>

text \<open>\<open>float64(i)\<close> for an integer, and a decimal constant.\<close>

definition f64_of_int :: "int \<Rightarrow> float64" where
  "f64_of_int i = round64 (of_int i)"

fun fneg :: "float64 \<Rightarrow> float64" where
  "fneg (Finite a) = Finite (- a)"
| "fneg PosInf = NegInf"
| "fneg NegInf = PosInf"
| "fneg NaN = NaN"

fun fadd :: "float64 \<Rightarrow> float64 \<Rightarrow> float64" where
  "fadd (Finite a) (Finite b) = round64 (a + b)"
| "fadd NaN _ = NaN"
| "fadd _ NaN = NaN"
| "fadd PosInf NegInf = NaN"
| "fadd NegInf PosInf = NaN"
| "fadd PosInf _ = PosInf"
| "fadd _ PosInf = PosInf"
| "fadd NegInf _ = NegInf"
| "fadd _ NegInf = NegInf"

definition fsub :: "float64 \<Rightarrow> float64 \<Rightarrow> float64" where
  "fsub x y = fadd x (fneg y)"

text \<open>An infinity with the sign of the product of two signs; \<open>0\<close> times infinity is a NaN.\<close>

definition inf_of_sign :: "rat \<Rightarrow> float64" where
  "inf_of_sign s = (if s > 0 then PosInf else if s < 0 then NegInf else NaN)"

fun fsign :: "float64 \<Rightarrow> rat" where
  "fsign (Finite a) = sgn a"
| "fsign PosInf = 1"
| "fsign NegInf = - 1"
| "fsign NaN = 0"

fun fmul :: "float64 \<Rightarrow> float64 \<Rightarrow> float64" where
  "fmul (Finite a) (Finite b) = round64 (a * b)"
| "fmul NaN _ = NaN"
| "fmul _ NaN = NaN"
| "fmul x y = inf_of_sign (fsign x * fsign y)"

fun fdiv :: "float64 \<Rightarrow> float64 \<Rightarrow> float64" where
  "fdiv (Finite a) (Finite b) = (if b = 0 then inf_of_sign (sgn a) else round64 (a / b))"
| "fdiv NaN _ = NaN"
| "fdiv _ NaN = NaN"
| "fdiv (Finite a) _ = Finite 0"
| "fdiv x (Finite b) = (if b < 0 then fneg x else x)"
| "fdiv _ _ = NaN"

fun fabs :: "float64 \<Rightarrow> float64" where
  "fabs (Finite a) = Finite (abs a)"
| "fabs NaN = NaN"
| "fabs _ = PosInf"

text \<open>\<open><\<close>, \<open>>=\<close> and \<open>==\<close>; \<open>!=\<close> is the negation of \<open>==\<close>, the others are not complementary.\<close>

fun flt :: "float64 \<Rightarrow> float64 \<Rightarrow> bool" where
  "flt (Finite a) (Finite b) = (a < b)"
| "flt NaN _ = False"
| "flt _ NaN = False"
| "flt PosInf _ = False"
| "flt _ NegInf = False"
| "flt _ _ = True"

fun feq :: "float64 \<Rightarrow> float64 \<Rightarrow> bool" where
  "feq NaN _ = False"
| "feq _ NaN = False"
| "feq x y = (x = y)"

definition fge :: "float64 \<Rightarrow> float64 \<Rightarrow> bool" where
  "fge x y \<longleftrightarrow> flt y x \<or> feq x y"

text \<open>\<open>math.MaxFloat64\<close>.\<close>

definition MaxFloat64 :: float64 where
  "MaxFloat64 = Finite max_float64"

section \<open>Lemmas\<close>

lemma round64_0 [simp]: "round64 0 = Finite 0"
  by (simp add: round64_def)

lemma max_float64_pos [simp]: "0 \<le> max_float64"
  by (simp add: max_float64_def)

text \<open>
  \<open>|x - x|\<close> is never above a non-negative bound: it is zero, or a NaN when \<open>x\<close> is not finite.
\<close>

lemma fsub_self: "fsub x x = (case x of Finite _ \<Rightarrow> Finite 0 | _ \<Rightarrow> NaN)"
  by (cases x) (simp_all add: fsub_def)

lemma flt_abs_self [simp]: "0 \<le> a \<Longrightarrow> \<not> flt (Finite a) (fabs (fsub x x))"
  by (simp add: fsub_self split: float64.split)

lemma flt_irrefl [simp]: "\<not> flt x x"
  by (cases x) simp_all

lemma flt_trans: "flt x y \<Longrightarrow> flt y z \<Longrightarrow> flt x z"
  by (cases x; cases y; cases z) simp_all

lemma flt_asym: "flt x y \<Longrightarrow> \<not> flt y x"
  using flt_trans flt_irrefl by blast

end
