(* ===== verification/Buffers.thy ===== *)
theory Buffers
  imports RingBuffer FragmentCodec Float64
begin

text \<open>
  The packet records (\<open>packet.go\<close>) and the four sequence-indexed buffers built on the ring:
  packets waiting to be acknowledged by the channel, packets the endpoint sent, packets it
  received, and fragmented packets under reassembly. The interface the endpoint and the
  channel rely on is the locale \<open>sequence_window\<close>, interpreted on all four.
\<close>

section \<open>Packet records\<close>

record buffered_packet =
  bp_time :: float64
  bp_written :: bool
  bp_buf :: "byte_buffer option"

record sent_packet =
  sp_time :: float64
  sp_acked :: bool
  sp_size :: nat

record recv_packet =
  rp_time :: float64
  rp_size :: nat

definition zero_BufferedPacket :: buffered_packet where
  "zero_BufferedPacket = \<lparr>bp_time = Finite 0, bp_written = False, bp_buf = None\<rparr>"

definition zero_SentPacket :: sent_packet where
  "zero_SentPacket = \<lparr>sp_time = Finite 0, sp_acked = False, sp_size = 0\<rparr>"

definition zero_RecvPacket :: recv_packet where
  "zero_RecvPacket = \<lparr>rp_time = Finite 0, rp_size = 0\<rparr>"

definition BufferedPacket_Reset :: "buffered_packet \<Rightarrow> buffered_packet" where
  "BufferedPacket_Reset p = zero_BufferedPacket"

definition SentPacket_Reset :: "sent_packet \<Rightarrow> sent_packet" where
  "SentPacket_Reset p = zero_SentPacket"

definition RecvPacket_Reset :: "recv_packet \<Rightarrow> recv_packet" where
  "RecvPacket_Reset p = zero_RecvPacket"

section \<open>The four buffers\<close>

type_synonym packet_buffer = "buffered_packet ring"
type_synonym sent_packet_buffer = "sent_packet ring"
type_synonym recv_packet_buffer = "recv_packet ring"
type_synonym fragment_reassembly_buffer = "fragment ring"

named_theorems buffer_defs "the typed buffer operations, in terms of the ring"

definition NewPacketBuffer :: "u16 \<Rightarrow> packet_buffer option" where
  [buffer_defs]: "NewPacketBuffer = ring_New zero_BufferedPacket"

definition PacketBuffer_IsOutdated :: "packet_buffer \<Rightarrow> u16 \<Rightarrow> bool" where
  [buffer_defs]: "PacketBuffer_IsOutdated = ring_IsOutdated"

definition PacketBuffer_Insert :: "packet_buffer \<Rightarrow> u16 \<Rightarrow> (packet_buffer \<times> nat option) option" where
  [buffer_defs]: "PacketBuffer_Insert = ring_Insert"

definition PacketBuffer_Remove :: "packet_buffer \<Rightarrow> u16 \<Rightarrow> packet_buffer option" where
  [buffer_defs]: "PacketBuffer_Remove = ring_Remove"

definition PacketBuffer_Find :: "packet_buffer \<Rightarrow> u16 \<Rightarrow> nat option option" where
  [buffer_defs]: "PacketBuffer_Find = ring_Find"

definition NewSentPacketBuffer :: "u16 \<Rightarrow> sent_packet_buffer option" where
  [buffer_defs]: "NewSentPacketBuffer = ring_New zero_SentPacket"

definition SentPacketBuffer_Insert ::
  "sent_packet_buffer \<Rightarrow> u16 \<Rightarrow> (sent_packet_buffer \<times> nat option) option" where
  [buffer_defs]: "SentPacketBuffer_Insert = ring_Insert"

definition SentPacketBuffer_Find :: "sent_packet_buffer \<Rightarrow> u16 \<Rightarrow> nat option option" where
  [buffer_defs]: "SentPacketBuffer_Find = ring_Find"

definition SentPacketBuffer_IsOutdated :: "sent_packet_buffer \<Rightarrow> u16 \<Rightarrow> bool" where
  [buffer_defs]: "SentPacketBuffer_IsOutdated = ring_IsOutdated"

definition NewRecvPacketBuffer :: "u16 \<Rightarrow> recv_packet_buffer option" where
  [buffer_defs]: "NewRecvPacketBuffer = ring_New zero_RecvPacket"

definition RecvPacketBuffer_Insert ::
  "recv_packet_buffer \<Rightarrow> u16 \<Rightarrow> (recv_packet_buffer \<times> nat option) option" where
  [buffer_defs]: "RecvPacketBuffer_Insert = ring_Insert"

definition RecvPacketBuffer_Find :: "recv_packet_buffer \<Rightarrow> u16 \<Rightarrow> nat option option" where
  [buffer_defs]: "RecvPacketBuffer_Find = ring_Find"

definition RecvPacketBuffer_IsOutdated :: "recv_packet_buffer \<Rightarrow> u16 \<Rightarrow> bool" where
  [buffer_defs]: "RecvPacketBuffer_IsOutdated = ring_IsOutdated"

definition NewFragmentReassemblyBuffer :: "u16 \<Rightarrow> fragment_reassembly_buffer option" where
  [buffer_defs]: "NewFragmentReassemblyBuffer = ring_New zero_Fragment"

definition FragmentReassemblyBuffer_Insert ::
  "fragment_reassembly_buffer \<Rightarrow> u16 \<Rightarrow> (fragment_reassembly_buffer \<times> nat option) option" where
  [buffer_defs]: "FragmentReassemblyBuffer_Insert = ring_Insert"

definition FragmentReassemblyBuffer_Remove ::
  "fragment_reassembly_buffer \<Rightarrow> u16 \<Rightarrow> fragment_reassembly_buffer option" where
  [buffer_defs]: "FragmentReassemblyBuffer_Remove = ring_Remove"

definition FragmentReassemblyBuffer_IsOutdated :: "fragment_reassembly_buffer \<Rightarrow> u16 \<Rightarrow> bool" where
  [buffer_defs]: "FragmentReassemblyBuffer_IsOutdated = ring_IsOutdated"

definition FragmentReassemblyBuffer_Find ::
  "fragment_reassembly_buffer \<Rightarrow> u16 \<Rightarrow> nat option option" where
  [buffer_defs]: "FragmentReassemblyBuffer_Find = ring_Find"

definition FragmentReassemblyBuffer_Entry ::
  "fragment_reassembly_buffer \<Rightarrow> nat \<Rightarrow> nat option option" where
  "FragmentReassemblyBuffer_Entry s i = do {
     v \<leftarrow> slice_get (seq_entries (ring_buf s)) i;
     if v \<noteq> EmptySequenceBufferEntry
     then do { _ \<leftarrow> slice_get (ring_entries s) i; Some (Some i) }
     else Some None }"

text \<open>
  \<open>RecvPacketBuffer.NextACK\<close>: the newest received number and a bitset of the 32 numbers
  that end with it. The loop runs over \<open>i\<close> from 0 to 31 with the mask \<open>1 << i\<close>.
\<close>

fun NextACK_loop :: "recv_packet_buffer \<Rightarrow> u16 \<Rightarrow> nat list \<Rightarrow> u32 \<Rightarrow> u32 option" where
  "NextACK_loop s ack [] acks = Some acks"
| "NextACK_loop s ack (i # is) acks = do {
     let seq = ack - of_nat i;
     j \<leftarrow> word_rem seq (ring_cap s);
     v \<leftarrow> slice_get (seq_entries (ring_buf s)) (unat j);
     if v \<noteq> u32_of_u16 seq then NextACK_loop s ack is acks
     else NextACK_loop s ack is (acks OR push_bit i 1) }"

definition NextACK :: "recv_packet_buffer \<Rightarrow> (u16 \<times> u32) option" where
  "NextACK s = do {
     let ack = latest (ring_buf s) - 1;
     acks \<leftarrow> NextACK_loop s ack [0..<32] 0;
     Some (ack, acks) }"

section \<open>The interface of a sequence-indexed buffer\<close>

locale sequence_window =
  fixes wf :: "'s \<Rightarrow> bool"
    and outdated :: "'s \<Rightarrow> u16 \<Rightarrow> bool"
    and ins :: "'s \<Rightarrow> u16 \<Rightarrow> ('s \<times> nat option) option"
    and find :: "'s \<Rightarrow> u16 \<Rightarrow> nat option option"
    and newest :: "'s \<Rightarrow> u16"
  assumes ins_total: "wf s \<Longrightarrow> \<exists>s' p. ins s q = Some (s', p) \<and> wf s'"
    and ins_nil: "wf s \<Longrightarrow> ins s q = Some (s', p) \<Longrightarrow> p = None \<longleftrightarrow> outdated s q"
    and ins_nil_frame: "wf s \<Longrightarrow> ins s q = Some (s', None) \<Longrightarrow> s' = s"
    and find_total: "wf s \<Longrightarrow> \<exists>p. find s q = Some p"
    and find_ins: "wf s \<Longrightarrow> ins s q = Some (s', Some i) \<Longrightarrow> find s' q = Some (Some i)"
    and newest_current: "wf s \<Longrightarrow> \<not> outdated s (newest s)"
    and newest_ins: "wf s \<Longrightarrow> ins s q = Some (s', Some i) \<Longrightarrow>
      newest s' = (if seqGreaterThan (q + 1) (newest s) then q + 1 else newest s)"
    and find_in_order: "wf s \<Longrightarrow> ins s (newest s) = Some (s', Some i) \<Longrightarrow> q \<noteq> newest s \<Longrightarrow>
      find s' q = (if find s q = Some (Some i) then Some None else find s q)"
begin

lemma ins_wf: "wf s \<Longrightarrow> ins s q = Some (s', p) \<Longrightarrow> wf s'"
  by (metis ins_total option.inject prod.inject)

text \<open>\<open>newest\<close> never moves backwards.\<close>

lemma newest_mono:
  "wf s \<Longrightarrow> ins s q = Some (s', p) \<Longrightarrow>
   newest s' = newest s \<or> seqGreaterThan (newest s') (newest s)"
  by (cases p) (use ins_nil_frame in blast, metis newest_ins)

text \<open>The owner of the numbers inserts \<open>newest\<close>: it always gets an entry and advances by one.\<close>

lemma ins_newest:
  assumes "wf s"
  obtains s' i where "ins s (newest s) = Some (s', Some i)" "wf s'" "newest s' = newest s + 1"
    "find s' (newest s) = Some (Some i)"
proof -
  obtain s' p where s': "ins s (newest s) = Some (s', p)" "wf s'"
    using assms ins_total by blast
  then obtain i where "p = Some i"
    using assms ins_nil newest_current by blast
  with s' assms show ?thesis by (intro that) (auto dest: newest_ins find_ins)
qed

end

text \<open>Every ring is a window.\<close>

lemma ring_window:
  "sequence_window (ring_wf :: 'e ring \<Rightarrow> bool) ring_IsOutdated ring_Insert ring_Find
     (\<lambda>r. latest (ring_buf r))"
proof
  fix r r' :: "'e ring" and q p i
  assume wf: "ring_wf r"
  show "\<exists>s' p. ring_Insert r q = Some (s', p) \<and> ring_wf s'"
    using wf wf by (cases rule: ring_Insert_cases [of r q]) (auto intro: wf_intros)
  show "\<exists>p. ring_Find r q = Some p"
    using wf by (simp add: ring_Find_eq)
  show "\<not> ring_IsOutdated r (latest (ring_buf r))"
    using wf by (rule not_outdated_latest)
  show "p = None \<longleftrightarrow> ring_IsOutdated r q" if "ring_Insert r q = Some (r', p)"
    using wf wf that by (cases rule: ring_Insert_cases [of r q]) auto
  show "r' = r" if "ring_Insert r q = Some (r', None)"
    using wf wf that by (cases rule: ring_Insert_cases [of r q]) auto
  show "ring_Find r' q = Some (Some i)" if "ring_Insert r q = Some (r', Some i)"
    using wf wf that by (cases rule: ring_Insert_cases [of r q])
      (auto simp: ring_Find_eq ring_wf_inserted stored_inserted)
  show "latest (ring_buf r') =
      (if seqGreaterThan (q + 1) (latest (ring_buf r)) then q + 1 else latest (ring_buf r))"
    if "ring_Insert r q = Some (r', Some i)"
    using wf wf that by (cases rule: ring_Insert_cases [of r q]) (auto simp: latest_inserted advanced_def)
  show "ring_Find r' q = (if ring_Find r q = Some (Some i) then Some None else ring_Find r q)"
    if "ring_Insert r (latest (ring_buf r)) = Some (r', Some i)" and "q \<noteq> latest (ring_buf r)"
    using wf wf that by (cases rule: ring_Insert_cases [of r "latest (ring_buf r)"])
      (auto simp: ring_Find_eq ring_wf_inserted stored_inserted)
qed

interpretation window: sequence_window
  "ring_wf :: packet_buffer \<Rightarrow> bool" PacketBuffer_IsOutdated PacketBuffer_Insert PacketBuffer_Find
  "\<lambda>r. latest (ring_buf r)"
  unfolding buffer_defs by (rule ring_window)

interpretation sent: sequence_window
  "ring_wf :: sent_packet_buffer \<Rightarrow> bool" SentPacketBuffer_IsOutdated SentPacketBuffer_Insert
  SentPacketBuffer_Find "\<lambda>r. latest (ring_buf r)"
  unfolding buffer_defs by (rule ring_window)

interpretation recv: sequence_window
  "ring_wf :: recv_packet_buffer \<Rightarrow> bool" RecvPacketBuffer_IsOutdated RecvPacketBuffer_Insert
  RecvPacketBuffer_Find "\<lambda>r. latest (ring_buf r)"
  unfolding buffer_defs by (rule ring_window)

interpretation assembler: sequence_window
  "ring_wf :: fragment_reassembly_buffer \<Rightarrow> bool" FragmentReassemblyBuffer_IsOutdated
  FragmentReassemblyBuffer_Insert FragmentReassemblyBuffer_Find "\<lambda>r. latest (ring_buf r)"
  unfolding buffer_defs by (rule ring_window)

section \<open>NextACK\<close>

lemma NextACK_loop_eq:
  assumes wf: "ring_wf s"
  shows "\<exists>acks'. NextACK_loop s ack is acks = Some acks' \<and>
    (\<forall>n. bit acks' n \<longleftrightarrow> bit acks n \<or> (n \<in> set is \<and> n < 32 \<and> stored s (ack - of_nat n)))"
proof (induction "is" arbitrary: acks)
  case Nil
  then show ?case by simp
next
  case (Cons i "is")
  let ?seq = "ack - of_nat i"
  have step: "NextACK_loop s ack (i # is) acks =
      NextACK_loop s ack is (if stored s ?seq then acks OR push_bit i 1 else acks)"
    using wf slot_less [OF wf, of ?seq] ring_wfD(3) [OF wf]
    by (simp add: ring_cap_nz unat_slot stored_def Let_def)
  obtain acks' where "NextACK_loop s ack is (if stored s ?seq then acks OR push_bit i 1 else acks) =
      Some acks'"
    "\<forall>n. bit acks' n \<longleftrightarrow> bit (if stored s ?seq then acks OR push_bit i 1 else acks) n \<or>
      (n \<in> set is \<and> n < 32 \<and> stored s (ack - of_nat n))"
    using Cons.IH by blast
  then show ?case unfolding step by (auto simp: bit_simps)
qed

lemma NextACK_eq:
  assumes "ring_wf s"
  obtains acks where "NextACK s = Some (latest (ring_buf s) - 1, acks)"
    "\<And>n. bit acks n \<longleftrightarrow> n < 32 \<and> stored s (latest (ring_buf s) - 1 - of_nat n)"
proof -
  obtain acks where "NextACK_loop s (latest (ring_buf s) - 1) [0..<32] 0 = Some acks"
    "\<forall>n. bit acks n \<longleftrightarrow> bit (0 :: u32) n \<or>
      (n \<in> set [0..<32] \<and> n < 32 \<and> stored s (latest (ring_buf s) - 1 - of_nat n))"
    using NextACK_loop_eq [OF assms] by blast
  then show ?thesis by (intro that [of acks]) (auto simp: NextACK_def Let_def)
qed

end
