(* ===== verification/Endpoint.thy ===== *)
theory Endpoint
  imports Buffers
begin

text \<open>
  The endpoint (\<open>endpoint.go\<close>, \<open>config.go\<close>): sending with fragmentation, receiving with
  reassembly, acknowledgements, round-trip time and statistics.

  The dispatcher of the source is an interface whose implementation may hold the endpoint
  itself (the channel does, and calls \<open>WritePacket\<close> from its \<open>ACK\<close>). So the endpoint's
  record carries the dispatcher's state \<open>ep_disp\<close>, of any type, and a callback maps the whole
  endpoint to the endpoint it leaves behind; a pointer into one of the endpoint's buffers is
  an index and is read again after a callback. Go's returned \<open>error\<close> is an option of the
  result.
\<close>

section \<open>Configuration and state\<close>

record config =
  FragmentAbove :: nat
  FragmentSize :: nat
  MaxFragments :: nat
  MaxPacketSize :: nat
  PacketHeaderSize :: nat
  SentPacketBufferSize :: nat
  RecvPacketBufferSize :: nat
  FragmentReassemblyBufferSize :: nat
  RTTSmoothingFactor :: float64
  PacketLossSmoothingFactor :: float64
  BandwidthSmoothingFactor :: float64

definition NewConfig :: config where
  "NewConfig = \<lparr>FragmentAbove = 1024, FragmentSize = 1024, MaxFragments = 16,
     MaxPacketSize = 16 * 1024, PacketHeaderSize = 20, SentPacketBufferSize = 256,
     RecvPacketBufferSize = 256, FragmentReassemblyBufferSize = 256,
     RTTSmoothingFactor = round64 (25 / 10000), PacketLossSmoothingFactor = round64 (1 / 10),
     BandwidthSmoothingFactor = round64 (1 / 10)\<rparr>"

record 'd endpoint =
  ep_config :: config
  ep_disp :: 'd
  ep_seq :: u16
  ep_time :: float64
  ep_rtt :: float64
  ep_packetLoss :: float64
  ep_sentBandwidthKbps :: float64
  ep_receivedBandwidthKbps :: float64
  ep_ackedBandwidthKbps :: float64
  ep_sent :: sent_packet_buffer
  ep_recv :: recv_packet_buffer
  ep_assembler :: fragment_reassembly_buffer
  ep_pool :: nat

text \<open>The interface \<open>EndpointDispatcher\<close>.\<close>

record 'd dispatcher =
  Transmit :: "u16 \<Rightarrow> bytes \<Rightarrow> 'd endpoint \<Rightarrow> 'd endpoint option"
  Process :: "u16 \<Rightarrow> bytes \<Rightarrow> 'd endpoint \<Rightarrow> 'd endpoint option"
  ACK :: "u16 \<Rightarrow> 'd endpoint \<Rightarrow> 'd endpoint option"

definition NewEndpoint :: "'d \<Rightarrow> config option \<Rightarrow> 'd endpoint option" where
  "NewEndpoint disp config = do {
     let config = (case config of None \<Rightarrow> NewConfig | Some c \<Rightarrow> c);
     sent \<leftarrow> NewSentPacketBuffer (of_nat (SentPacketBufferSize config));
     recv \<leftarrow> NewRecvPacketBuffer (of_nat (RecvPacketBufferSize config));
     assembler \<leftarrow> NewFragmentReassemblyBuffer (of_nat (FragmentReassemblyBufferSize config));
     Some \<lparr>ep_config = config, ep_disp = disp, ep_seq = 0, ep_time = Finite 0, ep_rtt = Finite 0,
       ep_packetLoss = Finite 0, ep_sentBandwidthKbps = Finite 0,
       ep_receivedBandwidthKbps = Finite 0, ep_ackedBandwidthKbps = Finite 0, ep_sent = sent,
       ep_recv = recv, ep_assembler = assembler, ep_pool = 0\<rparr> }"

text \<open>\<open>e.pool.Get()\<close>: the number of the buffer.\<close>

definition pool_Get :: "'d endpoint \<Rightarrow> nat \<times> 'd endpoint" where
  "pool_Get e = (ep_pool e, e\<lparr>ep_pool := Suc (ep_pool e)\<rparr>)"

section \<open>Sending\<close>

text \<open>
  The loop over the fragments: \<open>n\<close> iterations are left, \<open>fid\<close> is the loop variable, \<open>buf\<close>
  the data not yet sent. The scratch buffer starts empty in every iteration.
\<close>

fun write_fragments ::
  "lib \<Rightarrow> (u16 \<Rightarrow> bytes \<Rightarrow> 'd endpoint \<Rightarrow> 'd endpoint option) \<Rightarrow> u16 \<Rightarrow> packet_header \<Rightarrow>
   fragment_header \<Rightarrow> nat \<Rightarrow> nat \<Rightarrow> bytes \<Rightarrow> nat \<Rightarrow> 'd endpoint \<Rightarrow> ('d endpoint \<times> nat) option" where
  "write_fragments lib transmit seq header fh 0 fid buf written e = Some (e, written)"
| "write_fragments lib transmit seq header fh (Suc n) fid buf written e = do {
     let fh = fh\<lparr>fh_id := of_nat fid\<rparr>;
     let scratch = FragmentHeader_AppendTo lib fh [];
     let scratch = (if fid = 0 then PacketHeader_AppendTo lib header scratch else scratch);
     let cutoff = length buf;
     let cutoff = (if cutoff > FragmentSize (ep_config e) then FragmentSize (ep_config e) else cutoff);
     let scratch = scratch @ take cutoff buf;
     let buf = drop cutoff buf;
     e \<leftarrow> transmit seq scratch e;
     write_fragments lib transmit seq header fh n (fid + 1) buf (written + length scratch) e }"

text \<open>The branch for packets of at most \<open>FragmentAbove\<close> bytes: one datagram.\<close>

definition write_compact ::
  "lib \<Rightarrow> (u16 \<Rightarrow> bytes \<Rightarrow> 'd endpoint \<Rightarrow> 'd endpoint option) \<Rightarrow> u16 \<Rightarrow> packet_header \<Rightarrow>
   nat \<Rightarrow> bytes \<Rightarrow> 'd endpoint \<Rightarrow> ('d endpoint \<times> nat) option" where
  "write_compact lib transmit seq header k buf e = do {
     let n = MaxPacketHeaderSize + length buf;
     let scratch = take n (ExtendSlice lib k n);
     let h = PacketHeader_AppendTo lib header [];
     let scratch = copy_at scratch 0 h;
     let written = length h;
     let copied = copy_count scratch written buf;
     let scratch = copy_at scratch written buf;
     let written = written + copied;
     e \<leftarrow> transmit seq (take written scratch) e;
     Some (e, written) }"

definition WritePacket ::
  "lib \<Rightarrow> (u16 \<Rightarrow> bytes \<Rightarrow> 'd endpoint \<Rightarrow> 'd endpoint option) \<Rightarrow> bytes \<Rightarrow> 'd endpoint \<Rightarrow>
   ('d endpoint \<times> nat) option" where
  "WritePacket lib transmit buf e = (let seq = ep_seq e; size = length buf in
     if size > MaxPacketSize (ep_config e) then Some (e, 0)
     else do {
       let e = e\<lparr>ep_seq := ep_seq e + 1\<rparr>;
       (sent, packet) \<leftarrow> SentPacketBuffer_Insert (ep_sent e) seq;
       i \<leftarrow> packet;
       old \<leftarrow> ring_read sent i;
       let p = SentPacket_Reset old;
       let p = p\<lparr>sp_time := ep_time e, sp_size := PacketHeaderSize (ep_config e) + size\<rparr>;
       sent \<leftarrow> ring_write sent i p;
       let e = e\<lparr>ep_sent := sent\<rparr>;
       (ack, acks) \<leftarrow> NextACK (ep_recv e);
       let (k, e) = pool_Get e;
       let header = \<lparr>ph_seq = seq, ph_ack = ack, ph_acks = acks\<rparr>;
       if size \<le> FragmentAbove (ep_config e)
       then write_compact lib transmit seq header k buf e
       else if FragmentSize (ep_config e) = 0 then None
       else do {
         let total = size div FragmentSize (ep_config e);
         let total = (if size mod FragmentSize (ep_config e) \<noteq> 0 then total + 1 else total);
         let fh = \<lparr>fh_seq = ph_seq header, fh_id = 0, fh_total = of_nat (total - 1)\<rparr>;
         write_fragments lib transmit seq header fh total 0 buf 0 e } })"

section \<open>Receiving\<close>

text \<open>
  \<open>processACKs\<close>: the loop over the 32 bits of the bitset, \<open>n\<close> iterations left, and its body
  for a bit that is set. The entry is marked before the callback and its time is read through
  the pointer after it.
\<close>

definition smooth_rtt :: "config \<Rightarrow> float64 \<Rightarrow> float64 \<Rightarrow> float64" where
  "smooth_rtt c old rtt =
     (if (feq old (Finite 0) \<and> flt (Finite 0) rtt) \<or> flt (fabs (fsub old rtt)) (round64 (1 / 100000))
      then rtt else fadd old (fmul (fsub rtt old) (RTTSmoothingFactor c)))"

definition process_ack ::
  "(u16 \<Rightarrow> 'd endpoint \<Rightarrow> 'd endpoint option) \<Rightarrow> u16 \<Rightarrow> 'd endpoint \<Rightarrow> 'd endpoint option" where
  "process_ack ack_cb seq e = do {
     sent \<leftarrow> SentPacketBuffer_Find (ep_sent e) seq;
     case sent of None \<Rightarrow> Some e
     | Some i \<Rightarrow> do {
         p \<leftarrow> ring_read (ep_sent e) i;
         if sp_acked p then Some e
         else do {
           b \<leftarrow> ring_write (ep_sent e) i (p\<lparr>sp_acked := True\<rparr>);
           e \<leftarrow> ack_cb seq (e\<lparr>ep_sent := b\<rparr>);
           p \<leftarrow> ring_read (ep_sent e) i;
           let rtt = fmul (fsub (ep_time e) (sp_time p)) (Finite 1000);
           Some (e\<lparr>ep_rtt := smooth_rtt (ep_config e) (ep_rtt e) rtt\<rparr>) } } }"

fun processACKs_loop ::
  "(u16 \<Rightarrow> 'd endpoint \<Rightarrow> 'd endpoint option) \<Rightarrow> u16 \<Rightarrow> nat \<Rightarrow> nat \<Rightarrow> u32 \<Rightarrow> 'd endpoint \<Rightarrow>
   'd endpoint option" where
  "processACKs_loop ack_cb ack 0 i bitset e = Some e"
| "processACKs_loop ack_cb ack (Suc n) i bitset e =
     (if bitset AND 1 = 0 then processACKs_loop ack_cb ack n (i + 1) (drop_bit 1 bitset) e
      else do {
        e \<leftarrow> process_ack ack_cb (ack - of_nat i) e;
        processACKs_loop ack_cb ack n (i + 1) (drop_bit 1 bitset) e })"

definition processACKs ::
  "(u16 \<Rightarrow> 'd endpoint \<Rightarrow> 'd endpoint option) \<Rightarrow> u16 \<Rightarrow> u32 \<Rightarrow> 'd endpoint \<Rightarrow> 'd endpoint option" where
  "processACKs ack_cb ack bitset e = processACKs_loop ack_cb ack 32 0 bitset e"

definition recvCompactPacket ::
  "lib \<Rightarrow> 'd dispatcher \<Rightarrow> bytes \<Rightarrow> 'd endpoint \<Rightarrow> ('d endpoint \<times> go_error option) option" where
  "recvCompactPacket lib d buf e = do {
     r \<leftarrow> UnmarshalPacketHeader lib buf;
     case r of Inl err \<Rightarrow> Some (e, Some (Wrap ''failed to unmarshal packet header'' err))
     | Inr (header, buf) \<Rightarrow> do {
         (rb, recv) \<leftarrow> RecvPacketBuffer_Insert (ep_recv e) (ph_seq header);
         case recv of None \<Rightarrow> Some (e\<lparr>ep_recv := rb\<rparr>, Some (ErrStale (ph_seq header)))
         | Some i \<Rightarrow> do {
             e \<leftarrow> Process d (ph_seq header) buf (e\<lparr>ep_recv := rb\<rparr>);
             old \<leftarrow> ring_read (ep_recv e) i;
             let p = RecvPacket_Reset old;
             let p = p\<lparr>rp_time := ep_time e,
                       rp_size := PacketHeaderSize (ep_config e) + length buf\<rparr>;
             rb \<leftarrow> ring_write (ep_recv e) i p;
             e \<leftarrow> processACKs (ACK d) (ph_ack header) (ph_acks header) (e\<lparr>ep_recv := rb\<rparr>);
             Some (e, None) } } }"

text \<open>\<open>copy(b.B[lo:], src)\<close> and \<open>b.B[lo:hi]\<close>; a slice may extend up to the capacity.\<close>

definition bb_copy :: "byte_buffer \<Rightarrow> nat \<Rightarrow> bytes \<Rightarrow> byte_buffer option" where
  "bb_copy b lo src =
     (if lo \<le> bb_len b
      then Some (b\<lparr>bb_mem := copy_at (take (bb_len b) (bb_mem b)) lo src @ drop (bb_len b) (bb_mem b)\<rparr>)
      else None)"

definition bb_slice :: "byte_buffer \<Rightarrow> nat \<Rightarrow> nat \<Rightarrow> bytes option" where
  "bb_slice b lo hi =
     (if lo \<le> hi \<and> hi \<le> length (bb_mem b) then Some (drop lo (take hi (bb_mem b))) else None)"

text \<open>
  The start of \<open>recvFragmentedPacket\<close>: decoding and validating the fragment header, and for
  the first fragment the packet header behind it. The result is the fragment header, the
  bytes \<open>phb\<close> and the fragment's data. For the other fragments \<open>phb\<close> is the data itself,
  and is not used.
\<close>

definition decode_fragment ::
  "lib \<Rightarrow> config \<Rightarrow> bytes \<Rightarrow> (go_error + fragment_header \<times> bytes \<times> bytes) option" where
  "decode_fragment lib c buf = do {
     r \<leftarrow> UnmarshalFragmentHeader lib buf;
     case r of Inl err \<Rightarrow> Some (Inl (Wrap ''failed to decode fragment header'' err))
     | Inr (header, buf) \<Rightarrow>
       (case FragmentHeader_Validate header (MaxFragments c) of
          Some err \<Rightarrow> Some (Inl (Wrap ''got invalid fragment header'' err))
        | None \<Rightarrow>
          let phb = buf in
          if fh_id header = 0 then do {
            r \<leftarrow> UnmarshalPacketHeader lib buf;
            case r of
              Inl err \<Rightarrow> Some (Inl (Wrap ''failed to unmarshal packet header in fragment header'' err))
            | Inr (ph, buf) \<Rightarrow>
                if fh_seq header \<noteq> ph_seq ph
                then Some (Inl (ErrSeqMismatch (fh_seq header) (ph_seq ph)))
                else Some (Inr (header, take (length phb - length buf) phb, buf)) }
          else Some (Inr (header, phb, buf))) }"

text \<open>
  Finding the reassembly entry of a sequence number, or starting one. \<open>Inl\<close> is the error
  when the sequence number is outdated.
\<close>

definition assembly_entry ::
  "lib \<Rightarrow> fragment_header \<Rightarrow> 'd endpoint \<Rightarrow> ('d endpoint \<times> (go_error + nat)) option" where
  "assembly_entry lib header e = do {
     entry \<leftarrow> FragmentReassemblyBuffer_Find (ep_assembler e) (fh_seq header);
     case entry of Some i \<Rightarrow> Some (e, Inr i)
     | None \<Rightarrow> do {
         (ab, entry) \<leftarrow> FragmentReassemblyBuffer_Insert (ep_assembler e) (fh_seq header);
         case entry of
           None \<Rightarrow> Some (e\<lparr>ep_assembler := ab\<rparr>, Inl (ErrReassemblyInsert (fh_seq header)))
         | Some i \<Rightarrow> do {
             old \<leftarrow> ring_read ab i;
             let f = Fragment_Reset old;
             let f = f\<lparr>fr_total := unat (fh_total header) + 1\<rparr>;
             let (k, e) = pool_Get (e\<lparr>ep_assembler := ab\<rparr>);
             let n = MaxPacketHeaderSize + fr_total f * FragmentSize (ep_config e);
             let f = f\<lparr>fr_buf := Some \<lparr>bb_len = n, bb_mem = ExtendSlice lib k n\<rparr>\<rparr>;
             ab \<leftarrow> ring_write ab i f;
             Some (e\<lparr>ep_assembler := ab\<rparr>, Inr i) } } }"

text \<open>Storing a fragment's header bytes, size and data in its entry.\<close>

definition store_fragment ::
  "nat \<Rightarrow> fragment_header \<Rightarrow> bytes \<Rightarrow> bytes \<Rightarrow> fragment \<Rightarrow> fragment option" where
  "store_fragment fragmentSize header phb buf f = do {
     f \<leftarrow> (if fh_id header = 0 then do {
             b \<leftarrow> fr_buf f;
             if length phb > MaxPacketHeaderSize then None
             else do {
               let lo = MaxPacketHeaderSize - length phb;
               let n = copy_count (take (bb_len b) (bb_mem b)) lo phb;
               b \<leftarrow> bb_copy b lo phb;
               Some (f\<lparr>fr_buf := Some b, fr_headerSize := n\<rparr>) } }
           else Some f);
     let f = (if fh_id header = fh_total header
              then f\<lparr>fr_packetSize := unat (fh_total header) * fragmentSize + length buf\<rparr> else f);
     b \<leftarrow> fr_buf f;
     b \<leftarrow> bb_copy b (MaxPacketHeaderSize + unat (fh_id header) * fragmentSize) buf;
     Some (f\<lparr>fr_buf := Some b, fr_recv := fr_recv f + 1\<rparr>) }"

definition recvFragmentedPacket ::
  "lib \<Rightarrow> 'd dispatcher \<Rightarrow> bytes \<Rightarrow> 'd endpoint \<Rightarrow> ('d endpoint \<times> go_error option) option" where
  "recvFragmentedPacket lib d buf e = do {
     r \<leftarrow> decode_fragment lib (ep_config e) buf;
     case r of Inl err \<Rightarrow> Some (e, Some err)
     | Inr (header, phb, buf) \<Rightarrow> do {
         (e, entry) \<leftarrow> assembly_entry lib header e;
         case entry of Inl err \<Rightarrow> Some (e, Some err)
         | Inr i \<Rightarrow> do {
             f \<leftarrow> ring_read (ep_assembler e) i;
             if unat (fh_total header) + 1 \<noteq> fr_total f
             then Some (e, Some (ErrTotalMismatch (fr_total f) (unat (fh_total header) + 1)))
             else do {
               m \<leftarrow> MarkReceived f (fh_id header);
               case m of Inl err \<Rightarrow> Some (e, Some err)
               | Inr f \<Rightarrow> do {
                   f \<leftarrow> store_fragment (FragmentSize (ep_config e)) header phb buf f;
                   ab \<leftarrow> ring_write (ep_assembler e) i f;
                   let e = e\<lparr>ep_assembler := ab\<rparr>;
                   if fr_recv f = fr_total f then do {
                     b \<leftarrow> fr_buf f;
                     if fr_headerSize f > MaxPacketHeaderSize then None
                     else do {
                       packet \<leftarrow> bb_slice b (MaxPacketHeaderSize - fr_headerSize f)
                         (MaxPacketHeaderSize + fr_packetSize f);
                       (e, err) \<leftarrow> recvCompactPacket lib d packet e;
                       ab \<leftarrow> FragmentReassemblyBuffer_Remove (ep_assembler e) (fh_seq header);
                       Some (e\<lparr>ep_assembler := ab\<rparr>,
                         map_option (Wrap ''failed to recv reassembled packet'') err) } }
                   else Some (e, None) } } } } }"

definition ReadPacket ::
  "lib \<Rightarrow> 'd dispatcher \<Rightarrow> bytes \<Rightarrow> 'd endpoint \<Rightarrow> ('d endpoint \<times> go_error option) option" where
  "ReadPacket lib d buf e = do {
     flag \<leftarrow> slice_get buf 0;
     if Toggled flag FlagFragment then recvFragmentedPacket lib d buf e
     else recvCompactPacket lib d buf e }"

end
