(* ===== verification/Dispatch.thy ===== *)
theory Dispatch
  imports Endpoint
begin

text \<open>
  The invariant of an endpoint, and the contract between the endpoint and its dispatcher as
  two locales: \<open>transmitter\<close> for the callback of \<open>WritePacket\<close>, extended to \<open>dispatching\<close>
  for the callbacks of \<open>ReadPacket\<close>. Under the contract no operation of the endpoint
  panics and every one keeps the invariant. The mock dispatcher of \<open>endpoint_test.go\<close> is
  interpreted here, the channel in theory \<open>Channel\<close>.
\<close>

section \<open>The endpoint invariant\<close>

text \<open>
  A reassembly record in use: its buffer has room for every fragment, the counter is the
  number of identifiers marked, and the sizes stay within the buffer.
\<close>

definition frag_ok :: "nat \<Rightarrow> fragment \<Rightarrow> bool" where
  "frag_ok fs f \<longleftrightarrow> fragment_wf f \<and>
     0 < fr_total f \<and> fr_total f \<le> 256 \<and>
     fr_recv f = card (marked_set f) \<and> (\<forall>i \<in> marked_set f. unat i < fr_total f) \<and>
     fr_headerSize f \<le> MaxPacketHeaderSize \<and> fr_packetSize f \<le> fr_total f * fs \<and>
     (case fr_buf f of None \<Rightarrow> False
      | Some b \<Rightarrow> bb_len b = MaxPacketHeaderSize + fr_total f * fs \<and> bb_len b \<le> length (bb_mem b))"

definition assembler_ok :: "nat \<Rightarrow> fragment_reassembly_buffer \<Rightarrow> bool" where
  "assembler_ok fs a \<longleftrightarrow> ring_wf a \<and>
     (\<forall>s. stored a s \<longrightarrow> frag_ok fs (ring_entries a ! slot a s))"

definition ep_ok :: "'d endpoint \<Rightarrow> bool" where
  "ep_ok e \<longleftrightarrow> 0 < FragmentSize (ep_config e) \<and>
     ring_wf (ep_sent e) \<and> latest (ring_buf (ep_sent e)) = ep_seq e \<and>
     ring_wf (ep_recv e) \<and> assembler_ok (FragmentSize (ep_config e)) (ep_assembler e)"

text \<open>What sending may change: the sequence number, the sent buffer, the pool, the dispatcher.\<close>

definition writes :: "'d endpoint \<Rightarrow> 'd endpoint \<Rightarrow> bool" where
  "writes e e' \<longleftrightarrow>
     ep_config e' = ep_config e \<and> ep_time e' = ep_time e \<and> ep_rtt e' = ep_rtt e \<and>
     ep_packetLoss e' = ep_packetLoss e \<and> ep_sentBandwidthKbps e' = ep_sentBandwidthKbps e \<and>
     ep_receivedBandwidthKbps e' = ep_receivedBandwidthKbps e \<and>
     ep_ackedBandwidthKbps e' = ep_ackedBandwidthKbps e \<and>
     ep_recv e' = ep_recv e \<and> ep_assembler e' = ep_assembler e \<and>
     length (ring_entries (ep_sent e')) = length (ring_entries (ep_sent e))"

lemma writes_refl [simp]: "writes e e"
  by (simp add: writes_def)

lemma writes_trans: "writes e e' \<Longrightarrow> writes e' e'' \<Longrightarrow> writes e e''"
  by (simp add: writes_def)

lemma writes_disp_pool [simp]: "writes e (e\<lparr>ep_disp := x, ep_pool := k\<rparr>)"
  by (simp add: writes_def)

lemma ep_ok_disp_pool [simp]: "ep_ok (e\<lparr>ep_disp := x, ep_pool := k\<rparr>) = ep_ok e"
  by (simp add: ep_ok_def)

lemma ep_okD:
  assumes "ep_ok e"
  shows "0 < FragmentSize (ep_config e)" "ring_wf (ep_sent e)"
    "latest (ring_buf (ep_sent e)) = ep_seq e" "ring_wf (ep_recv e)" "ring_wf (ep_assembler e)"
    "assembler_ok (FragmentSize (ep_config e)) (ep_assembler e)"
  using assms by (simp_all add: ep_ok_def assembler_ok_def)

text \<open>
  A new endpoint satisfies the invariant. The sizes are truncated to 16 bits by the source;
  they must come out positive and below half of the circle of sequence numbers.
\<close>

definition config_ok :: "config \<Rightarrow> bool" where
  "config_ok c \<longleftrightarrow> 0 < FragmentSize c \<and>
     (\<forall>n \<in> set [SentPacketBufferSize c, RecvPacketBufferSize c, FragmentReassemblyBufferSize c].
        0 < n mod 65536 \<and> n mod 65536 < 32768)"

lemma NewConfig_ok: "config_ok NewConfig"
  by (simp add: config_ok_def NewConfig_def)

lemma unat_of_nat_mod_u16: "unat (of_nat n :: u16) = n mod 65536"
  by (simp add: unat_of_nat)

lemma ring_New_ok:
  assumes "0 < n mod 65536" and "n mod 65536 < 32768"
  obtains r where "ring_New z (of_nat n) = Some r" "ring_wf r" "latest (ring_buf r) = 0"
    "\<And>t. \<not> stored r t" "ring_entries r = replicate (n mod 65536) z"
proof -
  obtain r where r: "ring_New z (of_nat n) = Some r" by (simp add: ring_New_eq)
  then show ?thesis
    using assms ring_New_wf [OF r] stored_New [OF r]
    by (intro that [of r]) (auto simp: unat_of_nat_mod_u16 ring_New_eq)
qed

lemma NewEndpoint_ok:
  assumes "config_ok (case config of None \<Rightarrow> NewConfig | Some c \<Rightarrow> c)"
  obtains e where "NewEndpoint x config = Some e" "ep_ok e" "ep_disp e = x" "ep_seq e = 0"
    "ep_config e = (case config of None \<Rightarrow> NewConfig | Some c \<Rightarrow> c)"
    "latest (ring_buf (ep_recv e)) = 0" "\<And>t. \<not> stored (ep_recv e) t"
    "\<And>t. \<not> stored (ep_sent e) t" "\<And>t. \<not> stored (ep_assembler e) t"
    "latest (ring_buf (ep_assembler e)) = 0"
proof -
  define c where "c = (case config of None \<Rightarrow> NewConfig | Some c \<Rightarrow> c)"
  have c: "0 < FragmentSize c" "0 < SentPacketBufferSize c mod 65536"
    "SentPacketBufferSize c mod 65536 < 32768" "0 < RecvPacketBufferSize c mod 65536"
    "RecvPacketBufferSize c mod 65536 < 32768" "0 < FragmentReassemblyBufferSize c mod 65536"
    "FragmentReassemblyBufferSize c mod 65536 < 32768"
    using assms by (simp_all add: config_ok_def c_def)
  from ring_New_ok [OF c(2,3), of zero_SentPacket] obtain s where
    s: "NewSentPacketBuffer (of_nat (SentPacketBufferSize c)) = Some s" "ring_wf s"
      "latest (ring_buf s) = 0" "\<And>t. \<not> stored s t" by (metis NewSentPacketBuffer_def)
  from ring_New_ok [OF c(4,5), of zero_RecvPacket] obtain r where
    r: "NewRecvPacketBuffer (of_nat (RecvPacketBufferSize c)) = Some r" "ring_wf r"
      "latest (ring_buf r) = 0" "\<And>t. \<not> stored r t" by (metis NewRecvPacketBuffer_def)
  from ring_New_ok [OF c(6,7), of zero_Fragment] obtain a where
    a: "NewFragmentReassemblyBuffer (of_nat (FragmentReassemblyBufferSize c)) = Some a" "ring_wf a"
      "latest (ring_buf a) = 0" "\<And>t. \<not> stored a t" by (metis NewFragmentReassemblyBuffer_def)
  let ?e = "\<lparr>ep_config = c, ep_disp = x, ep_seq = 0, ep_time = Finite 0, ep_rtt = Finite 0,
       ep_packetLoss = Finite 0, ep_sentBandwidthKbps = Finite 0,
       ep_receivedBandwidthKbps = Finite 0, ep_ackedBandwidthKbps = Finite 0, ep_sent = s,
       ep_recv = r, ep_assembler = a, ep_pool = 0\<rparr>"
  have "NewEndpoint x config = Some ?e"
    using s(1) r(1) a(1) by (simp add: NewEndpoint_def Let_def flip: c_def)
  moreover have "ep_ok ?e" using c(1) s r a by (simp add: ep_ok_def assembler_ok_def)
  ultimately show ?thesis
    by (rule that) (simp_all add: s(4) r(3,4) a(3,4) flip: c_def)
qed

section \<open>The datagrams of a packet\<close>

text \<open>
  A reference description of \<open>WritePacket\<close>: the datagrams it transmits, as a list, and the
  endpoint's state when it starts to transmit them.
\<close>

fun fragments ::
  "lib \<Rightarrow> packet_header \<Rightarrow> fragment_header \<Rightarrow> nat \<Rightarrow> nat \<Rightarrow> nat \<Rightarrow> bytes \<Rightarrow> bytes list" where
  "fragments lib h fh fs 0 fid buf = []"
| "fragments lib h fh fs (Suc n) fid buf =
     (FragmentHeader_AppendTo lib (fh\<lparr>fh_id := of_nat fid\<rparr>) [] @
      (if fid = 0 then PacketHeader_AppendTo lib h [] else []) @ take fs buf) #
     fragments lib h fh fs n (fid + 1) (drop fs buf)"

definition fragment_count :: "nat \<Rightarrow> nat \<Rightarrow> nat" where
  "fragment_count fs sz = (if sz mod fs \<noteq> 0 then sz div fs + 1 else sz div fs)"

definition next_header :: "'d endpoint \<Rightarrow> packet_header" where
  "next_header e = (case NextACK (ep_recv e) of
     Some (ack, acks) \<Rightarrow> \<lparr>ph_seq = ep_seq e, ph_ack = ack, ph_acks = acks\<rparr>)"

definition packet_datagrams :: "lib \<Rightarrow> 'd endpoint \<Rightarrow> bytes \<Rightarrow> bytes list" where
  "packet_datagrams lib e buf = (let h = next_header e; fs = FragmentSize (ep_config e) in
     if length buf \<le> FragmentAbove (ep_config e) then [PacketHeader_AppendTo lib h [] @ buf]
     else let n = fragment_count fs (length buf) in
       fragments lib h \<lparr>fh_seq = ep_seq e, fh_id = 0, fh_total = of_nat (n - 1)\<rparr> fs n 0 buf)"

definition sent_record :: "'d endpoint \<Rightarrow> bytes \<Rightarrow> sent_packet" where
  "sent_record e buf = \<lparr>sp_time = ep_time e, sp_acked = False,
     sp_size = PacketHeaderSize (ep_config e) + length buf\<rparr>"

definition prepared :: "'d endpoint \<Rightarrow> bytes \<Rightarrow> 'd endpoint" where
  "prepared e buf = e\<lparr>ep_seq := ep_seq e + 1,
     ep_sent := (inserted (ep_sent e) (ep_seq e))
       \<lparr>ring_entries := (ring_entries (ep_sent e))
          [slot (ep_sent e) (ep_seq e) := sent_record e buf]\<rparr>,
     ep_pool := Suc (ep_pool e)\<rparr>"

fun transmit_all ::
  "(u16 \<Rightarrow> bytes \<Rightarrow> 'd endpoint \<Rightarrow> 'd endpoint option) \<Rightarrow> u16 \<Rightarrow> bytes list \<Rightarrow> 'd endpoint \<Rightarrow>
   'd endpoint option" where
  "transmit_all transmit seq [] e = Some e"
| "transmit_all transmit seq (b # bs) e = do {
     e \<leftarrow> transmit seq b e;
     transmit_all transmit seq bs e }"

lemma length_fragments [simp]: "length (fragments lib h fh fs n fid buf) = n"
  by (induction n arbitrary: fid buf) simp_all

lemma fragments_fh_id [simp]:
  "fragments lib h (fh\<lparr>fh_id := i\<rparr>) fs n fid buf = fragments lib h fh fs n fid buf"
  by (induction n arbitrary: fid buf) simp_all

lemma fragment_count_pos: "0 < sz \<Longrightarrow> 0 < fragment_count fs sz"
  using div_mult_mod_eq [of sz fs] by (cases "sz div fs = 0") (auto simp: fragment_count_def)

lemma packet_datagrams_nonempty: "packet_datagrams lib e buf \<noteq> []"
proof (cases "length buf \<le> FragmentAbove (ep_config e)")
  case False
  then have "0 < fragment_count (FragmentSize (ep_config e)) (length buf)"
    by (intro fragment_count_pos) auto
  with False show ?thesis
    unfolding packet_datagrams_def Let_def by (metis length_fragments less_irrefl list.size(3))
qed (simp add: packet_datagrams_def Let_def)

lemma prepared_simps [simp]:
  "ep_seq (prepared e buf) = ep_seq e + 1" "ep_disp (prepared e buf) = ep_disp e"
  "ep_config (prepared e buf) = ep_config e" "ep_recv (prepared e buf) = ep_recv e"
  "ep_assembler (prepared e buf) = ep_assembler e" "ep_time (prepared e buf) = ep_time e"
  by (simp_all add: prepared_def)

lemma writes_prepared: "writes e (prepared e buf)"
  by (simp add: writes_def prepared_def)

lemma ep_ok_prepared: "ep_ok e \<Longrightarrow> ep_ok (prepared e buf)"
  using ring_wf_inserted [of "ep_sent e" "ep_seq e"]
  by (auto simp: ep_ok_def prepared_def ring_wf_def latest_inserted advanced_def)

context library
begin

lemma write_compact_eq:
  "write_compact lib transmit seq h k buf e = do {
     let b = PacketHeader_AppendTo lib h [] @ buf;
     e \<leftarrow> transmit seq b e;
     Some (e, length b) }"
proof -
  let ?h = "PacketHeader_AppendTo lib h []"
  let ?n = "MaxPacketHeaderSize + length buf"
  let ?m = "take ?n (ExtendSlice lib k ?n)"
  have len: "length ?m = ?n" using extend_length [of ?n k] by simp
  have h: "length ?h \<le> MaxPacketHeaderSize" by (rule length_PacketHeader)
  have "copy_at ?m 0 ?h = ?h @ drop (length ?h) ?m" using h len by (intro copy_at_0) simp
  moreover have "copy_at (?h @ drop (length ?h) ?m) (length ?h) buf =
      ?h @ buf @ drop (length ?h + length buf) ?m"
    using h len by (simp add: copy_at_def drop_drop add.commute)
  moreover have "copy_count (?h @ drop (length ?h) ?m) (length ?h) buf = length buf"
    using h len by (simp add: copy_count_def)
  ultimately show ?thesis by (simp only: write_compact_def Let_def) simp
qed

end

section \<open>Sending under the contract\<close>

text \<open>
  \<open>inv d q\<close> is the dispatcher's own invariant when the endpoint's next number is \<open>q\<close>.
  \<open>Transmit\<close> is called for the number just taken, once per datagram: the first time the
  dispatcher still knows the old number.
\<close>

locale transmitter = library lib for lib :: lib +
  fixes transmit :: "u16 \<Rightarrow> bytes \<Rightarrow> 'd endpoint \<Rightarrow> 'd endpoint option"
    and inv :: "'d \<Rightarrow> u16 \<Rightarrow> bool"
  assumes transmit_ok:
    "inv (ep_disp e) (ep_seq e) \<or> inv (ep_disp e) (ep_seq e - 1) \<Longrightarrow>
     \<exists>x k. transmit (ep_seq e - 1) b e = Some (e\<lparr>ep_disp := x, ep_pool := k\<rparr>) \<and> inv x (ep_seq e)"
begin

lemma transmit_cases:
  assumes "inv (ep_disp e) (ep_seq e) \<or> inv (ep_disp e) (ep_seq e - 1)"
  obtains x k where "transmit (ep_seq e - 1) b e = Some (e\<lparr>ep_disp := x, ep_pool := k\<rparr>)"
    "inv x (ep_seq e)"
  using transmit_ok [OF assms] by blast

lemma transmit_all_ok:
  "inv (ep_disp e) (ep_seq e) \<or> (inv (ep_disp e) (ep_seq e - 1) \<and> bs \<noteq> []) \<Longrightarrow>
   \<exists>x k. transmit_all transmit (ep_seq e - 1) bs e = Some (e\<lparr>ep_disp := x, ep_pool := k\<rparr>) \<and>
     inv x (ep_seq e)"
proof (induction bs arbitrary: e)
  case Nil
  then show ?case by (intro exI [of _ "ep_disp e"] exI [of _ "ep_pool e"]) simp
next
  case (Cons b bs)
  then obtain x k where t: "transmit (ep_seq e - 1) b e = Some (e\<lparr>ep_disp := x, ep_pool := k\<rparr>)"
    and x: "inv x (ep_seq e)"
    using transmit_cases by blast
  let ?e = "e\<lparr>ep_disp := x, ep_pool := k\<rparr>"
  have "inv (ep_disp ?e) (ep_seq ?e)" using x by simp
  with Cons.IH [of ?e] t show ?case by fastforce
qed

text \<open>The loop over the fragments transmits exactly the list of fragments.\<close>

lemma write_fragments_eq:
  "inv (ep_disp e) (ep_seq e) \<or> inv (ep_disp e) (ep_seq e - 1) \<Longrightarrow>
   write_fragments lib transmit (ep_seq e - 1) h fh n fid buf written e =
     (let bs = fragments lib h fh (FragmentSize (ep_config e)) n fid buf in
      map_option (\<lambda>e'. (e', written + sum_list (map length bs)))
        (transmit_all transmit (ep_seq e - 1) bs e))"
proof (induction n arbitrary: fh fid buf written e)
  case 0
  show ?case by simp
next
  case (Suc n)
  let ?fs = "FragmentSize (ep_config e)"
  let ?b = "FragmentHeader_AppendTo lib (fh\<lparr>fh_id := of_nat fid\<rparr>) [] @
    (if fid = 0 then PacketHeader_AppendTo lib h [] else []) @ take ?fs buf"
  obtain x k where t: "transmit (ep_seq e - 1) ?b e = Some (e\<lparr>ep_disp := x, ep_pool := k\<rparr>)"
    and x: "inv x (ep_seq e)"
    using transmit_cases Suc.prems by blast
  let ?e = "e\<lparr>ep_disp := x, ep_pool := k\<rparr>"
  have cut: "take (if length buf > ?fs then ?fs else length buf) buf = take ?fs buf"
    "drop (if length buf > ?fs then ?fs else length buf) buf = drop ?fs buf" by simp_all
  have scratch: "(if fid = 0 then PacketHeader_AppendTo lib h
        (FragmentHeader_AppendTo lib (fh\<lparr>fh_id := of_nat fid\<rparr>) [])
      else FragmentHeader_AppendTo lib (fh\<lparr>fh_id := of_nat fid\<rparr>) []) @ take ?fs buf = ?b"
    by (cases "fid = 0")
      (simp_all add: header.encode_append [of h "FragmentHeader_AppendTo lib g []" for g])
  have "inv (ep_disp ?e) (ep_seq ?e) \<or> inv (ep_disp ?e) (ep_seq ?e - 1)" using x by simp
  note IH = Suc.IH [OF this]
  show ?case
    unfolding write_fragments.simps Let_def cut scratch
    using t IH [of "fh\<lparr>fh_id := of_nat fid\<rparr>" "fid + 1" "drop ?fs buf" "written + length ?b"]
    by (cases "fid = 0") (simp_all add: Let_def add.assoc)
qed

lemma NextACK_next_header:
  assumes "ep_ok e"
  shows "NextACK (ep_recv e) = Some (ph_ack (next_header e), ph_acks (next_header e))"
    "ph_seq (next_header e) = ep_seq e"
proof -
  obtain acks where "NextACK (ep_recv e) = Some (latest (ring_buf (ep_recv e)) - 1, acks)"
    using NextACK_eq [OF ep_okD(4) [OF assms]] by metis
  then show "NextACK (ep_recv e) = Some (ph_ack (next_header e), ph_acks (next_header e))"
    "ph_seq (next_header e) = ep_seq e"
    by (simp_all add: next_header_def)
qed

text \<open>\<open>WritePacket\<close> as preparation followed by the transmission of the packet's datagrams.\<close>

lemma WritePacket_eq:
  assumes ok: "ep_ok e" and inv: "inv (ep_disp e) (ep_seq e)"
    and size: "length buf \<le> MaxPacketSize (ep_config e)"
  shows "WritePacket lib transmit buf e = (let bs = packet_datagrams lib e buf in
     map_option (\<lambda>e'. (e', sum_list (map length bs)))
       (transmit_all transmit (ep_seq e) bs (prepared e buf)))"
proof -
  let ?s = "ep_seq e" and ?e1 = "prepared e buf" and ?h = "next_header e"
  note okD = ep_okD [OF ok] and na = NextACK_next_header [OF ok]
  have ins: "SentPacketBuffer_Insert (ep_sent e) ?s =
      Some (inserted (ep_sent e) ?s, Some (slot (ep_sent e) ?s))"
    using okD(2) not_outdated_latest [OF okD(2)] by (simp add: buffer_defs okD(3) ring_Insert_eq)
  have sl: "slot (ep_sent e) ?s < length (ring_entries (ep_sent e))" using okD(2) by simp
  have h: "\<lparr>ph_seq = ?s, ph_ack = ph_ack ?h, ph_acks = ph_acks ?h\<rparr> = ?h"
    by (simp add: na(2) [symmetric])
  have split: "WritePacket lib transmit buf e =
    (if length buf \<le> FragmentAbove (ep_config e)
     then write_compact lib transmit ?s ?h (ep_pool e) buf ?e1
     else let n = fragment_count (FragmentSize (ep_config e)) (length buf) in
       write_fragments lib transmit ?s ?h
         \<lparr>fh_seq = ?s, fh_id = 0, fh_total = of_nat (n - 1)\<rparr> n 0 buf 0 ?e1)"
    using size ins sl na okD(1)
    by (simp add: WritePacket_def Let_def ring_read_eq ring_write_eq pool_Get_def SentPacket_Reset_def
        zero_SentPacket_def prepared_def sent_record_def h fragment_count_def not_less
        del: write_fragments.simps)
  have inv1: "inv (ep_disp ?e1) (ep_seq ?e1) \<or> inv (ep_disp ?e1) (ep_seq ?e1 - 1)"
    using inv by simp
  show ?thesis
    using write_fragments_eq [OF inv1]
    by (simp add: split packet_datagrams_def Let_def write_compact_eq map_option_case
        option.case_eq_if bind_eq_None_conv split: Option.bind_split)
qed

text \<open>So it always returns, and takes exactly one sequence number.\<close>

lemma WritePacket_ok:
  assumes ok: "ep_ok e" and inv: "inv (ep_disp e) (ep_seq e)"
    and size: "length buf \<le> MaxPacketSize (ep_config e)"
  obtains x k where "WritePacket lib transmit buf e =
      Some ((prepared e buf)\<lparr>ep_disp := x, ep_pool := k\<rparr>,
        sum_list (map length (packet_datagrams lib e buf)))"
    "inv x (ep_seq e + 1)"
proof -
  let ?bs = "packet_datagrams lib e buf"
  have "inv (ep_disp (prepared e buf)) (ep_seq (prepared e buf) - 1) \<and> ?bs \<noteq> []"
    using inv by (simp add: packet_datagrams_nonempty)
  then obtain x k where "transmit_all transmit (ep_seq (prepared e buf) - 1) ?bs (prepared e buf) =
      Some ((prepared e buf)\<lparr>ep_disp := x, ep_pool := k\<rparr>)" "inv x (ep_seq (prepared e buf))"
    using transmit_all_ok by blast
  then show ?thesis using WritePacket_eq [OF ok inv size]
    by (intro that [of k x]) (simp_all add: Let_def)
qed

lemma WritePacket_inv:
  assumes ok: "ep_ok e" and inv: "inv (ep_disp e) (ep_seq e)"
  obtains e' w where "WritePacket lib transmit buf e = Some (e', w)" "ep_ok e'"
    "inv (ep_disp e') (ep_seq e')" "writes e e'"
proof (cases "length buf \<le> MaxPacketSize (ep_config e)")
  case True
  obtain x k where "WritePacket lib transmit buf e =
      Some ((prepared e buf)\<lparr>ep_disp := x, ep_pool := k\<rparr>,
        sum_list (map length (packet_datagrams lib e buf)))" "inv x (ep_seq e + 1)"
    using WritePacket_ok [OF ok inv True] by blast
  moreover have "writes e ((prepared e buf)\<lparr>ep_disp := x, ep_pool := k\<rparr>)" for x :: 'd and k
    using writes_prepared writes_disp_pool by (rule writes_trans)
  ultimately show ?thesis using ok
    by (intro that [of "(prepared e buf)\<lparr>ep_disp := x, ep_pool := k\<rparr>"]) (simp_all add: ep_ok_prepared)
next
  case False
  with ok inv show ?thesis by (intro that [of e 0]) (simp_all add: WritePacket_def)
qed

end

end
