(* ===== verification/Receive.thy ===== *)
theory Receive
  imports Dispatch
begin

text \<open>
  Receiving under the dispatcher's contract: no datagram of at least one byte whose fragment
  data fits the fragment size makes \<open>ReadPacket\<close> panic, whatever its bytes are, and every
  path, errors included, keeps the invariant of the endpoint.
\<close>

section \<open>Packets that wait for an acknowledgement\<close>

definition sent_entry :: "'d endpoint \<Rightarrow> u16 \<Rightarrow> sent_packet" where
  "sent_entry e s = ring_entries (ep_sent e) ! slot (ep_sent e) s"

text \<open>The sent packets still waiting for an acknowledgement, as the buffer sees them.\<close>

definition unacked :: "'d endpoint \<Rightarrow> u16 \<Rightarrow> bool" where
  "unacked e s \<longleftrightarrow> stored (ep_sent e) s \<and> \<not> sp_acked (sent_entry e s)"

text \<open>The endpoint after packet \<open>s\<close> was marked, as \<open>ACK\<close> is called on it.\<close>

definition marked :: "u16 \<Rightarrow> 'd endpoint \<Rightarrow> 'd endpoint" where
  "marked s e = e\<lparr>ep_sent := (ep_sent e)\<lparr>ring_entries := (ring_entries (ep_sent e))
     [slot (ep_sent e) s := (sent_entry e s)\<lparr>sp_acked := True\<rparr>]\<rparr>\<rparr>"

section \<open>The contract of the callbacks\<close>

text \<open>
  \<open>track\<close> is what the dispatcher keeps true between its own state and the sent buffer, across the
  operations of the endpoint.
\<close>

locale dispatching = transmitter lib "Transmit d" inv
  for lib :: lib and d :: "'d dispatcher" and inv :: "'d \<Rightarrow> u16 \<Rightarrow> bool" +
  fixes track :: "'d endpoint \<Rightarrow> bool"
  assumes process_ok: "inv (ep_disp e) (ep_seq e) \<Longrightarrow> track e \<Longrightarrow>
      \<exists>x k. Process d q b e = Some (e\<lparr>ep_disp := x, ep_pool := k\<rparr>) \<and> inv x (ep_seq e) \<and>
        track (e\<lparr>ep_disp := x, ep_pool := k\<rparr>)"
    and ack_ok: "ep_ok e \<Longrightarrow> inv (ep_disp e) (ep_seq e) \<Longrightarrow> track e \<Longrightarrow> unacked e q \<Longrightarrow>
      \<exists>e'. ACK d q (marked q e) = Some e' \<and> ep_ok e' \<and> inv (ep_disp e') (ep_seq e') \<and> track e' \<and>
        writes (marked q e) e'"
    and track_cong: "track e \<Longrightarrow> ep_disp e' = ep_disp e \<Longrightarrow> ep_sent e' = ep_sent e \<Longrightarrow> track e'"

text \<open>What acknowledgements leave alone.\<close>

definition keeps :: "'d endpoint \<Rightarrow> 'd endpoint \<Rightarrow> bool" where
  "keeps e e' \<longleftrightarrow> ep_config e' = ep_config e \<and> ep_time e' = ep_time e \<and>
     ep_recv e' = ep_recv e \<and> ep_assembler e' = ep_assembler e"

lemma keeps_refl [simp]: "keeps e e"
  by (simp add: keeps_def)

lemma keeps_trans: "keeps e e' \<Longrightarrow> keeps e' e'' \<Longrightarrow> keeps e e''"
  by (simp add: keeps_def)

lemma writes_keeps: "writes e e' \<Longrightarrow> keeps e e'"
  by (simp add: writes_def keeps_def)

lemma ep_ok_sent_write:
  "ep_ok e \<Longrightarrow> ep_ok (e\<lparr>ep_sent := (ep_sent e)\<lparr>ring_entries := (ring_entries (ep_sent e)) [i := p]\<rparr>\<rparr>)"
  by (simp add: ep_ok_def ring_wf_def)

lemma ep_ok_marked: "ep_ok e \<Longrightarrow> ep_ok (marked s e)"
  unfolding marked_def by (rule ep_ok_sent_write)

lemma marked_simps [simp]:
  "ep_disp (marked s e) = ep_disp e" "ep_seq (marked s e) = ep_seq e" "ep_config (marked s e) = ep_config e"
  "ep_time (marked s e) = ep_time e" "ep_recv (marked s e) = ep_recv e"
  "ep_assembler (marked s e) = ep_assembler e"
  by (simp_all add: marked_def)

lemma ep_ok_rtt [simp]: "ep_ok (e\<lparr>ep_rtt := x\<rparr>) = ep_ok e"
  by (simp add: ep_ok_def)

context dispatching
begin

definition good :: "'d endpoint \<Rightarrow> bool" where
  "good e \<longleftrightarrow> ep_ok e \<and> inv (ep_disp e) (ep_seq e) \<and> track e"

lemma goodI:
  "good e \<Longrightarrow> ep_ok e' \<Longrightarrow> ep_disp e' = ep_disp e \<Longrightarrow> ep_seq e' = ep_seq e \<Longrightarrow> ep_sent e' = ep_sent e \<Longrightarrow>
   good e'"
  using track_cong [of e e'] by (simp add: good_def)

lemma process_ack_ok:
  assumes "good e"
  shows "\<exists>e'. process_ack (ACK d) q e = Some e' \<and> good e' \<and> keeps e e'"
proof -
  have ok: "ep_ok e" and inv: "inv (ep_disp e) (ep_seq e)" and tr: "track e"
    using assms by (simp_all add: good_def)
  have wf: "ring_wf (ep_sent e)" using ep_okD(2) [OF ok] .
  let ?i = "slot (ep_sent e) q"
  have i: "?i < length (ring_entries (ep_sent e))" using wf by simp
  show ?thesis
  proof (cases "unacked e q")
    case True
    obtain e' where e': "ACK d q (marked q e) = Some e'" "ep_ok e'" "inv (ep_disp e') (ep_seq e')"
      "track e'" "writes (marked q e) e'"
      using ack_ok [OF ok inv tr True] by blast
    define e2 where "e2 = e'\<lparr>ep_rtt := smooth_rtt (ep_config e') (ep_rtt e')
      (fmul (fsub (ep_time e') (sp_time (ring_entries (ep_sent e') ! ?i))) (Finite 1000))\<rparr>"
    have "?i < length (ring_entries (ep_sent e'))" using e'(5) i by (simp add: writes_def marked_def)
    then have "process_ack (ACK d) q e = Some e2"
      using True wf i e'(1)
      by (simp add: process_ack_def buffer_defs ring_Find_eq ring_read_eq ring_write_eq Let_def
          unacked_def sent_entry_def marked_def e2_def)
    moreover have "good e2" using e' track_cong [OF e'(4), of e2] by (simp add: good_def e2_def)
    moreover have "keeps e e2" using e'(5) by (simp add: writes_def keeps_def e2_def)
    ultimately show ?thesis by blast
  next
    case False
    then show ?thesis using assms wf i
      by (auto simp: process_ack_def buffer_defs ring_Find_eq ring_read_eq unacked_def sent_entry_def)
  qed
qed

lemma processACKs_loop_ok:
  "good e \<Longrightarrow> \<exists>e'. processACKs_loop (ACK d) ack n i bits e = Some e' \<and> good e' \<and> keeps e e'"
proof (induction n arbitrary: i bits e)
  case 0
  then show ?case by simp
next
  case (Suc n)
  obtain e1 where e1: "process_ack (ACK d) (ack - of_nat i) e = Some e1" "good e1" "keeps e e1"
    using process_ack_ok Suc.prems by blast
  show ?case
  proof (cases "bits AND 1 = 0")
    case True
    then show ?thesis using Suc by simp
  next
    case False
    then show ?thesis using Suc.IH [OF e1(2)] e1 keeps_trans by fastforce
  qed
qed

lemma processACKs_ok:
  "good e \<Longrightarrow> \<exists>e'. processACKs (ACK d) ack bits e = Some e' \<and> good e' \<and> keeps e e'"
  by (simp add: processACKs_def processACKs_loop_ok)

lemma recvCompactPacket_ok:
  assumes "good e"
  shows "\<exists>e' err. recvCompactPacket lib d buf e = Some (e', err) \<and> good e' \<and>
    ep_config e' = ep_config e \<and> ep_assembler e' = ep_assembler e"
proof -
  have ok: "ep_ok e" and inv: "inv (ep_disp e) (ep_seq e)" and tr: "track e"
    using assms by (simp_all add: good_def)
  have wf: "ring_wf (ep_recv e)" using ep_okD(4) [OF ok] .
  show ?thesis
  proof (cases lib buf rule: UnmarshalPacketHeader_cases)
    case (error err)
    then show ?thesis using assms by (simp add: recvCompactPacket_def)
  next
    case (ok h c rest)
    let ?s = "ph_seq h"
    show ?thesis
    proof (cases "ring_IsOutdated (ep_recv e) ?s")
      case True
      then show ?thesis using assms ok
        by (simp add: recvCompactPacket_def buffer_defs ring_Insert_outdated)
    next
      case False
      let ?rb = "inserted (ep_recv e) ?s" and ?i = "slot (ep_recv e) ?s"
      let ?e1 = "e\<lparr>ep_recv := ?rb\<rparr>"
      obtain x k where p: "Process d ?s rest ?e1 = Some (?e1\<lparr>ep_disp := x, ep_pool := k\<rparr>)"
        "inv x (ep_seq e)" "track (?e1\<lparr>ep_disp := x, ep_pool := k\<rparr>)"
        using process_ok [of ?e1 ?s rest] inv track_cong [OF tr, of ?e1] by auto
      define rec where "rec = \<lparr>rp_time = ep_time e, rp_size = PacketHeaderSize (ep_config e) + length rest\<rparr>"
      define e2 where "e2 = e\<lparr>ep_disp := x, ep_pool := k,
        ep_recv := ?rb\<lparr>ring_entries := (ring_entries (ep_recv e)) [?i := rec]\<rparr>\<rparr>"
      have "ring_wf (?rb\<lparr>ring_entries := (ring_entries (ep_recv e)) [?i := rec]\<rparr>)"
        using ring_wf_inserted [OF wf, of ?s] by (simp add: ring_wf_def)
      then have "good e2"
        using \<open>ep_ok e\<close> p(2) track_cong [OF p(3), of e2] by (simp add: good_def ep_ok_def e2_def)
      then obtain e3 where e3: "processACKs (ACK d) (ph_ack h) (ph_acks h) e2 = Some e3" "good e3"
        "keeps e2 e3"
        using processACKs_ok by blast
      have "recvCompactPacket lib d buf e = Some (e3, None)"
        using ok(1) p False wf e3(1)
        by (simp add: recvCompactPacket_def buffer_defs ring_Insert_eq ring_read_eq ring_write_eq
            RecvPacket_Reset_def zero_RecvPacket_def rec_def e2_def)
      then show ?thesis using e3 by (simp add: keeps_def e2_def)
    qed
  qed
qed

end

section \<open>Fragments\<close>

lemma decode_fragment_cases:
  obtains (error) err where "decode_fragment lib c buf = Some (Inl err)"
  | (ok) h phb data where "decode_fragment lib c buf = Some (Inr (h, phb, data))"
      "fh_id h \<le> fh_total h" "unat (fh_total h) < MaxFragments c"
      "fh_id h = 0 \<Longrightarrow> length phb \<le> MaxPacketHeaderSize"
      "length data + FragmentHeaderSize \<le> length buf"
proof (cases "UnmarshalFragmentHeader lib buf")
  case None
  then show ?thesis by (simp add: UnmarshalFragmentHeader_total)
next
  case (Some r)
  show ?thesis
  proof (cases r)
    case (Inl err)
    with Some show ?thesis by (intro error) (simp add: decode_fragment_def)
  next
    case (Inr p)
    obtain h rest where p: "p = (h, rest)" by (cases p)
    have len: "length rest + FragmentHeaderSize \<le> length buf"
      using Some Inr p by (auto simp: UnmarshalFragmentHeader_def Let_def FragmentHeaderSize_def
          split: if_splits Option.bind_splits elim!: read_byte.elims
          dest!: arg_cong [where f = length])
    show ?thesis
    proof (cases "FragmentHeader_Validate h (MaxFragments c)")
      case (Some err)
      with \<open>UnmarshalFragmentHeader lib buf = Some r\<close> Inr p show ?thesis
        by (intro error) (simp add: decode_fragment_def)
    next
      case valid: None
      note V = valid [unfolded FragmentHeader_Validate_None]
      show ?thesis
      proof (cases "fh_id h = 0")
        case False
        with Some Inr p valid
        have "decode_fragment lib c buf = Some (Inr (h, rest, rest))"
          by (simp add: decode_fragment_def Let_def)
        then show ?thesis
          by (rule ok) (use False V len in \<open>auto simp: word_le_nat_alt\<close>)
      next
        case zero: True
        show ?thesis
        proof (cases lib rest rule: UnmarshalPacketHeader_cases)
          case (error err)
          with Some Inr p valid zero show ?thesis
            by (intro that(1)) (simp add: decode_fragment_def Let_def)
        next
          case (ok ph c' rest')
          show ?thesis
          proof (cases "fh_seq h = ph_seq ph")
            case True
            with Some Inr p valid zero ok(1)
            have "decode_fragment lib c buf =
                Some (Inr (h, take (length rest - length rest') rest, rest'))"
              by (simp add: decode_fragment_def Let_def)
            then show ?thesis
              by (rule that(2)) (use V len ok in \<open>auto simp: word_le_nat_alt\<close>)
          next
            case False
            with Some Inr p valid zero ok(1) show ?thesis
              by (intro that(1)) (simp add: decode_fragment_def Let_def)
          qed
        qed
      qed
    qed
  qed
qed

text \<open>A datagram whose fragment data, if it decodes as a fragment, fits the fragment size.\<close>

definition fits :: "lib \<Rightarrow> config \<Rightarrow> bytes \<Rightarrow> bool" where
  "fits lib c buf \<longleftrightarrow> (case decode_fragment lib c buf of
     Some (Inr (h, phb, data)) \<Rightarrow> length data \<le> FragmentSize c | _ \<Rightarrow> True)"

lemma fits_short: "length buf \<le> FragmentSize c + FragmentHeaderSize \<Longrightarrow> fits lib c buf"
  by (cases rule: decode_fragment_cases [of lib c buf]) (auto simp: fits_def)

lemma zero_frag_ok:
  "n \<le> length m \<Longrightarrow> 0 < t \<Longrightarrow> t \<le> 256 \<Longrightarrow> n = MaxPacketHeaderSize + t * fs \<Longrightarrow>
   frag_ok fs (zero_Fragment\<lparr>fr_total := t, fr_buf := Some \<lparr>bb_len = n, bb_mem = m\<rparr>\<rparr>)"
proof -
  assume h: "n \<le> length m" "0 < t" "t \<le> 256" "n = MaxPacketHeaderSize + t * fs"
  have "marked_set (zero_Fragment\<lparr>fr_total := t, fr_buf := Some \<lparr>bb_len = n, bb_mem = m\<rparr>\<rparr>) = {}"
    using marked_set_zero by (simp add: marked_set_def)
  then show ?thesis using h
    by (simp add: frag_ok_def) (simp add: zero_Fragment_def fragment_wf_def)
qed

lemma assembler_ok_write:
  assumes "assembler_ok fs a" and "frag_ok fs f"
    and "\<And>t. t \<noteq> s \<Longrightarrow> stored a' t \<Longrightarrow> stored a t \<and> slot a t \<noteq> slot a s"
    and "ring_wf a'" and "ring_entries a' = ring_entries a"
  shows "assembler_ok fs (a'\<lparr>ring_entries := (ring_entries a) [slot a s := f]\<rparr>)"
proof -
  have sl: "slot a' t = slot a t" for t using assms(5) by (simp add: slot_def)
  have eq: "a'\<lparr>ring_entries := (ring_entries a) [slot a s := f]\<rparr> =
      a'\<lparr>ring_entries := (ring_entries a') [slot a' s := f]\<rparr>" by (simp add: assms(5) sl)
  show ?thesis
    unfolding eq assembler_ok_def
  proof (intro conjI allI impI)
    show "ring_wf (a'\<lparr>ring_entries := (ring_entries a') [slot a' s := f]\<rparr>)"
      using assms(4) by (simp add: ring_wf_def)
    fix t assume st: "stored (a'\<lparr>ring_entries := (ring_entries a') [slot a' s := f]\<rparr>) t"
    have "frag_ok fs ((ring_entries a') [slot a' s := f] ! slot a' t)"
    proof (cases "t = s")
      case True
      with assms(2,4) show ?thesis by simp
    next
      case False
      with st assms(3) have "stored a t" "slot a t \<noteq> slot a s" by simp_all
      with assms(1) show ?thesis by (simp add: assembler_ok_def sl assms(5))
    qed
    then show "frag_ok fs (ring_entries (a'\<lparr>ring_entries := (ring_entries a') [slot a' s := f]\<rparr>) !
        slot (a'\<lparr>ring_entries := (ring_entries a') [slot a' s := f]\<rparr>) t)" by simp
  qed
qed

context library
begin

lemma assembly_entry_ok:
  assumes ok: "ep_ok e"
  obtains (failed) err where "assembly_entry lib h e = Some (e, Inl err)"
  | (entry) a k where "assembly_entry lib h e =
        Some (e\<lparr>ep_assembler := a, ep_pool := k\<rparr>, Inr (slot a (fh_seq h)))"
      "assembler_ok (FragmentSize (ep_config e)) a" "stored a (fh_seq h)"
proof -
  let ?a = "ep_assembler e" and ?s = "fh_seq h" and ?fs = "FragmentSize (ep_config e)"
  have wf: "ring_wf ?a" and aok: "assembler_ok ?fs ?a" using ep_okD [OF ok] by auto
  show ?thesis
  proof (cases "stored ?a ?s")
    case True
    with wf aok show ?thesis
      by (intro entry [of "ep_pool e" ?a]) (simp_all add: assembly_entry_def buffer_defs ring_Find_eq)
  next
    case new: False
    show ?thesis
    proof (cases "ring_IsOutdated ?a ?s")
      case True
      with new wf show ?thesis
        by (intro failed) (simp add: assembly_entry_def buffer_defs ring_Find_eq ring_Insert_outdated)
    next
      case False
      define t where "t = unat (fh_total h) + 1"
      define n where "n = MaxPacketHeaderSize + t * ?fs"
      define f where "f = zero_Fragment\<lparr>fr_total := t,
        fr_buf := Some \<lparr>bb_len = n, bb_mem = ExtendSlice lib (ep_pool e) n\<rparr>\<rparr>"
      define a where "a = (inserted ?a ?s)\<lparr>ring_entries := (ring_entries ?a) [slot ?a ?s := f]\<rparr>"
      have "t \<le> 256" using unat_u8_less [of "fh_total h"] unfolding t_def by arith
      then have "frag_ok ?fs f"
        unfolding f_def by (intro zero_frag_ok extend_length) (simp_all add: t_def n_def)
      then have a: "assembler_ok ?fs a"
        unfolding a_def using aok wf
        by (intro assembler_ok_write) (auto simp: stored_inserted intro: wf_intros)
      have st: "stored a ?s" unfolding a_def using wf
        by (metis entries_inserted slot_inserted stored_inserted stored_write)
      have sl: "slot a ?s = slot ?a ?s" by (simp add: a_def slot_def)
      from new False wf show ?thesis
        by (intro entry [OF _ a st, of "Suc (ep_pool e)"])
          (simp add: assembly_entry_def buffer_defs ring_Find_eq ring_Insert_eq ring_read_eq
            ring_write_eq Fragment_Reset_def pool_Get_def sl,
           simp add: a_def f_def n_def t_def zero_Fragment_def Let_def)
    qed
  qed
qed

end

lemma bb_copy_fits:
  "bb_len b \<le> length (bb_mem b) \<Longrightarrow> lo \<le> bb_len b \<Longrightarrow>
   \<exists>b'. bb_copy b lo src = Some b' \<and> bb_len b' = bb_len b \<and> length (bb_mem b') = length (bb_mem b)"
  by (auto simp: bb_copy_def)

lemma store_fragment_ok:
  assumes ok: "frag_ok fs f" and new: "fh_id h \<notin> marked_set f"
    and m: "marked_set f' = insert (fh_id h) (marked_set f)" "fragment_wf f'"
      "f' = f\<lparr>fr_marked := fr_marked f'\<rparr>"
    and h: "fr_total f = unat (fh_total h) + 1" "fh_id h \<le> fh_total h" and fs: "0 < fs"
    and phb: "fh_id h = 0 \<Longrightarrow> length phb \<le> MaxPacketHeaderSize" and data: "length data \<le> fs"
  obtains f'' where "store_fragment fs h phb data f' = Some f''" "frag_ok fs f''"
proof -
  have fld: "fr_buf f' = fr_buf f" "fr_total f' = fr_total f" "fr_recv f' = fr_recv f"
    "fr_headerSize f' = fr_headerSize f" "fr_packetSize f' = fr_packetSize f"
    by (subst m(3), simp)+
  obtain b where b: "fr_buf f = Some b" "bb_len b = MaxPacketHeaderSize + fr_total f * fs"
    "bb_len b \<le> length (bb_mem b)"
    using ok by (auto simp: frag_ok_def split: option.splits)
  have lo: "MaxPacketHeaderSize - length phb \<le> bb_len b" using b(2) by simp
  define hs where "hs = (if fh_id h = 0
    then copy_count (take (bb_len b) (bb_mem b)) (MaxPacketHeaderSize - length phb) phb
    else fr_headerSize f)"
  obtain b1 where b1: "(if fh_id h = 0 then bb_copy b (MaxPacketHeaderSize - length phb) phb
      else Some b) = Some b1" "bb_len b1 = bb_len b" "length (bb_mem b1) = length (bb_mem b)"
    using bb_copy_fits [OF b(3) lo, of phb] by (cases "fh_id h = 0") auto
  let ?lo = "MaxPacketHeaderSize + unat (fh_id h) * fs"
  have id: "unat (fh_id h) < fr_total f" using h by (simp add: word_le_nat_alt)
  then have "unat (fh_id h) * fs \<le> fr_total f * fs" by (intro mult_le_mono1) simp
  then have "?lo \<le> bb_len b1" using b1(2) b(2) by simp
  then obtain b2 where b2: "bb_copy b1 ?lo data = Some b2" "bb_len b2 = bb_len b1"
    "length (bb_mem b2) = length (bb_mem b1)"
    using bb_copy_fits [of b1 ?lo data] b1 b(3) by auto
  define ps where "ps = (if fh_id h = fh_total h then unat (fh_total h) * fs + length data
    else fr_packetSize f)"
  define f1 where "f1 = (if fh_id h = 0 then f'\<lparr>fr_buf := Some b1, fr_headerSize := hs\<rparr> else f')"
  define f2 where "f2 = (if fh_id h = fh_total h
    then f1\<lparr>fr_packetSize := unat (fh_total h) * fs + length data\<rparr> else f1)"
  define f3 where "f3 = f2\<lparr>fr_buf := Some b2, fr_recv := fr_recv f2 + 1\<rparr>"
  have f3: "fr_buf f3 = Some b2" "fr_recv f3 = fr_recv f + 1" "fr_total f3 = fr_total f"
    "fr_marked f3 = fr_marked f'" "fr_headerSize f3 = hs" "fr_packetSize f3 = ps"
    by (simp_all add: f3_def f2_def f1_def fld hs_def ps_def)
  have buf2: "fr_buf f2 = Some b1" using b1(1) b(1) by (auto simp: f2_def f1_def fld split: if_splits)
  have hs: "hs \<le> MaxPacketHeaderSize"
    using ok phb by (auto simp: hs_def frag_ok_def copy_count_def)
  have ps: "ps \<le> fr_total f * fs"
    using ok data h(1) by (auto simp: ps_def frag_ok_def add.commute)
  have ms: "marked_set f3 = insert (fh_id h) (marked_set f)"
    unfolding m(1) [symmetric] by (simp add: f3 marked_set_def)
  have "fr_recv f3 = card (marked_set f3)" "\<forall>i \<in> marked_set f3. unat i < fr_total f3"
    using ok new id by (auto simp: ms f3 frag_ok_def)
  then have "frag_ok fs f3"
    using ok m(2) hs ps b b1 b2 by (simp add: frag_ok_def f3 fragment_wf_def)
  moreover have "store_fragment fs h phb data f' = Some f3"
  proof -
    have "(if fh_id h = 0 then do {
             b \<leftarrow> fr_buf f';
             if length phb > MaxPacketHeaderSize then None
             else do {
               let lo = MaxPacketHeaderSize - length phb;
               let n = copy_count (take (bb_len b) (bb_mem b)) lo phb;
               b \<leftarrow> bb_copy b lo phb;
               Some (f'\<lparr>fr_buf := Some b, fr_headerSize := n\<rparr>) } }
           else Some f') = Some f1"
      using b(1) b1(1) phb by (cases "fh_id h = 0") (simp_all add: fld f1_def hs_def Let_def)
    then show ?thesis
      unfolding store_fragment_def using buf2 b2(1) by (simp add: f3_def flip: f2_def)
  qed
  ultimately show ?thesis using that by blast
qed

lemma Remove_assembler_ok:
  assumes "assembler_ok fs a"
  obtains a' where "FragmentReassemblyBuffer_Remove a s = Some a'" "assembler_ok fs a'"
proof -
  have wf: "ring_wf a" using assms by (simp add: assembler_ok_def)
  let ?a = "a\<lparr>ring_buf := (ring_buf a)
    \<lparr>seq_entries := (seq_entries (ring_buf a)) [slot a s := EmptySequenceBufferEntry]\<rparr>\<rparr>"
  have sl: "slot ?a t = slot a t" for t by (simp add: slot_def)
  have "stored ?a t \<Longrightarrow> stored a t" for t
    unfolding stored_def sl using wf
    by (cases "slot a t = slot a s") (simp_all add: ring_wfD(3))
  then have "assembler_ok fs ?a" using assms wf
    by (simp add: assembler_ok_def sl) (simp add: ring_wf_def)
  then show ?thesis using wf by (intro that) (simp_all add: buffer_defs ring_Remove_eq)
qed

context dispatching
begin

lemma recvFragmentedPacket_ok:
  assumes "good e" and fits: "fits lib (ep_config e) buf"
  shows "\<exists>e' err. recvFragmentedPacket lib d buf e = Some (e', err) \<and> good e' \<and>
    ep_config e' = ep_config e"
proof -
  have ok: "ep_ok e" using assms by (simp add: good_def)
  let ?fs = "FragmentSize (ep_config e)"
  have fs: "0 < ?fs" using ep_okD [OF ok] by simp
  show ?thesis
  proof (cases rule: decode_fragment_cases [of lib "ep_config e" buf])
    case (error err)
    then show ?thesis using assms(1) by (simp add: recvFragmentedPacket_def)
  next
    case dec: (ok h phb data)
    have data: "length data \<le> ?fs" using fits dec(1) by (simp add: fits_def)
    show ?thesis
    proof (cases rule: assembly_entry_ok [OF ok, of h])
      case (1 err)
      then show ?thesis using assms(1) dec(1) by (simp add: recvFragmentedPacket_def)
    next
      case ent: (2 a k)
      let ?i = "slot a (fh_seq h)" and ?e1 = "e\<lparr>ep_assembler := a, ep_pool := k\<rparr>"
      define f where "f = ring_entries a ! ?i"
      have wf: "ring_wf a" using ent(2) by (simp add: assembler_ok_def)
      then have i: "?i < length (ring_entries a)" by simp
      have fok: "frag_ok ?fs f" using ent(2,3) by (simp add: assembler_ok_def f_def)
      have g1: "good ?e1" by (rule goodI [OF assms(1)]) (use ok ent(2) in \<open>simp_all add: ep_ok_def\<close>)
      show ?thesis
      proof (cases "unat (fh_total h) + 1 = fr_total f")
        case False
        then show ?thesis using g1 dec(1) ent(1) i
          by (simp add: recvFragmentedPacket_def ring_read_eq f_def)
      next
        case tot: True
        have fwf: "fragment_wf f" using fok by (simp add: frag_ok_def)
        show ?thesis
        proof (cases rule: MarkReceived_cases [OF fwf, of "fh_id h"])
          case 1
          then show ?thesis using g1 dec(1) ent(1) i tot
            by (simp add: recvFragmentedPacket_def ring_read_eq flip: f_def)
        next
          case (2 f')
          obtain f'' where st: "store_fragment ?fs h phb data f' = Some f''" "frag_ok ?fs f''"
            using store_fragment_ok [OF fok 2(1,3,4,5) tot [symmetric] dec(2) fs dec(4) data] by blast
          define a2 where "a2 = a\<lparr>ring_entries := (ring_entries a) [?i := f'']\<rparr>"
          have a2: "assembler_ok ?fs a2"
            unfolding a2_def using ent(2,3) st(2) wf
            by (intro assembler_ok_write) (auto dest: stored_slot_inj)
          have g2: "good (e\<lparr>ep_pool := k, ep_assembler := a2\<rparr>)"
            by (rule goodI [OF assms(1)]) (use ok a2 in \<open>simp_all add: ep_ok_def\<close>)
          show ?thesis
          proof (cases "fr_recv f'' = fr_total f''")
            case False
            then show ?thesis using g2 dec(1) ent(1) i tot 2(2) st
              by (simp add: recvFragmentedPacket_def ring_read_eq ring_write_eq flip: f_def)
                (simp add: a2_def)
          next
            case True
            obtain b where b: "fr_buf f'' = Some b" "fr_headerSize f'' \<le> MaxPacketHeaderSize"
              "MaxPacketHeaderSize + fr_packetSize f'' \<le> length (bb_mem b)"
              using st(2) by (auto simp: frag_ok_def split: option.splits)
            moreover have "MaxPacketHeaderSize - fr_headerSize f'' \<le> MaxPacketHeaderSize + fr_packetSize f''"
              by arith
            ultimately obtain packet where pk: "bb_slice b (MaxPacketHeaderSize - fr_headerSize f'')
                (MaxPacketHeaderSize + fr_packetSize f'') = Some packet"
              by (simp add: bb_slice_def)
            obtain e3 err where e3: "recvCompactPacket lib d packet (e\<lparr>ep_pool := k, ep_assembler := a2\<rparr>) =
                Some (e3, err)" "good e3" "ep_config e3 = ep_config e" "ep_assembler e3 = a2"
              using recvCompactPacket_ok [OF g2, of packet] by auto
            obtain a3 where a3: "FragmentReassemblyBuffer_Remove a2 (fh_seq h) = Some a3"
              "assembler_ok ?fs a3"
              using Remove_assembler_ok [OF a2] by blast
            have "good (e3\<lparr>ep_assembler := a3\<rparr>)"
              by (rule goodI [OF e3(2)]) (use e3 a3(2) in \<open>simp_all add: good_def ep_ok_def\<close>)
            then show ?thesis
              using True dec(1) ent(1) i tot 2(2) st(1) b pk e3 a3(1)
              by (simp add: recvFragmentedPacket_def ring_read_eq ring_write_eq flip: f_def)
                (simp add: a2_def)
          qed
        qed
      qed
    qed
  qed
qed

lemma ReadPacket_ok:
  assumes "good e" and "buf \<noteq> []" and "fits lib (ep_config e) buf"
  shows "\<exists>e' err. ReadPacket lib d buf e = Some (e', err) \<and> good e' \<and> ep_config e' = ep_config e"
  using recvFragmentedPacket_ok [OF assms(1,3)] recvCompactPacket_ok [OF assms(1), of buf] assms(2)
  by (auto simp: ReadPacket_def)

end

end
