(* ===== verification/Acks.thy ===== *)
theory Acks
  imports Receive
begin

text \<open>
  Acknowledgements. Between the peers: the bitset that \<open>NextACK\<close> computes on one side and
  the entries that \<open>processACKs\<close> marks on the other. Within one side: which packet numbers
  the sent buffer still knows when an acknowledgement arrives.
\<close>

section \<open>Which numbers the window retains\<close>

text \<open>
  \<open>n\<close> insertions in order, as \<open>WritePacket\<close> makes them in the sent buffer: every one at
  the window's \<open>latest\<close>.
\<close>

fun insert_run :: "nat \<Rightarrow> 'e ring \<Rightarrow> 'e ring option" where
  "insert_run 0 r = Some r"
| "insert_run (Suc n) r = do {
     r \<leftarrow> insert_run n r;
     (r, _) \<leftarrow> ring_Insert r (latest (ring_buf r));
     Some r }"

text \<open>How far \<open>t\<close> lies behind the newest number.\<close>

definition age :: "'e ring \<Rightarrow> u16 \<Rightarrow> nat" where
  "age r t = unat (latest (ring_buf r) - 1 - t)"

lemma unat_age_step:
  assumes "t \<noteq> (l :: u16)"
  shows "unat (l - t) = Suc (unat (l - 1 - t))"
proof -
  have nz: "l - t \<noteq> 0" using assms by simp
  have "l - 1 - t = (l - t) - 1" by simp
  then have "unat (l - 1 - t) = unat (l - t) - 1" using unat_minus_one [OF nz] by (simp only:)
  moreover have "unat (l - t) \<noteq> 0" using nz by (simp only: unat_eq_0 not_False_eq_True)
  ultimately show ?thesis by linarith
qed

lemma slot_eq_iff_dvd:
  assumes "length (ring_entries r) dvd 65536"
  shows "slot r t = slot r l \<longleftrightarrow> length (ring_entries r) dvd unat (l - t)"
proof -
  let ?c = "length (ring_entries r)"
  have c: "int ?c dvd 65536" using assms by (metis int_dvd_int_iff of_nat_numeral)
  have "slot r t = slot r l \<longleftrightarrow> uint l mod int ?c = uint t mod int ?c"
  proof -
    have "uint x mod int ?c = int (slot r x)" for x
      unfolding slot_def zmod_int by (simp only: uint_nat)
    then show ?thesis by auto
  qed
  also have "\<dots> \<longleftrightarrow> int ?c dvd uint l - uint t" by (rule mod_eq_dvd_iff)
  also have "\<dots> \<longleftrightarrow> int ?c dvd (uint l - uint t) mod 65536" using c by (simp add: dvd_mod_iff)
  also have "(uint l - uint t) mod 65536 = int (unat (l - t))"
  proof -
    have "uint (l - t) = (uint l - uint t) mod 2 ^ 16" using uint_word_ariths(2) [of l t] by simp
    then show ?thesis by (simp only: uint_nat [of "l - t", symmetric]) simp
  qed
  finally show ?thesis by (simp only: int_dvd_int_iff)
qed

lemma stored_insert_latest:
  assumes wf: "ring_wf r" and dvd: "length (ring_entries r) dvd 65536"
    and inv: "\<And>t. stored r t \<longleftrightarrow> age r t < n \<and> age r t < length (ring_entries r)"
  shows "stored (inserted r (latest (ring_buf r))) t \<longleftrightarrow>
    age (inserted r (latest (ring_buf r))) t < Suc n \<and>
    age (inserted r (latest (ring_buf r))) t < length (ring_entries r)"
proof -
  let ?l = "latest (ring_buf r)" and ?c = "length (ring_entries r)"
  have c: "0 < ?c" using wf by auto
  have age': "age (inserted r ?l) t = unat (?l - t)" by (simp add: age_def latest_inserted)
  show ?thesis
  proof (cases "t = ?l")
    case True
    show ?thesis unfolding age' using c wf by (simp add: True stored_inserted)
  next
    case False
    have d: "unat (?l - t) = Suc (age r t)" using unat_age_step [OF False] by (simp add: age_def)
    have "slot r t \<noteq> slot r ?l" if "age r t < ?c" "Suc (age r t) \<noteq> ?c"
      using that nat_dvd_not_less [of "Suc (age r t)" ?c] by (simp add: slot_eq_iff_dvd [OF dvd] d)
    moreover have "slot r t = slot r ?l" if "Suc (age r t) = ?c"
      using that by (simp add: slot_eq_iff_dvd [OF dvd] d)
    ultimately have "age r t < ?c \<and> slot r t \<noteq> slot r ?l \<longleftrightarrow> Suc (age r t) < ?c"
      by (cases "Suc (age r t) = ?c") auto
    then show ?thesis
      using False wf by (auto simp: stored_inserted inv age' d)
  qed
qed

lemma insert_run_retains:
  assumes "ring_New z (of_nat c) = Some r" and "0 < c" and "c < 32768" and "c dvd 65536"
  shows "\<exists>r'. insert_run n r = Some r' \<and> ring_wf r' \<and> latest (ring_buf r') = of_nat n \<and>
    length (ring_entries r') = c \<and> (\<forall>t. stored r' t \<longleftrightarrow> age r' t < n \<and> age r' t < c)"
proof (induction n)
  case 0
  have c: "unat (of_nat c :: u16) = c" using assms(3) by (intro unat_of_nat_u16) simp
  then show ?case
    using assms stored_New [OF assms(1)] ring_New_wf [OF assms(1)] by (auto simp: ring_New_eq)
next
  case (Suc n)
  then obtain r' where r': "insert_run n r = Some r'" "ring_wf r'" "latest (ring_buf r') = of_nat n"
    "length (ring_entries r') = c" "\<And>t. stored r' t \<longleftrightarrow> age r' t < n \<and> age r' t < c" by blast
  let ?l = "latest (ring_buf r')"
  have "ring_Insert r' ?l = Some (inserted r' ?l, Some (slot r' ?l))"
    using r'(2) by (intro ring_Insert_eq not_outdated_latest)
  then have "insert_run (Suc n) r = Some (inserted r' ?l)" using r'(1) by simp
  moreover have "latest (ring_buf (inserted r' ?l)) = of_nat (Suc n)"
    using r'(3) advanced_latest [of r'] by (simp add: latest_inserted)
  moreover have "stored (inserted r' ?l) t \<longleftrightarrow>
      age (inserted r' ?l) t < Suc n \<and> age (inserted r' ?l) t < c" for t
    using stored_insert_latest [OF r'(2), of n t] r'(4,5) assms(4) by simp
  ultimately show ?case using r'(2,4) by (auto intro: wf_intros)
qed

section \<open>Marking the acknowledged packets\<close>

text \<open>
  A dispatcher whose \<open>ACK\<close> only records the number, to observe the callbacks.
\<close>

definition log_ACK :: "u16 \<Rightarrow> u16 list endpoint \<Rightarrow> u16 list endpoint option" where
  "log_ACK seq e = Some (e\<lparr>ep_disp := ep_disp e @ [seq]\<rparr>)"

text \<open>\<open>e'\<close> is \<open>e\<close> after the packets in \<open>S\<close> were marked; the round-trip time may differ.\<close>

definition marks :: "u16 set \<Rightarrow> 'd endpoint \<Rightarrow> 'd endpoint \<Rightarrow> bool" where
  "marks S e e' \<longleftrightarrow> ring_wf (ep_sent e') \<and> ring_buf (ep_sent e') = ring_buf (ep_sent e) \<and>
     length (ring_entries (ep_sent e')) = length (ring_entries (ep_sent e)) \<and>
     (\<forall>s. stored (ep_sent e) s \<longrightarrow> sent_entry e' s =
        (if s \<in> S then (sent_entry e s)\<lparr>sp_acked := True\<rparr> else sent_entry e s))"

lemma marks_refl: "ring_wf (ep_sent e) \<Longrightarrow> marks {} e e"
  by (simp add: marks_def)

lemma marks_stored: "marks S e e' \<Longrightarrow> stored (ep_sent e') s = stored (ep_sent e) s"
  by (simp add: marks_def stored_def slot_def)

lemma marks_trans: "marks S e e' \<Longrightarrow> marks T e' e'' \<Longrightarrow> marks (S \<union> T) e e''"
  using marks_stored [of S e e'] unfolding marks_def by auto

lemma marks_unacked: "marks S e e' \<Longrightarrow> unacked e' s \<longleftrightarrow> unacked e s \<and> s \<notin> S"
  using marks_stored [of S e e' s] by (cases "s \<in> S") (auto simp: unacked_def marks_def)

text \<open>
  Callbacks that leave the sent buffer alone: \<open>state l e\<close> holds of the endpoint \<open>e\<close> after they were
  called for the numbers \<open>l\<close>.
\<close>

locale acking =
  fixes ack_cb :: "u16 \<Rightarrow> 'd endpoint \<Rightarrow> 'd endpoint option"
    and state :: "u16 list \<Rightarrow> 'd endpoint \<Rightarrow> bool"
  assumes ack_step: "ring_wf (ep_sent e) \<Longrightarrow> state l e \<Longrightarrow> unacked e s \<Longrightarrow>
      \<exists>e'. ack_cb s (marked s e) = Some e' \<and> ep_sent e' = ep_sent (marked s e) \<and> state (l @ [s]) e'"
    and state_rtt: "state l e \<Longrightarrow> state l (e\<lparr>ep_rtt := x\<rparr>)"
begin

lemma process_ack_marks:
  assumes wf: "ring_wf (ep_sent e)" and st: "state l e"
  obtains e' where "process_ack ack_cb s e = Some e'" "marks (if unacked e s then {s} else {}) e e'"
    "state (l @ (if unacked e s then [s] else [])) e'"
proof (cases "unacked e s")
  case False
  then have "process_ack ack_cb s e = Some e"
    using wf by (auto simp: process_ack_def buffer_defs ring_Find_eq ring_read_eq unacked_def sent_entry_def)
  with False wf st show ?thesis by (intro that [of e]) (simp_all add: marks_refl)
next
  case True
  let ?i = "slot (ep_sent e) s"
  have i: "?i < length (ring_entries (ep_sent e))" using wf by simp
  have un: "stored (ep_sent e) s" "\<not> sp_acked (sent_entry e s)" using True by (simp_all add: unacked_def)
  obtain e1 where e1: "ack_cb s (marked s e) = Some e1" "ep_sent e1 = ep_sent (marked s e)" "state (l @ [s]) e1"
    using ack_step [OF wf st True] by blast
  define e' where "e' = e1\<lparr>ep_rtt := smooth_rtt (ep_config e1) (ep_rtt e1)
    (fmul (fsub (ep_time e1) (sp_time (sent_entry e s))) (Finite 1000))\<rparr>"
  have "process_ack ack_cb s e = Some e'"
    using un wf i e1(1,2)
    by (simp add: process_ack_def buffer_defs ring_Find_eq ring_read_eq ring_write_eq
        sent_entry_def marked_def e'_def Let_def)
  moreover have sent: "ep_sent e' = ep_sent (marked s e)" using e1(2) by (simp add: e'_def)
  have "marks {s} e e'"
    unfolding marks_def
  proof (intro conjI allI impI)
    fix t assume t: "stored (ep_sent e) t"
    show "sent_entry e' t =
        (if t \<in> {s} then (sent_entry e t)\<lparr>sp_acked := True\<rparr> else sent_entry e t)"
    proof (cases "t = s")
      case True
      then show ?thesis using i by (simp add: sent_entry_def sent) (simp add: marked_def sent_entry_def)
    next
      case False
      then have "slot (ep_sent e) t \<noteq> ?i" using stored_slot_inj [OF t un(1)] by auto
      with False show ?thesis by (simp add: sent_entry_def sent) (simp add: marked_def sent_entry_def)
    qed
  qed (use wf sent in \<open>simp_all add: marked_def ring_wf_def\<close>)
  moreover have "state (l @ [s]) e'" unfolding e'_def by (rule state_rtt [OF e1(3)])
  ultimately show ?thesis using True by (intro that [of e']) simp_all
qed

end

text \<open>The numbers a pair \<open>ack, bitset\<close> names, nearest first.\<close>

definition named :: "u16 \<Rightarrow> u32 \<Rightarrow> u16 list" where
  "named ack bits = map (\<lambda>k. ack - of_nat k) (filter (bit bits) [0..<32])"

lemma sub_of_nat_inj:
  assumes "a - of_nat j = (a - of_nat k :: u16)" and "j < 65536" and "k < 65536"
  shows "j = k"
proof -
  have "of_nat j = (of_nat k :: u16)" using assms(1) by simp
  then show ?thesis using unat_of_nat_u16 assms(2,3) by metis
qed

context acking
begin

lemma processACKs_loop_marks:
  "ring_wf (ep_sent e) \<Longrightarrow> state l e \<Longrightarrow> i + n \<le> 65536 \<Longrightarrow>
   \<exists>e'. processACKs_loop ack_cb ack n i bits e = Some e' \<and>
     (let acks = filter (unacked e) (map (\<lambda>k. ack - of_nat k) (filter (\<lambda>k. bit bits (k - i)) [i..<i + n]))
      in marks (set acks) e e' \<and> state (l @ acks) e')"
proof (induction n arbitrary: i bits e l)
  case 0
  then show ?case by (simp add: marks_refl)
next
  case (Suc n)
  let ?s = "ack - of_nat i"
  let ?l = "map (\<lambda>k. ack - of_nat k) (filter (\<lambda>k. bit bits (k - i)) [Suc i..<Suc i + n])"
  have upt: "[i..<i + Suc n] = i # [Suc i..<Suc i + n]" by (simp add: upt_rec [of i])
  have shift: "filter (\<lambda>k. bit (drop_bit 1 bits) (k - Suc i)) [Suc i..<Suc i + n] =
      filter (\<lambda>k. bit bits (k - i)) [Suc i..<Suc i + n]"
    by (intro filter_cong) (auto simp: bit_drop_bit_eq Suc_diff_Suc)
  have test: "bits AND 1 = 0 \<longleftrightarrow> \<not> bit bits 0" by (simp add: and_one_eq bit_0 even_iff_mod_2_eq_zero)
  show ?case
  proof (cases "bit bits 0")
    case False
    have l: "filter (\<lambda>k. bit bits (k - i)) [i..<i + Suc n] =
        filter (\<lambda>k. bit bits (k - i)) [Suc i..<Suc i + n]"
      unfolding upt using False by simp
    have "Suc i + n \<le> 65536" using Suc.prems(3) by simp
    from Suc.IH [OF Suc.prems(1,2) this, of "drop_bit 1 bits"] show ?thesis
      unfolding l shift using False by (simp only: processACKs_loop.simps test) simp
  next
    case True
    let ?l1 = "l @ (if unacked e ?s then [?s] else [])"
    obtain e1 where e1: "process_ack ack_cb ?s e = Some e1"
      "marks (if unacked e ?s then {?s} else {}) e e1" "state ?l1 e1"
      using process_ack_marks [OF Suc.prems(1,2)] by blast
    have wf1: "ring_wf (ep_sent e1)" using e1(2) by (simp add: marks_def)
    have "?s \<notin> set ?l"
    proof
      assume "?s \<in> set ?l"
      then obtain k where k: "k \<in> set [Suc i..<Suc i + n]" "ack - of_nat i = (ack - of_nat k :: u16)"
        unfolding set_map set_filter by (elim imageE CollectE conjE) (rule that)
      from k(1) have "i < k" "k < 65536" using Suc.prems(3) by auto
      with sub_of_nat_inj [OF k(2)] show False by simp
    qed
    then have "unacked e1 s = unacked e s" if "s \<in> set ?l" for s
      using marks_unacked [OF e1(2), of s] that by (metis (full_types) empty_iff singletonD)
    then have same: "filter (unacked e1) ?l = filter (unacked e) ?l" by (intro filter_cong refl)
    obtain e2 where e2: "processACKs_loop ack_cb ack n (Suc i) (drop_bit 1 bits) e1 = Some e2"
      "marks (set (filter (unacked e) ?l)) e1 e2" "state (?l1 @ filter (unacked e) ?l) e2"
    proof -
      have "Suc i + n \<le> 65536" using Suc.prems(3) by simp
      from Suc.IH [OF wf1 e1(3) this, of "drop_bit 1 bits"] show ?thesis
        unfolding Let_def shift same using that by blast
    qed
    have l: "filter (unacked e) (map (\<lambda>k. ack - of_nat k) (filter (\<lambda>k. bit bits (k - i)) [i..<i + Suc n])) =
        (if unacked e ?s then [?s] else []) @ filter (unacked e) ?l"
      unfolding upt using True by simp
    have "marks (set ((if unacked e ?s then [?s] else []) @ filter (unacked e) ?l)) e e2"
      using marks_trans [OF e1(2) e2(2)] by (simp split: if_splits)
    then show ?thesis unfolding l Let_def
      using True e1 e2 by (simp add: test)
  qed
qed

lemma processACKs_marks_named:
  assumes "ring_wf (ep_sent e)" and "state [] e"
  obtains e' where "processACKs ack_cb ack bits e = Some e'"
    "marks (set (filter (unacked e) (named ack bits))) e e'"
    "state (filter (unacked e) (named ack bits)) e'"
  using processACKs_loop_marks [OF assms, of 0 32 ack bits]
  by (auto simp: processACKs_def named_def Let_def)

end

interpretation logging: acking log_ACK "\<lambda>l e. ep_disp e = d @ l" for d
  by unfold_locales (simp_all add: log_ACK_def)

text \<open>
  \<open>processACKs\<close> marks exactly the named packets that were waiting, and calls \<open>ACK\<close> once for
  each of them, in the order of the bits.
\<close>

lemma processACKs_log:
  assumes "ring_wf (ep_sent e)"
  obtains e' where "processACKs log_ACK ack bits e = Some e'"
    "marks (set (filter (unacked e) (named ack bits))) e e'"
    "ep_disp e' = ep_disp e @ filter (unacked e) (named ack bits)"
  using logging.processACKs_marks_named [OF assms, of "ep_disp e" ack bits] by auto

text \<open>The numbers named by \<open>NextACK\<close> are those stored in the last 32 before the newest.\<close>

lemma NextACK_named:
  assumes "ring_wf r" and "NextACK r = Some (ack, bits)"
  shows "s \<in> set (named ack bits) \<longleftrightarrow> stored r s \<and> age r s < 32"
proof -
  have ack: "ack = latest (ring_buf r) - 1"
    and bits: "\<And>n. bit bits n \<longleftrightarrow> n < 32 \<and> stored r (latest (ring_buf r) - 1 - of_nat n)"
    using NextACK_eq [OF assms(1)] assms(2) by auto
  show ?thesis
  proof
    assume "s \<in> set (named ack bits)"
    then obtain k where k: "k < 32" "s = ack - of_nat k" "bit bits k" by (auto simp: named_def)
    then have "age r s = k" by (simp add: age_def ack unat_of_nat_u16)
    then show "stored r s \<and> age r s < 32" using k bits by (simp add: ack)
  next
    assume s: "stored r s \<and> age r s < 32"
    let ?k = "age r s"
    have "s = ack - of_nat ?k" by (simp add: age_def ack)
    moreover have "bit bits ?k" using s bits [of ?k] by (simp add: age_def)
    ultimately show "s \<in> set (named ack bits)" using s unfolding named_def by auto
  qed
qed

end
