(* ===== verification/WireProperties.thy ===== *)
theory WireProperties
  imports Acks
begin

text \<open>
  What the lower layers guarantee: the order of sequence numbers, the two headers on the wire,
  the bitset of received fragments and the sequence-indexed buffers. Every theorem here is a
  claim about the code, followed by an instance at concrete values where it has hypotheses.
\<close>

section \<open>Headers\<close>

context library
begin

lemma header_codec: "codec (PacketHeader_AppendTo lib) (UnmarshalPacketHeader lib)"
  by (rule header.codec_axioms)

lemma fragment_codec: "codec (FragmentHeader_AppendTo lib) (UnmarshalFragmentHeader lib)"
  by (rule fragment.codec_axioms)

end

text \<open>
  C16. A packet header that is appended to any buffer and followed by any bytes is decoded to
  itself and leaves exactly those bytes, for every header: the acknowledgement as a one-byte
  distance or in full, and every combination of elided bitset bytes.
\<close>

theorem PacketHeader_encode_decode:
  assumes "lib_ok lib"
  shows "UnmarshalPacketHeader lib (drop (length dst) (PacketHeader_AppendTo lib p dst) @ rest) =
    Some (Inr (p, rest))"
  by (rule codec.decode_after [OF library.header_codec [OF library.intro [OF assms]]])

lemma PacketHeader_encode_decode_witness:
  "UnmarshalPacketHeader be_lib (drop (length [7 :: u8]) (PacketHeader_AppendTo be_lib
      \<lparr>ph_seq = 3, ph_ack = 65535, ph_acks = 0xFFFF00FF\<rparr> [7]) @ [1, 2]) =
    Some (Inr (\<lparr>ph_seq = 3, ph_ack = 65535, ph_acks = 0xFFFF00FF\<rparr>, [1, 2]))"
  by (rule PacketHeader_encode_decode [OF be_lib_ok])

text \<open>
  C26. Decoding a packet header never panics, whatever the bytes: it reports an unexpected end
  of input, or consumes a prefix of at least four and at most nine bytes.
\<close>

theorem UnmarshalPacketHeader_bounds:
  "case UnmarshalPacketHeader lib buf of
     None \<Rightarrow> False
   | Some (Inl err) \<Rightarrow> err = ErrUnexpectedEOF
   | Some (Inr (p, rest)) \<Rightarrow>
       rest = drop (length buf - length rest) buf \<and> length rest + 4 \<le> length buf \<and>
       length buf \<le> length rest + MaxPacketHeaderSize"
proof (cases lib buf rule: UnmarshalPacketHeader_cases)
  case (error err)
  moreover have "err = ErrUnexpectedEOF"
    using error by (auto simp: UnmarshalPacketHeader_def Let_def split: if_splits Option.bind_splits sum.splits)
  ultimately show ?thesis by simp
next
  case (ok p c rest)
  then show ?thesis by simp
qed

text \<open>A fragment header is decoded to itself, with the bytes after it left over.\<close>

theorem FragmentHeader_encode_decode:
  assumes "lib_ok lib"
  shows "UnmarshalFragmentHeader lib (drop (length dst) (FragmentHeader_AppendTo lib h dst) @ rest) =
    Some (Inr (h, rest))"
  by (rule codec.decode_after [OF library.fragment_codec [OF library.intro [OF assms]]])

lemma FragmentHeader_encode_decode_witness:
  "UnmarshalFragmentHeader be_lib (drop (length [9 :: u8]) (FragmentHeader_AppendTo be_lib
      \<lparr>fh_seq = 65535, fh_id = 3, fh_total = 200\<rparr> [9]) @ [4]) =
    Some (Inr (\<lparr>fh_seq = 65535, fh_id = 3, fh_total = 200\<rparr>, [4]))"
  by (rule FragmentHeader_encode_decode [OF be_lib_ok])

text \<open>
  What the start of \<open>recvFragmentedPacket\<close> lets through: it never panics, and an accepted
  fragment has an index within its announced count, a count within the configured maximum and
  its data behind the five header bytes of the datagram.
\<close>

theorem decode_fragment_accepts:
  "case decode_fragment lib c buf of
     None \<Rightarrow> False
   | Some (Inl err) \<Rightarrow> True
   | Some (Inr (h, phb, data)) \<Rightarrow> fh_id h \<le> fh_total h \<and> unat (fh_total h) < MaxFragments c \<and>
       length data + FragmentHeaderSize \<le> length buf"
  by (cases rule: decode_fragment_cases [of lib c buf]) simp_all

text \<open>
  C27. \<open>MarkReceived\<close> on the four 64-bit words is insertion into a set of fragment indices: it
  reports an index that is already there and changes nothing else otherwise.
\<close>

theorem MarkReceived_inserts:
  assumes "fragment_wf f"
  shows "case MarkReceived f i of
     None \<Rightarrow> False
   | Some (Inl err) \<Rightarrow> i \<in> marked_set f \<and> err = ErrAlreadyReceived i
   | Some (Inr f') \<Rightarrow> i \<notin> marked_set f \<and> marked_set f' = insert i (marked_set f) \<and>
       f' = f\<lparr>fr_marked := fr_marked f'\<rparr>"
  by (cases rule: MarkReceived_cases [OF assms, of i]) auto

lemma MarkReceived_inserts_witness:
  "case MarkReceived zero_Fragment 200 of
     None \<Rightarrow> False
   | Some (Inl err) \<Rightarrow> 200 \<in> marked_set zero_Fragment \<and> err = ErrAlreadyReceived 200
   | Some (Inr f') \<Rightarrow> 200 \<notin> marked_set zero_Fragment \<and>
       marked_set f' = insert 200 (marked_set zero_Fragment) \<and>
       f' = zero_Fragment\<lparr>fr_marked := fr_marked f'\<rparr>"
  by (rule MarkReceived_inserts [OF zero_Fragment_wf])

section \<open>Sequence numbers\<close>

text \<open>
  The comparison of sequence numbers is total and antisymmetric on the circle, including
  the two opposite numbers: \<open>a\<close> is greater than \<open>b\<close> when it is less than half the circle
  ahead, and at exactly half the larger word is the greater one.
\<close>

theorem seq_order:
  "seqGreaterThan a b = (a \<noteq> b \<and> \<not> seqGreaterThan b a) \<and>
   seqGreaterThan a b = (0 < unat (a - b) \<and> (unat (a - b) < 32768 \<or> unat (a - b) = 32768 \<and> b < a)) \<and>
   seqLessThan a b = seqGreaterThan b a \<and> seqLTE a b = (\<not> seqGreaterThan a b)"
  using seqGreaterThan_asym [of a b] seqGreaterThan_total [of a b] seqGreaterThan_irrefl [of a]
  by (auto simp: seqLessThan_def seqLTE_def seqGreaterThan_iff)

section \<open>The sequence-indexed buffers\<close>

text \<open>
  C18. Inserting a number into a buffer never panics. An outdated number changes nothing and
  gets a nil entry; any other number gets the entry that \<open>Find\<close> then returns for it, and
  \<open>latest\<close> moves forward to its successor or stays.
\<close>

theorem ring_insert_find:
  assumes "ring_wf r"
  shows "case ring_Insert r q of
     None \<Rightarrow> False
   | Some (r', None) \<Rightarrow> ring_IsOutdated r q \<and> r' = r
   | Some (r', Some i) \<Rightarrow> \<not> ring_IsOutdated r q \<and> ring_wf r' \<and> ring_Find r' q = Some (Some i) \<and>
       ring_entries r' = ring_entries r \<and>
       latest (ring_buf r') = (if seqGreaterThan (q + 1) (latest (ring_buf r)) then q + 1
         else latest (ring_buf r))"
  using assms assms
  by (cases rule: ring_Insert_cases [of r q])
    (auto simp: ring_Find_eq ring_wf_inserted stored_inserted latest_inserted advanced_def)

lemma ring_insert_find_witness:
  "case NewRecvPacketBuffer 4 of None \<Rightarrow> False | Some r \<Rightarrow>
   (case ring_Insert r 9 of
     None \<Rightarrow> False
   | Some (r', None) \<Rightarrow> ring_IsOutdated r 9 \<and> r' = r
   | Some (r', Some i) \<Rightarrow> \<not> ring_IsOutdated r 9 \<and> ring_wf r' \<and> ring_Find r' 9 = Some (Some i) \<and>
       ring_entries r' = ring_entries r \<and>
       latest (ring_buf r') = (if seqGreaterThan (9 + 1) (latest (ring_buf r)) then 9 + 1
         else latest (ring_buf r)))"
proof -
  obtain r where r: "NewRecvPacketBuffer 4 = Some r" by (simp add: buffer_defs ring_New_eq)
  then have "ring_wf r" by (auto simp: buffer_defs intro: ring_New_wf)
  from ring_insert_find [OF this, of 9] show ?thesis unfolding r by simp
qed

text \<open>
  C17. Sending in order never loses a packet too early: in a fresh buffer whose capacity \<open>c\<close>
  divides the number of sequence numbers, after \<open>n\<close> insertions in order, even past the
  wrap-around, \<open>Find\<close> knows exactly the last \<open>min n c\<close> numbers.
\<close>

theorem in_order_retention:
  assumes "NewSentPacketBuffer (of_nat c) = Some r" and "0 < c" and "c < 32768" and "c dvd 65536"
  shows "\<exists>r'. insert_run n r = Some r' \<and> latest (ring_buf r') = of_nat n \<and>
    (\<forall>t. SentPacketBuffer_Find r' t =
       Some (if age r' t < min n c then Some (slot r' t) else None))"
  using insert_run_retains [OF _ assms(2-4), of zero_SentPacket r n] assms(1)
  by (auto simp: buffer_defs ring_Find_eq)

lemma in_order_retention_witness:
  "\<exists>r r'. NewSentPacketBuffer 256 = Some r \<and> insert_run 70000 r = Some r' \<and>
    latest (ring_buf r') = 4464 \<and> SentPacketBuffer_Find r' 4463 = Some (Some 111) \<and>
    SentPacketBuffer_Find r' 4207 = Some None"
proof -
  obtain r where r: "NewSentPacketBuffer (of_nat 256) = Some r" by (simp add: buffer_defs ring_New_eq)
  then obtain r' where r': "insert_run 70000 r = Some r'" "latest (ring_buf r') = of_nat 70000"
    "\<And>t. SentPacketBuffer_Find r' t =
       Some (if age r' t < min 70000 256 then Some (slot r' t) else None)"
    using in_order_retention [OF r, of 70000] by auto
  have "length (ring_entries r) = 256" using r by (auto simp: buffer_defs ring_New_eq)
  then have "\<exists>q. ring_New zero_SentPacket (of_nat 256) = Some q \<and> q = r" using r by (simp add: buffer_defs)
  then have "length (ring_entries r') = 256"
    using insert_run_retains [of zero_SentPacket 256 r 70000] r'(1) by auto
  with r r' show ?thesis
    by (intro exI [of _ r] exI [of _ r']) (simp add: age_def slot_def)
qed

text \<open>
  \<open>NextACK\<close> announces the newest number minus one, and its bitset names exactly the
  numbers among the last 32 whose packets the buffer holds.
\<close>

theorem NextACK_announces:
  assumes "ring_wf r"
  shows "\<exists>bits. NextACK r = Some (latest (ring_buf r) - 1, bits) \<and>
    (\<forall>s. s \<in> set (named (latest (ring_buf r) - 1) bits) \<longleftrightarrow> stored r s \<and> age r s < 32)"
proof -
  obtain bits where "NextACK r = Some (latest (ring_buf r) - 1, bits)"
    using NextACK_eq [OF assms] by metis
  with NextACK_named [OF assms this] show ?thesis by blast
qed

lemma NextACK_announces_witness:
  "\<exists>r bits. NewRecvPacketBuffer 64 = Some r \<and> NextACK r = Some (65535, bits) \<and>
    (\<forall>s. s \<in> set (named 65535 bits) \<longleftrightarrow> stored r s \<and> age r s < 32)"
proof -
  obtain r where r: "NewRecvPacketBuffer 64 = Some r" by (simp add: buffer_defs ring_New_eq)
  then have "ring_wf r" "latest (ring_buf r) - 1 = 65535"
    by (auto simp: buffer_defs ring_New_eq ring_wf_def)
  with NextACK_announces [of r] r show ?thesis by auto
qed

text \<open>
  C39. \<open>RemoveRange\<close> reduces its bounds modulo the capacity plus one, the buffers index modulo
  the capacity. Once \<open>latest\<close> exceeds the capacity, an insertion that leaves one number out
  therefore empties the wrong slot: the packet before the gap, still inside the window, is
  forgotten, and the packet that falls out of the window stays.
\<close>

theorem gap_insert_forgets_live_packet:
  assumes wf: "ring_wf r" and cap: "length (ring_entries r) = c" "2 < c" "c < 16384"
    and l: "latest (ring_buf r) = of_nat l" "c < l" "l \<le> 2 * c"
    and st: "stored r (of_nat (l - 1))" "stored r (of_nat (l - c))"
  shows "\<exists>r'. ring_Insert r (of_nat (l + 1)) = Some (r', Some (slot r (of_nat (l + 1)))) \<and>
    latest (ring_buf r') = of_nat (l + 2) \<and> \<not> ring_IsOutdated r' (of_nat (l - 1)) \<and>
    ring_Find r' (of_nat (l - 1)) = Some None \<and>
    ring_Find r' (of_nat (l - c)) = Some (Some (slot r (of_nat (l - c))))"
proof -
  let ?q = "of_nat (l + 1) :: u16"
  have u: "unat (of_nat k :: u16) = k" if "k \<le> l + 2" for k
    using that l(3) cap(3) by (intro unat_of_nat_u16) simp
  have sl: "slot r (of_nat k) = k mod c" if "k \<le> l + 2" for k using u [OF that] cap(1) by (simp add: slot_def)
  have "(l + 2 - c) + c = l + 2" using l(2) by simp
  have seqs: "?q - (of_nat l - of_nat c) = of_nat (c + 1)"
    "of_nat (l - 1) - (of_nat (l + 2) - of_nat c) = (of_nat (c - 3) :: u16)"
    using l(2) cap(2) by (simp_all add: of_nat_diff)
  have cu: "unat (of_nat c :: u16) = c" "unat (of_nat (c + 1) :: u16) = c + 1"
    "unat (of_nat (c - 3) :: u16) = c - 3"
    using cap(3) by (intro unat_of_nat_u16; simp)+
  have adv: "advanced r ?q"
    using seqGreaterThan_add [of 2 "of_nat l"] by (simp add: advanced_def l(1) add.commute)
  have new: "\<not> ring_IsOutdated r ?q"
    unfolding ring_IsOutdated_def l(1) ring_cap_def cap(1)
    by (rule window_not_outdated) (use cu cap(3) seqs(1) in simp_all)
  let ?r = "inserted r ?q"
  have lat: "latest (ring_buf ?r) = of_nat (l + 2)" 
    using adv by (simp only: latest_inserted if_True) simp
  have "\<not> ring_IsOutdated ?r (of_nat (l - 1))"
    unfolding ring_IsOutdated_def lat ring_cap_def entries_inserted cap(1)
    by (rule window_not_outdated) (use cu cap(3) seqs(2) in simp_all)
  note cur = this
  have m: "l mod Suc c = l - Suc c" "(l + 1) mod Suc c = l - c" "(l - 1) mod c = l - Suc c"
    using l(2,3) cap(2) by (simp_all add: le_mod_geq)
  have w: "wiped r ?q i \<longleftrightarrow> i = l - Suc c" for i
    unfolding wiped_def in_removed_def l(1) cap(1) using adv l(2) m u [of l] u [of "l + 1"]
    by (auto simp: Let_def)
  have slots: "slot r (of_nat (l - 1)) = l - Suc c" "slot r (of_nat (l - c)) = (l - c) mod c"
    "slot r ?q = (l + 1) mod c"
    using sl [of "l - 1"] sl [of "l - c"] sl [of "l + 1"] m(3) by simp_all
  have lc: "(l - c) mod c = (if l = 2 * c then 0 else l - c)" using l(2,3) by auto
  have l1: "(l + 1) mod c = (if 2 * c \<le> l + 1 then l + 1 - 2 * c else l + 1 - c)"
    using l(2,3) cap(2) by (auto simp: le_mod_geq)
  have "(l + 1) mod c \<noteq> l - Suc c" "(l - c) mod c \<noteq> l - Suc c" "(l - c) mod c \<noteq> (l + 1) mod c"
    unfolding lc l1 using l(2,3) cap(2) by auto
  then have ne: "slot r (of_nat (l - 1)) \<noteq> slot r ?q" "slot r (of_nat (l - c)) \<noteq> slot r ?q"
    "slot r (of_nat (l - c)) \<noteq> l - Suc c" unfolding slots by simp_all
  have "\<not> stored ?r (of_nat (l - 1))"
    unfolding stored_inserted [OF wf] w using slots(1) ne(1) by metis
  moreover have "stored ?r (of_nat (l - c))"
    unfolding stored_inserted [OF wf] w using st(2) ne(2,3) by blast
  ultimately have "ring_Find ?r (of_nat (l - 1)) = Some None"
    "ring_Find ?r (of_nat (l - c)) = Some (Some (slot r (of_nat (l - c))))"
    using wf by (simp_all add: ring_Find_eq ring_wf_inserted)
  then show ?thesis
    using ring_Insert_eq [OF wf new] lat cur by blast
qed

lemma gap_insert_forgets_live_packet_witness:
  "\<exists>r0 r r'. NewRecvPacketBuffer 4 = Some r0 \<and> insert_run 5 r0 = Some r \<and>
    ring_Find r 4 = Some (Some 0) \<and> ring_Insert r 6 = Some (r', Some 2) \<and>
    ring_Find r' 4 = Some None \<and> ring_Find r' 1 = Some (Some 1)"
proof -
  obtain r0 where r0: "ring_New zero_RecvPacket (of_nat 4) = Some r0" by (simp add: ring_New_eq)
  obtain r where r: "insert_run 5 r0 = Some r" "ring_wf r" "latest (ring_buf r) = of_nat 5"
    "length (ring_entries r) = 4" "\<And>t. stored r t \<longleftrightarrow> age r t < 5 \<and> age r t < 4"
    using insert_run_retains [OF r0, of 5] by auto
  have st: "stored r (of_nat (5 - 1))" "stored r (of_nat (5 - 4))"
    unfolding r(5) using r(3) by (simp_all add: age_def)
  have sl: "slot r 4 = 0" "slot r 1 = 1" "slot r 6 = 2" using r(4) by (simp_all add: slot_def)
  obtain r' where "ring_Insert r 6 = Some (r', Some 2)" "ring_Find r' 4 = Some None"
    "ring_Find r' 1 = Some (Some 1)"
    using gap_insert_forgets_live_packet [OF r(2,4) _ _ r(3) _ _ st] sl by auto
  moreover have "ring_Find r 4 = Some (Some 0)" using r(2) st(1) sl by (simp add: ring_Find_eq)
  ultimately show ?thesis using r0 r(1) by (auto simp: buffer_defs)
qed

end
