(* ===== verification/Mock.thy ===== *)
theory Mock
  imports Receive
begin

text \<open>
  The dispatcher of the endpoint's own tests (\<open>MockDispatcher\<close> in \<open>endpoint_test.go\<close>): it
  records what is transmitted and what is delivered. It satisfies the contract, and the
  theorems about delivery observe the endpoint through it.
\<close>

record mock =
  mock_r :: "bytes list"
  mock_w :: "bytes list"

definition mock_Transmit :: "u16 \<Rightarrow> bytes \<Rightarrow> mock endpoint \<Rightarrow> mock endpoint option" where
  "mock_Transmit seq buf e =
     Some (e\<lparr>ep_disp := (ep_disp e)\<lparr>mock_w := mock_w (ep_disp e) @ [buf]\<rparr>\<rparr>)"

definition mock_Process :: "u16 \<Rightarrow> bytes \<Rightarrow> mock endpoint \<Rightarrow> mock endpoint option" where
  "mock_Process seq buf e =
     Some (e\<lparr>ep_disp := (ep_disp e)\<lparr>mock_r := mock_r (ep_disp e) @ [buf]\<rparr>\<rparr>)"

definition mock_ACK :: "u16 \<Rightarrow> mock endpoint \<Rightarrow> mock endpoint option" where
  "mock_ACK seq e = Some e"

definition mock_dispatcher :: "mock dispatcher" where
  "mock_dispatcher = \<lparr>Transmit = mock_Transmit, Process = mock_Process, ACK = mock_ACK\<rparr>"

lemma mock_dispatcher_simps [simp]:
  "Transmit mock_dispatcher = mock_Transmit"
  "Process mock_dispatcher = mock_Process"
  "ACK mock_dispatcher = mock_ACK"
  by (simp_all add: mock_dispatcher_def)

lemma endpoint_disp_pool_id:
  fixes e :: "mock endpoint"
  shows "e\<lparr>ep_disp := x, ep_pool := ep_pool e\<rparr> = e\<lparr>ep_disp := x\<rparr>"
  by (metis endpoint.surjective endpoint.update_convs(2) endpoint.update_convs(13))

text \<open>For every \<open>lib\<close> that satisfies its laws, the mock satisfies the dispatcher's contract.\<close>

sublocale library \<subseteq> mock: dispatching lib mock_dispatcher "\<lambda>_ _. True" "\<lambda>_. True"
proof
  fix e :: "mock endpoint" and q b
  show "\<exists>x k. Transmit mock_dispatcher (ep_seq e - 1) b e = Some (e\<lparr>ep_disp := x, ep_pool := k\<rparr>) \<and> True"
    unfolding mock_dispatcher_simps mock_Transmit_def using endpoint_disp_pool_id by metis
  show "\<exists>x k. Process mock_dispatcher q b e = Some (e\<lparr>ep_disp := x, ep_pool := k\<rparr>) \<and> True \<and> True"
    unfolding mock_dispatcher_simps mock_Process_def using endpoint_disp_pool_id by metis
  show "\<exists>e'. ACK mock_dispatcher q (marked q e) = Some e' \<and> ep_ok e' \<and> True \<and> True \<and>
      writes (marked q e) e'" if "ep_ok e"
    using that by (simp add: mock_ACK_def ep_ok_marked)
qed

lemma mock_transmit_all:
  "transmit_all mock_Transmit seq bs e =
     Some (e\<lparr>ep_disp := (ep_disp e)\<lparr>mock_w := mock_w (ep_disp e) @ bs\<rparr>\<rparr>)"
  by (induction bs arbitrary: e) (simp_all add: mock_Transmit_def)

lemma mock_process_ack_disp:
  "process_ack mock_ACK seq e = Some e' \<Longrightarrow> ep_disp e' = ep_disp e"
  by (auto simp: process_ack_def mock_ACK_def Let_def
      split: Option.bind_splits option.splits if_splits)

lemma mock_processACKs_disp:
  "processACKs_loop mock_ACK ack n i bits e = Some e' \<Longrightarrow> ep_disp e' = ep_disp e"
proof (induction n arbitrary: i bits e)
  case (Suc n)
  then show ?case
    by (auto split: if_splits Option.bind_splits dest: mock_process_ack_disp)
qed simp

context library
begin

text \<open>What a sender puts on the wire.\<close>

lemma mock_WritePacket:
  assumes "ep_ok e" and "length buf \<le> MaxPacketSize (ep_config e)"
  obtains e' where "WritePacket lib mock_Transmit buf e =
      Some (e', sum_list (map length (packet_datagrams lib e buf)))"
    "mock_w (ep_disp e') = mock_w (ep_disp e) @ packet_datagrams lib e buf"
    "ep_seq e' = ep_seq e + 1" "ep_ok e'" "mock_r (ep_disp e') = mock_r (ep_disp e)"
    "ep_sent e' = ep_sent (prepared e buf)" "ep_recv e' = ep_recv e" "ep_config e' = ep_config e"
proof -
  let ?e' = "(prepared e buf)\<lparr>ep_disp := (ep_disp e)
    \<lparr>mock_w := mock_w (ep_disp e) @ packet_datagrams lib e buf\<rparr>\<rparr>"
  have eq: "WritePacket lib mock_Transmit buf e =
      Some (?e', sum_list (map length (packet_datagrams lib e buf)))"
    using mock.WritePacket_eq [OF assms(1) _ assms(2)] by (simp add: mock_transmit_all Let_def)
  have "ep_ok (prepared e buf)" using assms(1) by (rule ep_ok_prepared)
  then have "ep_ok ?e'" by (simp add: ep_ok_def)
  with eq show ?thesis by (intro that [of ?e']) simp_all
qed

text \<open>What a receiver does with a compact packet.\<close>

lemma mock_recvCompact:
  assumes ok: "ep_ok e" and new: "\<not> ring_IsOutdated (ep_recv e) (ph_seq h)"
  obtains e' where "recvCompactPacket lib mock_dispatcher (PacketHeader_AppendTo lib h [] @ data) e =
      Some (e', None)"
    "mock_r (ep_disp e') = mock_r (ep_disp e) @ [data]" "ep_ok e'"
    "ep_config e' = ep_config e" "ep_assembler e' = ep_assembler e"
proof -
  let ?buf = "PacketHeader_AppendTo lib h [] @ data"
  have wf: "ring_wf (ep_recv e)" using ep_okD(4) [OF ok] .
  have good: "mock.good e" using ok by (simp add: mock.good_def)
  obtain e' err where e': "recvCompactPacket lib mock_dispatcher ?buf e = Some (e', err)"
    "mock.good e'" "ep_config e' = ep_config e" "ep_assembler e' = ep_assembler e"
    using mock.recvCompactPacket_ok [OF good, of ?buf] by auto
  have "err = None \<and> mock_r (ep_disp e') = mock_r (ep_disp e) @ [data]"
    using e'(1) wf new header.decode_encode [of h data]
    by (auto simp: recvCompactPacket_def buffer_defs ring_Insert_eq mock_Process_def ring_read_eq
        ring_write_eq processACKs_def dest!: mock_processACKs_disp split: Option.bind_splits)
  with e' show ?thesis by (intro that [of e']) (simp_all add: mock.good_def)
qed

end

end
