(* ===== verification/Delivery.thy ===== *)
theory Delivery
  imports Mock "HOL-Library.Multiset"
begin

text \<open>
  End-to-end delivery through the wire format: what one endpoint transmits for a packet,
  another endpoint delivers, once and unchanged. A fragmented packet is delivered when its
  fragments arrive in any order: the reassembly record is related to the set of fragments
  received so far, and every fragment adds its own index to that set.
\<close>

section \<open>The fragments of a packet\<close>

definition chunk :: "nat \<Rightarrow> bytes \<Rightarrow> nat \<Rightarrow> bytes" where
  "chunk fs data i = take fs (drop (i * fs) data)"

definition frag_header :: "packet_header \<Rightarrow> nat \<Rightarrow> nat \<Rightarrow> fragment_header" where
  "frag_header h n i = \<lparr>fh_seq = ph_seq h, fh_id = of_nat i, fh_total = of_nat (n - 1)\<rparr>"

definition frag :: "lib \<Rightarrow> packet_header \<Rightarrow> nat \<Rightarrow> nat \<Rightarrow> bytes \<Rightarrow> nat \<Rightarrow> bytes" where
  "frag lib h fs n data i = FragmentHeader_AppendTo lib (frag_header h n i) [] @
     (if i = 0 then PacketHeader_AppendTo lib h [] else []) @ chunk fs data i"

lemma fragments_eq_map:
  "fragments lib h \<lparr>fh_seq = ph_seq h, fh_id = x, fh_total = of_nat (n - 1)\<rparr> fs m fid (drop (fid * fs) data) =
   map (frag lib h fs n data) [fid..<fid + m]"
proof (induction m arbitrary: fid)
  case 0
  show ?case by simp
next
  case (Suc m)
  have "drop fs (drop (fid * fs) data) = drop (Suc fid * fs) data"
    by (simp add: drop_drop add.commute)
  then show ?case using Suc [of "Suc fid"]
    by (simp add: upt_rec [of fid] frag_def frag_header_def chunk_def del: drop_drop)
qed

lemma length_chunk: "length (chunk fs data i) = min (length data - i * fs) fs"
  by (simp add: chunk_def)

lemma nth_chunk:
  assumes "r < length (chunk fs data i)"
  shows "chunk fs data i ! r = data ! (i * fs + r)"
proof -
  have "r < fs" "i * fs \<le> length data" using assms by (auto simp: length_chunk)
  then show ?thesis by (simp add: chunk_def)
qed

lemma index_unique:
  fixes i j :: nat
  assumes "i * fs + r = j * fs + r'" and "r < fs" and "r' < fs"
  shows "i = j" and "r = r'"
proof -
  have "i = (i * fs + r) div fs" using assms(2) by simp
  also have "\<dots> = j" using assms(3) unfolding assms(1) by simp
  finally show "i = j" .
  with assms(1) show "r = r'" by simp
qed

text \<open>The number of fragments covers the data exactly.\<close>

lemma fragment_count_bounds:
  assumes "0 < fs" and "0 < length data" and "n = fragment_count fs (length data)"
  shows "(n - 1) * fs < length data" and "length data \<le> n * fs" and "0 < n"
proof -
  let ?l = "length data"
  have l: "?l = ?l div fs * fs + ?l mod fs" by simp
  have m: "?l mod fs < fs" using assms(1) by simp
  show "0 < n" using assms(2) unfolding assms(3) by (rule fragment_count_pos)
  have "?l \<le> fs + ?l div fs * fs" using l m by linarith
  then show "?l \<le> n * fs" using l by (auto simp: assms(3) fragment_count_def)
  show "(n - 1) * fs < ?l"
  proof (cases "?l mod fs = 0")
    case True
    then have "n = ?l div fs" by (simp add: assms(3) fragment_count_def)
    moreover obtain m where m: "n = Suc m" using \<open>0 < n\<close> by (cases n) simp_all
    ultimately have "?l div fs = Suc m" by simp
    then have "?l = Suc m * fs" using l True by (metis add_0_right)
    then show ?thesis unfolding m using assms(1) by simp
  next
    case False
    then have "n - 1 = ?l div fs" by (simp add: assms(3) fragment_count_def)
    moreover have "?l div fs * fs < ?l" using l False by linarith
    ultimately show ?thesis by simp
  qed
qed

section \<open>Partial reassembly\<close>

text \<open>
  The entry \<open>f\<close> after the fragments with index in \<open>S\<close> arrived: their data is in place, and the
  packet header too once fragment 0 arrived.
\<close>

definition partial :: "bytes \<Rightarrow> nat \<Rightarrow> nat \<Rightarrow> bytes \<Rightarrow> nat set \<Rightarrow> fragment \<Rightarrow> bool" where
  "partial H fs n data S f \<longleftrightarrow> fragment_wf f \<and> fr_total f = n \<and>
     marked_set f = of_nat ` S \<and> fr_recv f = card S \<and>
     (0 \<in> S \<longrightarrow> fr_headerSize f = length H) \<and>
     (n - 1 \<in> S \<longrightarrow> fr_packetSize f = length data) \<and>
     (\<exists>b. fr_buf f = Some b \<and> bb_len b = MaxPacketHeaderSize + n * fs \<and>
        bb_len b \<le> length (bb_mem b) \<and>
        (0 \<in> S \<longrightarrow> (\<forall>r < length H. bb_mem b ! (MaxPacketHeaderSize - length H + r) = H ! r)) \<and>
        (\<forall>i \<in> S. \<forall>r < length (chunk fs data i).
           bb_mem b ! (MaxPacketHeaderSize + i * fs + r) = data ! (i * fs + r)))"

lemma nth_bb_copy:
  assumes "bb_copy b lo src = Some b'" and "lo + length src \<le> bb_len b"
    and "bb_len b \<le> length (bb_mem b)" and "k < length (bb_mem b)"
  shows "bb_mem b' ! k = (if lo \<le> k \<and> k < lo + length src then src ! (k - lo) else bb_mem b ! k)"
proof -
  have b': "bb_mem b' = copy_at (take (bb_len b) (bb_mem b)) lo src @ drop (bb_len b) (bb_mem b)"
    using assms(1) by (auto simp: bb_copy_def split: if_splits)
  have len: "length (copy_at (take (bb_len b) (bb_mem b)) lo src) = bb_len b"
    using assms by simp
  show ?thesis
  proof (cases "k < bb_len b")
    case True
    then show ?thesis using assms len by (simp add: b' nth_append nth_copy_at)
  next
    case False
    then show ?thesis using assms len by (simp add: b' nth_append)
  qed
qed

lemma of_nat_u8_inj: "i < 256 \<Longrightarrow> j < 256 \<Longrightarrow> (of_nat i :: u8) = of_nat j \<Longrightarrow> i = j"
  by (metis unat_of_nat_u8)

text \<open>Storing fragment \<open>i\<close> adds \<open>i\<close> to the set.\<close>

lemma store_fragment_partial:
  assumes p: "partial H fs n data S f" and i: "i < n" "i \<notin> S" and S: "S \<subseteq> {..<n}"
    and n: "n \<le> 256" "length data \<le> n * fs" "(n - 1) * fs < length data"
    and H: "length H \<le> MaxPacketHeaderSize"
    and hdr: "fh_id h = of_nat i" "fh_total h = of_nat (n - 1)"
    and phb: "i = 0 \<Longrightarrow> phb = H" and fs: "0 < fs"
  obtains f' f'' where "MarkReceived f (fh_id h) = Some (Inr f')"
    "store_fragment fs h phb (chunk fs data i) f' = Some f''"
    "partial H fs n data (insert i S) f''"
proof -
  note pD = p [unfolded partial_def]
  have fwf: "fragment_wf f" using pD by blast
  have finS: "finite S" using S finite_subset by blast
  have new: "fh_id h \<notin> marked_set f"
  proof
    assume "fh_id h \<in> marked_set f"
    then obtain j where j: "j \<in> S" "(of_nat i :: u8) = of_nat j" using pD hdr by auto
    moreover have "j < 256" "i < 256" using j S i n by auto
    ultimately have "i = j" by (intro of_nat_u8_inj)
    with j i show False by simp
  qed
  obtain f' where f': "MarkReceived f (fh_id h) = Some (Inr f')" "fragment_wf f'"
    "marked_set f' = insert (fh_id h) (marked_set f)" "f' = f\<lparr>fr_marked := fr_marked f'\<rparr>"
    using new by (cases rule: MarkReceived_cases [OF fwf, of "fh_id h"]) auto
  have fld: "fr_buf f' = fr_buf f" "fr_total f' = fr_total f" "fr_recv f' = fr_recv f"
    "fr_headerSize f' = fr_headerSize f" "fr_packetSize f' = fr_packetSize f"
    by (subst f'(4), simp)+
  obtain b where b: "fr_buf f = Some b" "bb_len b = MaxPacketHeaderSize + n * fs"
    "bb_len b \<le> length (bb_mem b)"
    "0 \<in> S \<Longrightarrow> \<forall>r < length H. bb_mem b ! (MaxPacketHeaderSize - length H + r) = H ! r"
    "\<forall>i \<in> S. \<forall>r < length (chunk fs data i).
       bb_mem b ! (MaxPacketHeaderSize + i * fs + r) = data ! (i * fs + r)"
    using pD by blast
  have ids: "unat (fh_id h) = i" "unat (fh_total h) = n - 1"
    unfolding hdr using i n by (intro unat_of_nat_u8; simp)+
  have id0: "fh_id h = 0 \<longleftrightarrow> i = 0" using ids(1) by (metis unat_0 unat_eq_0)
  have idn: "fh_id h = fh_total h \<longleftrightarrow> i = n - 1" using ids by (metis word_unat_eq_iff)
  \<comment> \<open>the header bytes\<close>
  have lo: "MaxPacketHeaderSize - length H \<le> bb_len b" using b(2) by simp
  obtain b1 where b1: "(if i = 0 then bb_copy b (MaxPacketHeaderSize - length H) H else Some b) = Some b1"
    "bb_len b1 = bb_len b" "length (bb_mem b1) = length (bb_mem b)"
    using bb_copy_fits [OF b(3) lo, of H] by (cases "i = 0") auto
  have mem1: "bb_mem b1 ! k = (if i = 0 \<and> MaxPacketHeaderSize - length H \<le> k \<and> k < MaxPacketHeaderSize
      then H ! (k - (MaxPacketHeaderSize - length H)) else bb_mem b ! k)"
    if "k < length (bb_mem b)" for k
  proof (cases "i = 0")
    case True
    then have "bb_copy b (MaxPacketHeaderSize - length H) H = Some b1" using b1(1) by simp
    from nth_bb_copy [OF this _ b(3) that] True H b(2) show ?thesis by simp
  next
    case False
    then show ?thesis using b1(1) by simp
  qed
  \<comment> \<open>the data\<close>
  let ?c = "chunk fs data i" and ?lo = "MaxPacketHeaderSize + i * fs"
  have "Suc i * fs \<le> n * fs" using i by (intro mult_le_mono1) simp
  then have end2: "?lo + length ?c \<le> bb_len b1"
    using b1(2) b(2) by (simp add: length_chunk min_def)
  then have "?lo \<le> bb_len b1" by simp
  then obtain b2 where b2: "bb_copy b1 ?lo ?c = Some b2" "bb_len b2 = bb_len b1"
    "length (bb_mem b2) = length (bb_mem b1)"
    using bb_copy_fits [of b1 ?lo ?c] b1 b(3) by auto
  have mem2: "bb_mem b2 ! k = (if ?lo \<le> k \<and> k < ?lo + length ?c then ?c ! (k - ?lo) else bb_mem b1 ! k)"
    if "k < length (bb_mem b)" for k
    using nth_bb_copy [OF b2(1) end2] b1 b(3) that by simp
  define f1 where "f1 = (if fh_id h = 0 then f'\<lparr>fr_buf := Some b1, fr_headerSize := length H\<rparr> else f')"
  define f2 where "f2 = (if fh_id h = fh_total h
    then f1\<lparr>fr_packetSize := unat (fh_total h) * fs + length ?c\<rparr> else f1)"
  define f3 where "f3 = f2\<lparr>fr_buf := Some b2, fr_recv := fr_recv f2 + 1\<rparr>"
  have st: "store_fragment fs h phb ?c f' = Some f3"
  proof -
    have cc: "copy_count (take (bb_len b) (bb_mem b)) (MaxPacketHeaderSize - length H) H = length H"
      using b(2,3) H by (simp add: copy_count_def)
    have "(if fh_id h = 0 then do {
             b \<leftarrow> fr_buf f';
             if length phb > MaxPacketHeaderSize then None
             else do {
               let lo = MaxPacketHeaderSize - length phb;
               let n = copy_count (take (bb_len b) (bb_mem b)) lo phb;
               b \<leftarrow> bb_copy b lo phb;
               Some (f'\<lparr>fr_buf := Some b, fr_headerSize := n\<rparr>) } }
           else Some f') = Some f1"
      using b(1) b1(1) phb H by (cases "i = 0") (simp_all add: fld f1_def id0 Let_def cc)
    moreover have "fr_buf f2 = Some b1"
      using b1(1) b(1) id0 by (cases "i = 0"; cases "fh_id h = fh_total h")
        (simp_all add: f2_def f1_def fld)
    ultimately show ?thesis
      unfolding store_fragment_def using b2(1) by (simp add: f3_def ids(1) flip: f2_def)
  qed
  have f3: "fr_buf f3 = Some b2" "fr_recv f3 = fr_recv f + 1" "fr_total f3 = n"
    "fr_marked f3 = fr_marked f'"
    "fr_headerSize f3 = (if i = 0 then length H else fr_headerSize f)"
    "fr_packetSize f3 = (if i = n - 1 then (n - 1) * fs + length ?c else fr_packetSize f)"
    using pD by (auto simp: f3_def f2_def f1_def fld id0 idn ids(2))
  have hdr_mem: "bb_mem b2 ! (MaxPacketHeaderSize - length H + r) = H ! r"
    if "0 \<in> insert i S" and "r < length H" for r
  proof -
    have k: "MaxPacketHeaderSize - length H + r < MaxPacketHeaderSize" using H that(2) by simp
    then have "MaxPacketHeaderSize - length H + r < length (bb_mem b)" using b(2,3) by simp
    then show ?thesis using mem1 mem2 k that b(4) by (cases "i = 0") auto
  qed
  have data_mem: "bb_mem b2 ! (MaxPacketHeaderSize + j * fs + r) = data ! (j * fs + r)"
    if j: "j \<in> insert i S" and r: "r < length (chunk fs data j)" for j r
  proof -
    let ?k = "MaxPacketHeaderSize + j * fs + r"
    have jn: "j < n" using j i S by auto
    have rfs: "r < fs" using r by (simp add: length_chunk)
    have "Suc j * fs \<le> n * fs" using jn by (intro mult_le_mono1) simp
    then have k: "?k < length (bb_mem b)" using rfs b(2,3) by simp
    show ?thesis
    proof (cases "j = i")
      case True
      then show ?thesis using mem2 [OF k] r by (simp add: nth_chunk)
    next
      case False
      have "\<not> (?lo \<le> ?k \<and> ?k < ?lo + length ?c)"
      proof
        assume a: "?lo \<le> ?k \<and> ?k < ?lo + length ?c"
        moreover have "length ?c \<le> fs" by (simp add: length_chunk)
        ultimately have "i * fs \<le> j * fs + r" "j * fs + r < i * fs + fs" by linarith+
        then have "j * fs + r = i * fs + (j * fs + r - i * fs)" "j * fs + r - i * fs < fs"
          by linarith+
        from index_unique(1) [OF this(1) rfs this(2)] False show False by simp
      qed
      then have "bb_mem b2 ! ?k = bb_mem b ! ?k" using mem2 [OF k] mem1 [OF k] by auto
      also have "\<dots> = data ! (j * fs + r)" using b(5) j False r by blast
      finally show ?thesis .
    qed
  qed
  have size: "(n - 1) * fs + length (chunk fs data (n - 1)) = length data"
    using n(2,3) i(1) by (cases n) (auto simp: length_chunk min_def)
  have ms: "marked_set f3 = of_nat ` insert i S"
    using f'(3) pD by (simp add: marked_set_def f3(4) hdr)
  have "partial H fs n data (insert i S) f3"
    unfolding partial_def f3 ms
    using f'(2) pD b1 b2 b(2,3) size hdr_mem data_mem i(2) finS f3(4)
    by (auto simp: fragment_wf_def)
  then show ?thesis using that f'(1) st by blast
qed

text \<open>When every fragment is there, the packet is its header followed by its data.\<close>

lemma partial_complete:
  assumes p: "partial H fs n data {..<n} f" and n: "0 < n" "length data \<le> n * fs"
    and H: "length H \<le> MaxPacketHeaderSize" and fs: "0 < fs"
  obtains b where "fr_buf f = Some b" "fr_headerSize f = length H"
    "bb_slice b (MaxPacketHeaderSize - fr_headerSize f) (MaxPacketHeaderSize + fr_packetSize f) =
      Some (H @ data)"
proof -
  note pD = p [unfolded partial_def]
  obtain b where b: "fr_buf f = Some b" "bb_len b = MaxPacketHeaderSize + n * fs"
    "bb_len b \<le> length (bb_mem b)"
    "\<forall>r < length H. bb_mem b ! (MaxPacketHeaderSize - length H + r) = H ! r"
    "\<forall>i < n. \<forall>r < length (chunk fs data i).
       bb_mem b ! (MaxPacketHeaderSize + i * fs + r) = data ! (i * fs + r)"
    using pD n(1) by auto
  have sz: "fr_headerSize f = length H" "fr_packetSize f = length data" using pD n(1) by auto
  have data: "bb_mem b ! (MaxPacketHeaderSize + k) = data ! k" if "k < length data" for k
  proof -
    let ?i = "k div fs" and ?r = "k mod fs"
    have k: "k = ?i * fs + ?r" by simp
    have "?i < n" using that n(2) fs by (simp add: less_mult_imp_div_less)
    moreover have "?r < length (chunk fs data ?i)"
    proof -
      have "?r < length data - ?i * fs" using that k by arith
      then show ?thesis using fs by (simp add: length_chunk)
    qed
    ultimately have "bb_mem b ! (MaxPacketHeaderSize + ?i * fs + ?r) = data ! (?i * fs + ?r)"
      using b(5) by blast
    then show ?thesis by (simp add: add.assoc)
  qed
  have le: "MaxPacketHeaderSize + length data \<le> length (bb_mem b)" using b(2,3) n(2) by simp
  have "drop (MaxPacketHeaderSize - length H) (take (MaxPacketHeaderSize + length data) (bb_mem b)) = H @ data"
  proof (rule nth_equalityI)
    show "length (drop (MaxPacketHeaderSize - length H) (take (MaxPacketHeaderSize + length data) (bb_mem b)))
        = length (H @ data)" using le H by simp
    fix k assume "k < length (drop (MaxPacketHeaderSize - length H)
        (take (MaxPacketHeaderSize + length data) (bb_mem b)))"
    then have k: "k < length H + length data" using le H by simp
    show "drop (MaxPacketHeaderSize - length H) (take (MaxPacketHeaderSize + length data) (bb_mem b)) ! k =
        (H @ data) ! k"
    proof (cases "k < length H")
      case True
      then show ?thesis using b(4) le H by (simp add: nth_append)
    next
      case False
      then have "MaxPacketHeaderSize - length H + k = MaxPacketHeaderSize + (k - length H)"
        using H by simp
      then show ?thesis using data [of "k - length H"] False k le H by (simp add: nth_append)
    qed
  qed
  moreover have "MaxPacketHeaderSize - length H \<le> MaxPacketHeaderSize + length data" by simp
  ultimately show ?thesis using b(1) sz le by (intro that [of b]) (simp_all add: bb_slice_def)
qed

section \<open>Reading the fragments of a packet\<close>

text \<open>
  The state of a receiver that has read the fragments in \<open>S\<close> of the packet with number \<open>s\<close>,
  encoded packet header \<open>H\<close> and contents \<open>data\<close>.
\<close>

definition assembling ::
  "bytes \<Rightarrow> nat \<Rightarrow> nat \<Rightarrow> bytes \<Rightarrow> u16 \<Rightarrow> nat set \<Rightarrow> 'd endpoint \<Rightarrow> bool" where
  "assembling H fs n data s S e \<longleftrightarrow> ep_ok e \<and> FragmentSize (ep_config e) = fs \<and>
     (let a = ep_assembler e in
      if S = {} then \<not> stored a s \<and> \<not> ring_IsOutdated a s
      else stored a s \<and> partial H fs n data S (ring_entries a ! slot a s))"

lemma partial_start:
  assumes "n' = MaxPacketHeaderSize + n * fs" and "n' \<le> length m"
  shows "partial H fs n data {}
    (zero_Fragment\<lparr>fr_total := n, fr_buf := Some \<lparr>bb_len = n', bb_mem = m\<rparr>\<rparr>)"
proof -
  have "marked_set (zero_Fragment\<lparr>fr_total := n, fr_buf := Some \<lparr>bb_len = n', bb_mem = m\<rparr>\<rparr>) = {}"
    using marked_set_zero by (simp add: marked_set_def)
  then show ?thesis using assms
    by (simp add: partial_def) (simp add: zero_Fragment_def fragment_wf_def)
qed

context library
begin

lemma decode_frag:
  assumes "i < n" and "n \<le> 256" and "n \<le> MaxFragments c"
  shows "decode_fragment lib c (frag lib h fs n data i) = Some (Inr (frag_header h n i,
    if i = 0 then PacketHeader_AppendTo lib h [] else chunk fs data i, chunk fs data i))"
proof -
  have ids: "unat (of_nat i :: u8) = i" "unat (of_nat (n - 1) :: u8) = n - 1"
    using assms by (intro unat_of_nat_u8; simp)+
  have id0: "(of_nat i :: u8) = 0 \<longleftrightarrow> i = 0" using ids(1) by (metis unat_0 unat_eq_0)
  have "i \<le> n - 1" "n - 1 < MaxFragments c" using assms(1,3) by arith+
  then have "FragmentHeader_Validate (frag_header h n i) (MaxFragments c) = None"
    using ids by (simp add: FragmentHeader_Validate_None frag_header_def)
  moreover have "fh_id (frag_header h n i) = 0 \<longleftrightarrow> i = 0" "fh_seq (frag_header h n i) = ph_seq h"
    using id0 by (simp_all add: frag_header_def)
  ultimately show ?thesis
    by (cases "i = 0")
      (simp_all add: decode_fragment_def frag_def Let_def FragmentHeader_roundtrip PacketHeader_roundtrip)
qed

lemma ReadPacket_frag:
  "ReadPacket lib d (frag lib h fs n data i) e = recvFragmentedPacket lib d (frag lib h fs n data i) e"
  by (simp add: ReadPacket_def frag_def FragmentHeader_AppendTo_eq Toggled_def FlagFragment_def)

text \<open>Reading a fragment: the first one creates the entry of the packet.\<close>

lemma assembly_entry_frag:
  assumes a: "assembling H fs n data s S e" and h: "fh_seq h = s" "unat (fh_total h) + 1 = n"
  obtains a1 k where "assembly_entry lib h e =
      Some (e\<lparr>ep_assembler := a1, ep_pool := k\<rparr>, Inr (slot a1 s))"
    "assembler_ok fs a1" "stored a1 s" "partial H fs n data S (ring_entries a1 ! slot a1 s)"
proof -
  let ?a = "ep_assembler e"
  have ok: "ep_ok e" and fs: "FragmentSize (ep_config e) = fs"
    using a by (auto simp: assembling_def)
  note okD = ep_okD [OF ok, unfolded fs]
  show ?thesis
  proof (cases "S = {}")
    case False
    then have st: "stored ?a s" "partial H fs n data S (ring_entries ?a ! slot ?a s)"
      using a by (auto simp: assembling_def Let_def)
    with okD show ?thesis
      by (intro that [of "ep_pool e" ?a])
        (simp_all add: assembly_entry_def buffer_defs ring_Find_eq h)
  next
    case True
    then have new: "\<not> stored ?a s" "\<not> ring_IsOutdated ?a s"
      using a by (auto simp: assembling_def Let_def)
    define m where "m = MaxPacketHeaderSize + n * fs"
    define f where "f = zero_Fragment\<lparr>fr_total := n,
      fr_buf := Some \<lparr>bb_len = m, bb_mem = ExtendSlice lib (ep_pool e) m\<rparr>\<rparr>"
    define a1 where "a1 = (inserted ?a s)\<lparr>ring_entries := (ring_entries ?a) [slot ?a s := f]\<rparr>"
    have n: "0 < n" "n \<le> 256" using unat_u8_less [of "fh_total h"] h(2) by arith+
    then have "frag_ok fs f"
      unfolding f_def by (intro zero_frag_ok extend_length) (simp_all add: m_def)
    then have a1: "assembler_ok fs a1"
      unfolding a1_def using okD
      by (intro assembler_ok_write) (auto simp: stored_inserted intro: wf_intros)
    have st: "stored a1 s" unfolding a1_def using okD(5)
      by (metis entries_inserted slot_inserted stored_inserted stored_write)
    have sl: "slot a1 s = slot ?a s" by (simp add: a1_def slot_def)
    have "ring_entries a1 ! slot a1 s = f" using okD(5) by (simp add: sl) (simp add: a1_def)
    moreover have "partial H fs n data S f"
      unfolding f_def True by (intro partial_start extend_length) (simp add: m_def)
    moreover have "assembly_entry lib h e =
        Some (e\<lparr>ep_assembler := a1, ep_pool := Suc (ep_pool e)\<rparr>, Inr (slot a1 s))"
      using new okD(5) h fs
      by (simp add: assembly_entry_def buffer_defs ring_Find_eq ring_Insert_eq ring_read_eq
          ring_write_eq Fragment_Reset_def pool_Get_def sl)
        (simp add: a1_def f_def m_def zero_Fragment_def Let_def)
    ultimately show ?thesis using a1 st by (intro that [of "Suc (ep_pool e)" a1]) simp_all
  qed
qed

lemma recv_frag:
  fixes e :: "'d endpoint" and d :: "'d dispatcher" and h :: packet_header
  defines "H \<equiv> PacketHeader_AppendTo lib h []" and "s \<equiv> ph_seq h"
  assumes a: "assembling H fs n data s S e" and i: "i < n" "i \<notin> S" and S: "S \<subseteq> {..<n}"
    and n: "n = fragment_count fs (length data)" "n \<le> 256" "n \<le> MaxFragments (ep_config e)"
    and data: "0 < length data"
  obtains k a2 where "assembling H fs n data s (insert i S) (e\<lparr>ep_pool := k, ep_assembler := a2\<rparr>)"
    "recvFragmentedPacket lib d (frag lib h fs n data i) e =
      (if insert i S = {..<n} then do {
         (e', err) \<leftarrow> recvCompactPacket lib d (H @ data) (e\<lparr>ep_pool := k, ep_assembler := a2\<rparr>);
         ab \<leftarrow> FragmentReassemblyBuffer_Remove (ep_assembler e') s;
         Some (e'\<lparr>ep_assembler := ab\<rparr>, map_option (Wrap ''failed to recv reassembled packet'') err) }
       else Some (e\<lparr>ep_pool := k, ep_assembler := a2\<rparr>, None))"
proof -
  let ?h = "frag_header h n i" and ?c = "chunk fs data i"
  let ?phb = "if i = 0 then H else ?c"
  have ok: "ep_ok e" and fse: "FragmentSize (ep_config e) = fs"
    using a by (auto simp: assembling_def)
  note okD = ep_okD [OF ok, unfolded fse]
  have fs: "0 < fs" using okD(1) .
  have b: "(n - 1) * fs < length data" "length data \<le> n * fs" "0 < n"
    using fragment_count_bounds [OF fs data n(1)] by auto
  have Hlen: "length H \<le> MaxPacketHeaderSize" unfolding H_def by (rule length_PacketHeader)
  have dec: "decode_fragment lib (ep_config e) (frag lib h fs n data i) = Some (Inr (?h, ?phb, ?c))"
    unfolding H_def by (rule decode_frag [OF i(1) n(2,3)])
  have tot: "unat (fh_total ?h) = n - 1" and id: "unat (fh_id ?h) = i"
    using n(2) i(1) unat_of_nat_u8 [of "n - 1"] unat_of_nat_u8 [of i] by (simp_all add: frag_header_def)
  have tot': "unat (fh_total ?h) + 1 = n" using tot b(3) by simp
  have seq: "fh_seq ?h = s" by (simp add: frag_header_def s_def)
  obtain a1 k where ent: "assembly_entry lib ?h e =
      Some (e\<lparr>ep_assembler := a1, ep_pool := k\<rparr>, Inr (slot a1 s))"
    "assembler_ok fs a1" "stored a1 s" "partial H fs n data S (ring_entries a1 ! slot a1 s)"
    using assembly_entry_frag [OF a seq tot'] .
  define f where "f = ring_entries a1 ! slot a1 s"
  have wf: "ring_wf a1" using ent(2) by (simp add: assembler_ok_def)
  have sl: "slot a1 s < length (ring_entries a1)" using wf by simp
  have fok: "frag_ok fs f" using ent(2,3) by (simp add: assembler_ok_def f_def)
  have fp: "partial H fs n data S f" using ent(4) by (simp add: f_def)
  have ftot: "fr_total f = n" using fp by (simp add: partial_def)
  obtain f' f'' where m: "MarkReceived f (fh_id ?h) = Some (Inr f')"
    and st: "store_fragment fs ?h ?phb ?c f' = Some f''" and p2: "partial H fs n data (insert i S) f''"
    by (rule store_fragment_partial [OF fp i S n(2) b(2,1) Hlen, of ?h ?phb])
      (simp_all add: frag_header_def fs)
  have fwf: "fragment_wf f" using fp by (simp add: partial_def)
  have fok2: "frag_ok fs f''"
  proof -
    have "fh_id ?h \<notin> marked_set f \<and> fragment_wf f' \<and> f' = f\<lparr>fr_marked := fr_marked f'\<rparr> \<and>
        marked_set f' = insert (fh_id ?h) (marked_set f)"
      using m by (cases rule: MarkReceived_cases [OF fwf, of "fh_id ?h"]) auto
    moreover have "fh_id ?h \<le> fh_total ?h" using tot id i(1) by (simp add: word_le_nat_alt)
    moreover have "fh_id ?h = 0 \<Longrightarrow> length ?phb \<le> MaxPacketHeaderSize"
      using id Hlen by (metis unat_0)
    ultimately obtain g where "store_fragment fs ?h ?phb ?c f' = Some g" "frag_ok fs g"
      using store_fragment_ok [OF fok, of ?h f' ?phb ?c] tot' ftot fs
      by (metis length_chunk min.cobounded2)
    with st show ?thesis by simp
  qed
  define a2 where "a2 = a1\<lparr>ring_entries := (ring_entries a1) [slot a1 s := f'']\<rparr>"
  have a2: "assembler_ok fs a2"
    unfolding a2_def using ent(2,3) fok2 wf
    by (intro assembler_ok_write) (auto dest: stored_slot_inj)
  define e1 where "e1 = e\<lparr>ep_pool := k, ep_assembler := a2\<rparr>"
  have "ep_ok e1" using ok a2 by (simp add: ep_ok_def fse e1_def)
  moreover have "stored a2 s" "ring_entries a2 ! slot a2 s = f''"
    using ent(3) sl by (simp_all add: a2_def)
  ultimately have asm: "assembling H fs n data s (insert i S) e1"
    using p2 by (simp add: assembling_def e1_def fse)
  have recv: "fr_recv f'' = card (insert i S)" "fr_total f'' = n" using p2 by (simp_all add: partial_def)
  have full: "fr_recv f'' = fr_total f'' \<longleftrightarrow> insert i S = {..<n}"
  proof
    assume "fr_recv f'' = fr_total f''"
    then have "card (insert i S) = card {..<n}" by (simp add: recv)
    moreover have "insert i S \<subseteq> {..<n}" using S i by auto
    ultimately show "insert i S = {..<n}" by (intro card_subset_eq) simp_all
  qed (simp only: recv, simp)
  have "recvFragmentedPacket lib d (frag lib h fs n data i) e =
      (if insert i S = {..<n} then do {
         (e', err) \<leftarrow> recvCompactPacket lib d (H @ data) e1;
         ab \<leftarrow> FragmentReassemblyBuffer_Remove (ep_assembler e') s;
         Some (e'\<lparr>ep_assembler := ab\<rparr>, map_option (Wrap ''failed to recv reassembled packet'') err) }
       else Some (e1, None))"
  proof (cases "insert i S = {..<n}")
    case False
    then have nf: "fr_recv f'' \<noteq> fr_total f''" using full by simp
    with dec ent(1) sl tot' ftot m st fse show ?thesis
      by (simp add: False recvFragmentedPacket_def seq ring_read_eq ring_write_eq flip: f_def)
        (simp add: e1_def a2_def)
  next
    case True
    then have f2: "fr_recv f'' = fr_total f''" using full by simp
    obtain b where b: "fr_buf f'' = Some b" "fr_headerSize f'' = length H"
      "bb_slice b (MaxPacketHeaderSize - fr_headerSize f'') (MaxPacketHeaderSize + fr_packetSize f'') =
        Some (H @ data)"
      using partial_complete [OF p2 [unfolded True] b(3,2) Hlen fs] .
    have e1: "e\<lparr>ep_pool := k, ep_assembler := a1\<lparr>ring_entries := (ring_entries a1) [slot a1 s := f'']\<rparr>\<rparr> = e1"
      by (simp add: e1_def a2_def)
    from f2 b dec ent(1) sl tot' ftot m st fse Hlen show ?thesis
      by (simp add: True recvFragmentedPacket_def seq ring_read_eq ring_write_eq e1 flip: f_def)
  qed
  with asm show ?thesis using that [of a2 k] by (simp add: e1_def)
qed

end

section \<open>Reading a sequence of datagrams\<close>

text \<open>A caller that hands datagrams to \<open>ReadPacket\<close> one after the other, and the errors it gets.\<close>

fun read_all ::
  "lib \<Rightarrow> 'd dispatcher \<Rightarrow> bytes list \<Rightarrow> 'd endpoint \<Rightarrow> ('d endpoint \<times> go_error list) option" where
  "read_all lib d [] e = Some (e, [])"
| "read_all lib d (b # bs) e = do {
     (e, err) \<leftarrow> ReadPacket lib d b e;
     (e, errs) \<leftarrow> read_all lib d bs e;
     Some (e, case err of None \<Rightarrow> errs | Some x \<Rightarrow> x # errs) }"

lemma map_of_mset:
  "mset bs = image_mset f M \<Longrightarrow> \<exists>ids. mset ids = M \<and> bs = map f ids"
proof (induction bs arbitrary: M)
  case Nil
  then have "M = {#}" by (metis image_mset_is_empty_iff mset.simps(1))
  then show ?case by simp
next
  case (Cons b bs)
  then have "image_mset f M = mset bs + {#b#}" by simp
  then obtain M' a where M': "M = add_mset a M'" "f a = b" "image_mset f M' = mset bs"
    using msed_map_invR by (metis add_mset_add_single)
  with Cons.IH [of M'] obtain ids where "mset ids = M'" "bs = map f ids" by metis
  with M' show ?case by (intro exI [of _ "a # ids"]) simp
qed

context library
begin

lemma read_fragments:
  fixes h :: packet_header
  defines "H \<equiv> PacketHeader_AppendTo lib h []"
  assumes n: "n = fragment_count fs (length data)" "n \<le> 256" "n \<le> m" and data: "0 < length data"
  shows "assembling H fs n data (ph_seq h) S e \<Longrightarrow> distinct ids \<Longrightarrow> set ids \<inter> S = {} \<Longrightarrow>
    set ids \<union> S = {..<n} \<Longrightarrow> ids \<noteq> [] \<Longrightarrow> m = MaxFragments (ep_config e) \<Longrightarrow>
    \<not> ring_IsOutdated (ep_recv e) (ph_seq h) \<Longrightarrow>
    \<exists>e'. read_all lib mock_dispatcher (map (frag lib h fs n data) ids) e = Some (e', []) \<and>
      mock_r (ep_disp e') = mock_r (ep_disp e) @ [data] \<and> ep_ok e'"
proof (induction ids arbitrary: S e)
  case (Cons i ids)
  note a = Cons.prems(1)
  have i: "i < n" "i \<notin> S" and S: "S \<subseteq> {..<n}" using Cons.prems(3,4) by auto
  have m: "n \<le> MaxFragments (ep_config e)" using n(3) Cons.prems(6) by simp
  obtain k a2 where r: "assembling H fs n data (ph_seq h) (insert i S) (e\<lparr>ep_pool := k, ep_assembler := a2\<rparr>)"
    "recvFragmentedPacket lib mock_dispatcher (frag lib h fs n data i) e =
      (if insert i S = {..<n} then do {
         (e', err) \<leftarrow> recvCompactPacket lib mock_dispatcher (H @ data) (e\<lparr>ep_pool := k, ep_assembler := a2\<rparr>);
         ab \<leftarrow> FragmentReassemblyBuffer_Remove (ep_assembler e') (ph_seq h);
         Some (e'\<lparr>ep_assembler := ab\<rparr>, map_option (Wrap ''failed to recv reassembled packet'') err) }
       else Some (e\<lparr>ep_pool := k, ep_assembler := a2\<rparr>, None))"
    by (rule recv_frag [OF a [unfolded H_def] i S n(1,2) m data, of mock_dispatcher, folded H_def])
  let ?e1 = "e\<lparr>ep_pool := k, ep_assembler := a2\<rparr>"
  have ok1: "ep_ok ?e1" using r(1) by (simp add: assembling_def)
  show ?case
  proof (cases "insert i S = {..<n}")
    case False
    have "ids \<noteq> []"
    proof
      assume "ids = []"
      with False Cons.prems(4) show False by simp
    qed
    have "\<exists>e'. read_all lib mock_dispatcher (map (frag lib h fs n data) ids) ?e1 = Some (e', []) \<and>
      mock_r (ep_disp e') = mock_r (ep_disp ?e1) @ [data] \<and> ep_ok e'"
    proof (rule Cons.IH [OF r(1)])
      show "distinct ids" "set ids \<inter> insert i S = {}" "set ids \<union> insert i S = {..<n}"
        using Cons.prems(2,3,4) by auto
      show "ids \<noteq> []" by fact
      show "m = MaxFragments (ep_config ?e1)" using Cons.prems(6) by simp
      show "\<not> ring_IsOutdated (ep_recv ?e1) (ph_seq h)" using Cons.prems(7) by simp
    qed
    then show ?thesis using False r(2) by (auto simp: ReadPacket_frag)
  next
    case True
    have "x \<notin> set ids" for x
    proof
      assume x: "x \<in> set ids"
      then have "x \<in> insert i S" unfolding True Cons.prems(4) [symmetric] by simp
      moreover have "x \<noteq> i" "x \<notin> S" using x Cons.prems(2,3) by auto
      ultimately show False by simp
    qed
    then have "ids = []" by (cases ids) auto
    obtain e' where e': "recvCompactPacket lib mock_dispatcher (H @ data) ?e1 = Some (e', None)"
      "mock_r (ep_disp e') = mock_r (ep_disp ?e1) @ [data]" "ep_ok e'"
      "ep_config e' = ep_config ?e1" "ep_assembler e' = ep_assembler ?e1"
      unfolding H_def using mock_recvCompact [OF ok1, of h data] Cons.prems(7) by auto
    have "assembler_ok (FragmentSize (ep_config e)) a2" using ep_okD(6) [OF ok1] by simp
    then obtain a3 where a3: "FragmentReassemblyBuffer_Remove a2 (ph_seq h) = Some a3"
      "assembler_ok (FragmentSize (ep_config e)) a3"
      using Remove_assembler_ok by blast
    have "ep_ok (e'\<lparr>ep_assembler := a3\<rparr>)" using e' a3(2) by (simp add: ep_ok_def)
    with True \<open>ids = []\<close> r(2) e' a3(1) show ?thesis by (simp add: ReadPacket_frag)
  qed
qed simp

lemma ReadPacket_compact:
  "ReadPacket lib d (PacketHeader_AppendTo lib h [] @ data) e =
   recvCompactPacket lib d (PacketHeader_AppendTo lib h [] @ data) e"
proof -
  have "Toggled (header_flag_byte h) FlagFragment = False"
    by (simp add: header_flag_byte_def Let_def)
  then show ?thesis by (simp add: ReadPacket_def PacketHeader_AppendTo_eq)
qed

lemma packet_datagrams_frag:
  fixes e :: "mock endpoint"
  assumes "ep_ok e" and "\<not> length data \<le> FragmentAbove (ep_config e)"
  shows "packet_datagrams lib e data = map (frag lib (next_header e) (FragmentSize (ep_config e))
      (fragment_count (FragmentSize (ep_config e)) (length data)) data)
    [0..<fragment_count (FragmentSize (ep_config e)) (length data)]"
  using assms(2) mock.NextACK_next_header(2) [OF assms(1)]
    fragments_eq_map [of lib "next_header e" 0 "fragment_count (FragmentSize (ep_config e)) (length data)"
      "FragmentSize (ep_config e)" "fragment_count (FragmentSize (ep_config e)) (length data)" 0 data]
  by (simp add: packet_datagrams_def Let_def)

text \<open>
  Whatever one endpoint transmits for a packet, another endpoint with the same fragment size
  that gets these datagrams in any order hands the packet to its application, once.
\<close>

lemma packet_delivered:
  fixes a b :: "mock endpoint"
  assumes a: "ep_ok a" and b: "ep_ok b"
    and size: "length data \<le> MaxPacketSize (ep_config a)"
    and fs: "FragmentSize (ep_config b) = FragmentSize (ep_config a)"
    and count: "fragment_count (FragmentSize (ep_config a)) (length data) \<le> min 256 (MaxFragments (ep_config b))"
    and new: "\<not> ring_IsOutdated (ep_recv b) (ep_seq a)"
      "\<not> ring_IsOutdated (ep_assembler b) (ep_seq a)" "\<not> stored (ep_assembler b) (ep_seq a)"
    and W: "WritePacket lib mock_Transmit data a = Some (a', w)"
    and wire: "mset bs = mset (drop (length (mock_w (ep_disp a))) (mock_w (ep_disp a')))"
  shows "\<exists>b'. read_all lib mock_dispatcher bs b = Some (b', []) \<and>
    mock_r (ep_disp b') = mock_r (ep_disp b) @ [data] \<and> ep_ok b'"
proof -
  let ?h = "next_header a" and ?fs = "FragmentSize (ep_config a)"
  let ?n = "fragment_count ?fs (length data)"
  have seq: "ph_seq ?h = ep_seq a" by (rule mock.NextACK_next_header(2) [OF a])
  have bs: "mset bs = mset (packet_datagrams lib a data)"
  proof (rule mock_WritePacket [OF a size])
    fix e' assume "WritePacket lib mock_Transmit data a =
        Some (e', sum_list (map length (packet_datagrams lib a data)))"
      "mock_w (ep_disp e') = mock_w (ep_disp a) @ packet_datagrams lib a data"
    then show ?thesis using W wire by simp
  qed
  show ?thesis
  proof (cases "length data \<le> FragmentAbove (ep_config a)")
    case True
    then have "bs = [PacketHeader_AppendTo lib ?h [] @ data]"
      using bs by (simp add: packet_datagrams_def Let_def)
    moreover obtain b' where "recvCompactPacket lib mock_dispatcher
        (PacketHeader_AppendTo lib ?h [] @ data) b = Some (b', None)"
      "mock_r (ep_disp b') = mock_r (ep_disp b) @ [data]" "ep_ok b'"
      using mock_recvCompact [OF b, of ?h data] new(1) seq by auto
    ultimately show ?thesis by (simp add: ReadPacket_compact)
  next
    case False
    have "mset bs = image_mset (frag lib ?h ?fs ?n data) (mset [0..<?n])"
      unfolding bs packet_datagrams_frag [OF a False] mset_map ..
    then obtain ids where ids: "mset ids = mset [0..<?n]" "bs = map (frag lib ?h ?fs ?n data) ids"
      using map_of_mset by blast
    have "distinct ids" using ids(1) by (metis distinct_upt mset_eq_imp_distinct_iff)
    moreover have set: "set ids = {..<?n}" using ids(1) by (metis atLeast_upt mset_eq_setD)
    moreover have data: "0 < length data" using False by linarith
    then have "0 < ?n" by (rule fragment_count_pos)
    then have "ids \<noteq> []" using set by (metis empty_iff empty_set lessThan_iff)
    moreover have "assembling (PacketHeader_AppendTo lib ?h []) ?fs ?n data (ph_seq ?h) {} b"
      using b fs new seq by (simp add: assembling_def)
    moreover have "?n \<le> 256" "?n \<le> MaxFragments (ep_config b)" using count by simp_all
    moreover have "\<not> ring_IsOutdated (ep_recv b) (ph_seq ?h)" using new(1) seq by simp
    moreover have "set ids \<inter> {} = {}" "set ids \<union> {} = {..<?n}" using set by simp_all
    ultimately show ?thesis unfolding ids(2) using data
      by (intro read_fragments [OF refl, where S = "{}" and m = "MaxFragments (ep_config b)"])
        (assumption | rule refl)+
  qed
qed

end

end
