(* ===== verification/Statistics.thy ===== *)
theory Statistics
  imports Receive
begin

text \<open>
  The statistics of an endpoint (\<open>Update\<close>, \<open>updateStatistics\<close> and the accessors of
  \<open>endpoint.go\<close>): packet loss and bandwidth, measured over the older half of the sent and the
  received window.
\<close>

section \<open>The measurement\<close>

text \<open>The three counters with their first and last time, e.g. \<open>written, startWriting, finishWriting\<close>.\<close>

record meter =
  m_bytes :: nat
  m_start :: float64
  m_finish :: float64

definition meter0 :: meter where
  "meter0 = \<lparr>m_bytes = 0, m_start = MaxFloat64, m_finish = Finite 0\<rparr>"

definition measure_entry :: "float64 \<Rightarrow> nat \<Rightarrow> meter \<Rightarrow> meter" where
  "measure_entry t sz m = (let
     m = m\<lparr>m_bytes := m_bytes m + sz\<rparr>;
     m = (if flt t (m_start m) then m\<lparr>m_start := t\<rparr> else m)
   in (if flt (m_finish m) t then m\<lparr>m_finish := t\<rparr> else m))"

text \<open>The loop over the sent entries: \<open>n\<close> iterations left, \<open>i\<close> the loop variable.\<close>

record sent_meter =
  dropped :: nat
  acked :: meter
  written :: meter

fun measure_sent ::
  "sent_packet_buffer \<Rightarrow> u16 \<Rightarrow> nat \<Rightarrow> nat \<Rightarrow> sent_meter \<Rightarrow> sent_meter option" where
  "measure_sent b base 0 i m = Some m"
| "measure_sent b base (Suc n) i m = do {
     entry \<leftarrow> SentPacketBuffer_Find b (base + of_nat i);
     case entry of None \<Rightarrow> measure_sent b base n (i + 1) m
     | Some k \<Rightarrow> do {
         p \<leftarrow> ring_read b k;
         let m = (if \<not> sp_acked p then m\<lparr>dropped := dropped m + 1\<rparr>
                  else m\<lparr>acked := measure_entry (sp_time p) (sp_size p) (acked m)\<rparr>);
         let m = m\<lparr>written := measure_entry (sp_time p) (sp_size p) (written m)\<rparr>;
         measure_sent b base n (i + 1) m } }"

fun measure_recv :: "recv_packet_buffer \<Rightarrow> u16 \<Rightarrow> nat \<Rightarrow> nat \<Rightarrow> meter \<Rightarrow> meter option" where
  "measure_recv b base 0 i m = Some m"
| "measure_recv b base (Suc n) i m = do {
     entry \<leftarrow> RecvPacketBuffer_Find b (base + of_nat i);
     case entry of None \<Rightarrow> measure_recv b base n (i + 1) m
     | Some k \<Rightarrow> do {
         p \<leftarrow> ring_read b k;
         measure_recv b base n (i + 1) (measure_entry (rp_time p) (rp_size p) m) } }"

section \<open>Smoothing\<close>

text \<open>
  The packet loss compares the endpoint's value with the new one. The three bandwidths compare
  the new value with itself: the source declares a local variable with the field's name and
  writes it on both sides.
\<close>

definition smooth_loss :: "config \<Rightarrow> float64 \<Rightarrow> float64 \<Rightarrow> float64" where
  "smooth_loss c old packetLoss =
     (if flt (round64 (1 / 100000)) (fabs (fsub old packetLoss))
      then fadd old (fmul (fsub packetLoss old) (PacketLossSmoothingFactor c)) else packetLoss)"

definition smooth_bandwidth :: "config \<Rightarrow> float64 \<Rightarrow> float64 \<Rightarrow> float64" where
  "smooth_bandwidth c old kbps =
     (if flt (round64 (1 / 100000)) (fabs (fsub kbps kbps))
      then fadd old (fmul (fsub kbps old) (BandwidthSmoothingFactor c)) else kbps)"

definition kbps :: "meter \<Rightarrow> float64" where
  "kbps m = fdiv (fmul (fdiv (f64_of_int (int (m_bytes m))) (fsub (m_finish m) (m_start m)))
     (Finite 8)) (Finite 1000)"

definition bandwidth :: "config \<Rightarrow> meter \<Rightarrow> float64 \<Rightarrow> float64" where
  "bandwidth c m old =
     (if \<not> feq (m_start m) MaxFloat64 \<and> \<not> feq (m_finish m) (Finite 0)
      then smooth_bandwidth c old (kbps m) else old)"

definition sample_base :: "'e ring \<Rightarrow> u16" where
  "sample_base r = (latest (ring_buf r) - ring_cap r + 1) + 0xFFFF"

definition updateStatistics :: "'d endpoint \<Rightarrow> 'd endpoint option" where
  "updateStatistics e = do {
     let c = ep_config e;
     let sentSamples = SentPacketBufferSize c div 2;
     let recvSamples = RecvPacketBufferSize c div 2;
     s \<leftarrow> measure_sent (ep_sent e) (sample_base (ep_sent e)) sentSamples 0
       \<lparr>dropped = 0, acked = meter0, written = meter0\<rparr>;
     received \<leftarrow> measure_recv (ep_recv e) (sample_base (ep_recv e)) recvSamples 0 meter0;
     let packetLoss = fmul (fdiv (f64_of_int (int (dropped s))) (f64_of_int (int sentSamples)))
       (Finite 100);
     Some (e\<lparr>
       ep_packetLoss := smooth_loss c (ep_packetLoss e) packetLoss,
       ep_sentBandwidthKbps := bandwidth c (written s) (ep_sentBandwidthKbps e),
       ep_receivedBandwidthKbps := bandwidth c received (ep_receivedBandwidthKbps e),
       ep_ackedBandwidthKbps := bandwidth c (acked s) (ep_ackedBandwidthKbps e)\<rparr>) }"

definition Update :: "float64 \<Rightarrow> 'd endpoint \<Rightarrow> 'd endpoint option" where
  "Update time e = updateStatistics (e\<lparr>ep_time := time\<rparr>)"

section \<open>Accessors\<close>

definition Next :: "'d endpoint \<Rightarrow> u16" where "Next e = ep_seq e"
definition RTT :: "'d endpoint \<Rightarrow> float64" where "RTT e = ep_rtt e"
definition PacketLoss :: "'d endpoint \<Rightarrow> float64" where "PacketLoss e = ep_packetLoss e"
definition Bandwidth :: "'d endpoint \<Rightarrow> float64 \<times> float64 \<times> float64" where
  "Bandwidth e = (ep_sentBandwidthKbps e, ep_receivedBandwidthKbps e, ep_ackedBandwidthKbps e)"

lemmas accessors = Next_def RTT_def PacketLoss_def Bandwidth_def

section \<open>What is measured\<close>

text \<open>The entries of the \<open>n\<close> oldest numbers that the window can hold, oldest number first.\<close>

definition samples :: "'e ring \<Rightarrow> nat \<Rightarrow> 'e list" where
  "samples r n = map (\<lambda>s. ring_entries r ! slot r s) (filter (stored r)
     (map (\<lambda>i. latest (ring_buf r) - of_nat (length (ring_entries r)) + of_nat i) [0..<n]))"

lemma sample_base_eq: "sample_base r = latest (ring_buf r) - of_nat (length (ring_entries r))"
  by (simp add: sample_base_def ring_cap_def)

lemma samples_eq:
  "samples r n = map (\<lambda>i. ring_entries r ! slot r (sample_base r + of_nat i))
     (filter (\<lambda>i. stored r (sample_base r + of_nat i)) [0..<n])"
  by (simp add: samples_def sample_base_eq filter_map comp_def)

lemma measure_recv_eq:
  assumes "ring_wf r"
  shows "measure_recv r base n i m = Some (fold (\<lambda>p. measure_entry (rp_time p) (rp_size p))
    (map (\<lambda>k. ring_entries r ! slot r (base + of_nat k))
      (filter (\<lambda>k. stored r (base + of_nat k)) [i..<i + n])) m)"
proof (induction n arbitrary: i m)
  case (Suc n)
  have "[i..<i + Suc n] = i # [Suc i..<Suc i + n]" by (simp add: upt_rec [of i])
  then show ?case using Suc.IH [of "i + 1"] assms
    by (simp add: buffer_defs ring_Find_eq ring_read_eq)
qed simp

definition measure_sent_entry :: "sent_packet \<Rightarrow> sent_meter \<Rightarrow> sent_meter" where
  "measure_sent_entry p m = (let
     m = (if \<not> sp_acked p then m\<lparr>dropped := dropped m + 1\<rparr>
          else m\<lparr>acked := measure_entry (sp_time p) (sp_size p) (acked m)\<rparr>)
   in m\<lparr>written := measure_entry (sp_time p) (sp_size p) (written m)\<rparr>)"

lemma measure_sent_eq:
  assumes "ring_wf r"
  shows "measure_sent r base n i m = Some (fold measure_sent_entry
    (map (\<lambda>k. ring_entries r ! slot r (base + of_nat k))
      (filter (\<lambda>k. stored r (base + of_nat k)) [i..<i + n])) m)"
proof (induction n arbitrary: i m)
  case (Suc n)
  have "[i..<i + Suc n] = i # [Suc i..<Suc i + n]" by (simp add: upt_rec [of i])
  then show ?case using Suc.IH [of "i + 1"] assms
    by (simp add: buffer_defs ring_Find_eq ring_read_eq measure_sent_entry_def Let_def)
qed simp

lemma measure_entry_bytes [simp]: "m_bytes (measure_entry t s m) = m_bytes m + s"
  by (simp add: measure_entry_def Let_def)

lemma fold_sent_entries:
  "dropped (fold measure_sent_entry ps m) = dropped m + length (filter (Not \<circ> sp_acked) ps)"
  "acked (fold measure_sent_entry ps m) =
     fold (\<lambda>p. measure_entry (sp_time p) (sp_size p)) (filter sp_acked ps) (acked m)"
  "written (fold measure_sent_entry ps m) =
     fold (\<lambda>p. measure_entry (sp_time p) (sp_size p)) ps (written m)"
  by (induction ps arbitrary: m) (simp_all add: measure_sent_entry_def Let_def)

text \<open>The bytes, the first and the last time of the measured entries.\<close>

lemma fold_measure_bytes:
  "m_bytes (fold (\<lambda>p. measure_entry (t p) (s p)) ps m) = m_bytes m + sum_list (map s ps)"
  by (induction ps arbitrary: m) simp_all

text \<open>No value is ever smoothed into a bandwidth.\<close>

lemma smooth_bandwidth_eq [simp]: "smooth_bandwidth c old k = k"
proof -
  have "round64 (1 / 100000) = Finite (5902958103587057 / 590295810358705651712)" by code_simp
  then show ?thesis by (simp add: smooth_bandwidth_def)
qed

text \<open>The first and the last time of the measured entries.\<close>

lemma fold_measure_times:
  assumes "\<And>p. p \<in> set ps \<Longrightarrow> t p = Finite (q p)"
    and "m_start m = Finite a" and "m_finish m = Finite b"
  shows "m_start (fold (\<lambda>p. measure_entry (t p) (s p)) ps m) = Finite (fold min (map q ps) a)"
    and "m_finish (fold (\<lambda>p. measure_entry (t p) (s p)) ps m) = Finite (fold max (map q ps) b)"
  using assms
  by (induction ps arbitrary: m a b)
    (auto simp: measure_entry_def Let_def min_def max_def)

section \<open>The statistics in closed form\<close>

text \<open>The meter over a list of entries, and the bandwidth it gives.\<close>

definition meter_of :: "('p \<Rightarrow> float64) \<Rightarrow> ('p \<Rightarrow> nat) \<Rightarrow> 'p list \<Rightarrow> meter" where
  "meter_of t s ps = fold (\<lambda>p. measure_entry (t p) (s p)) ps meter0"

definition rate :: "meter \<Rightarrow> float64 \<Rightarrow> float64" where
  "rate m old = (if \<not> feq (m_start m) MaxFloat64 \<and> \<not> feq (m_finish m) (Finite 0) then kbps m else old)"

definition loss_percentage :: "sent_packet list \<Rightarrow> nat \<Rightarrow> float64" where
  "loss_percentage ps n = fmul (fdiv (f64_of_int (int (length (filter (Not \<circ> sp_acked) ps))))
     (f64_of_int (int n))) (Finite 100)"

lemma bandwidth_rate: "bandwidth c m old = rate m old"
  by (simp add: bandwidth_def rate_def)

lemma updateStatistics_eq:
  assumes "ring_wf (ep_sent e)" and "ring_wf (ep_recv e)"
  shows "updateStatistics e = Some (let c = ep_config e;
       ps = samples (ep_sent e) (SentPacketBufferSize c div 2);
       rs = samples (ep_recv e) (RecvPacketBufferSize c div 2) in
     e\<lparr>ep_packetLoss := smooth_loss c (ep_packetLoss e) (loss_percentage ps (SentPacketBufferSize c div 2)),
       ep_sentBandwidthKbps := rate (meter_of sp_time sp_size ps) (ep_sentBandwidthKbps e),
       ep_receivedBandwidthKbps := rate (meter_of rp_time rp_size rs) (ep_receivedBandwidthKbps e),
       ep_ackedBandwidthKbps := rate (meter_of sp_time sp_size (filter sp_acked ps))
         (ep_ackedBandwidthKbps e)\<rparr>)"
  using assms
  by (simp add: updateStatistics_def measure_sent_eq measure_recv_eq fold_sent_entries
      samples_eq meter_of_def bandwidth_rate loss_percentage_def Let_def)

text \<open>
  What the rates are: the bytes of the packets, by the time from the first to the last of them,
  times 8, by 1000, every operation rounded; without packets the old rate stays.
\<close>

fun seconds :: "float64 \<Rightarrow> rat" where
  "seconds (Finite q) = q"
| "seconds _ = 0"

definition sane_time :: "float64 \<Rightarrow> bool" where
  "sane_time t \<longleftrightarrow> t = Finite (seconds t) \<and> 0 < seconds t \<and> seconds t < max_float64"

definition kbps_of :: "(float64 \<times> nat) list \<Rightarrow> float64 \<Rightarrow> float64" where
  "kbps_of ps old = (if ps = [] then old else
     fdiv (fmul (fdiv (f64_of_int (\<Sum>(t, s)\<leftarrow>ps. int s))
         (fsub (Finite (Max (seconds ` fst ` set ps))) (Finite (Min (seconds ` fst ` set ps)))))
       (Finite 8)) (Finite 1000))"

lemma fold_min_eq: "(\<And>x. x \<in> set xs \<Longrightarrow> x < a) \<Longrightarrow> xs \<noteq> [] \<Longrightarrow> fold min xs a = Min (set xs)"
  for a :: rat
proof (induction xs)
  case (Cons x xs)
  have "min x a = x" using Cons.prems(1) [of x] by simp
  then show ?case using Min.set_eq_fold [of x xs] by simp
qed simp

lemma fold_max_eq: "(\<And>x. x \<in> set xs \<Longrightarrow> a < x) \<Longrightarrow> xs \<noteq> [] \<Longrightarrow> fold max xs a = Max (set xs)"
  for a :: rat
proof (induction xs)
  case (Cons x xs)
  have "max x a = x" using Cons.prems(1) [of x] by simp
  then show ?case using Max.set_eq_fold [of x xs] by simp
qed simp

lemma rate_meter_of:
  assumes "\<And>p. p \<in> set ps \<Longrightarrow> sane_time (t p)"
  shows "rate (meter_of t s ps) old = kbps_of (map (\<lambda>p. (t p, s p)) ps) old"
proof (cases "ps = []")
  case True
  then show ?thesis by (simp add: rate_def meter_of_def meter0_def kbps_of_def MaxFloat64_def)
next
  case False
  let ?q = "\<lambda>p. seconds (t p)"
  have q: "t p = Finite (?q p)" "0 < ?q p" "?q p < max_float64" if "p \<in> set ps" for p
    using assms [OF that] by (simp_all add: sane_time_def)
  have m0: "m_start meter0 = Finite max_float64" "m_finish meter0 = Finite 0" "m_bytes meter0 = 0"
    by (simp_all add: meter0_def MaxFloat64_def)
  have x: "fold min (map ?q ps) max_float64 = Min (?q ` set ps)" "fold max (map ?q ps) 0 = Max (?q ` set ps)"
    using fold_min_eq [of "map ?q ps" max_float64] fold_max_eq [of "map ?q ps" 0] q(2,3) False by auto
  have m: "m_start (meter_of t s ps) = Finite (Min (?q ` set ps))"
    "m_finish (meter_of t s ps) = Finite (Max (?q ` set ps))"
    using fold_measure_times [where ps = ps and t = t and s = s and q = ?q, OF q(1) m0(1,2)] x
    by (simp_all add: meter_of_def)
  have "Min (?q ` set ps) \<in> ?q ` set ps" "Max (?q ` set ps) \<in> ?q ` set ps" using False by simp_all
  then have "Min (?q ` set ps) < max_float64" "0 < Max (?q ` set ps)" using q(2,3) by auto
  moreover have "int (m_bytes (meter_of t s ps)) = (\<Sum>p\<leftarrow>ps. int (s p))"
    by (induction ps) (simp_all add: meter_of_def fold_measure_bytes m0)
  ultimately show ?thesis
    using False m by (simp add: rate_def kbps_def kbps_of_def MaxFloat64_def image_image comp_def)
qed

lemma Update_eq:
  assumes "ep_ok e"
  shows "Update t e = Some (let c = ep_config e;
       ps = samples (ep_sent e) (SentPacketBufferSize c div 2);
       rs = samples (ep_recv e) (RecvPacketBufferSize c div 2) in
     e\<lparr>ep_time := t,
       ep_packetLoss := smooth_loss c (ep_packetLoss e) (loss_percentage ps (SentPacketBufferSize c div 2)),
       ep_sentBandwidthKbps := rate (meter_of sp_time sp_size ps) (ep_sentBandwidthKbps e),
       ep_receivedBandwidthKbps := rate (meter_of rp_time rp_size rs) (ep_receivedBandwidthKbps e),
       ep_ackedBandwidthKbps := rate (meter_of sp_time sp_size (filter sp_acked ps))
         (ep_ackedBandwidthKbps e)\<rparr>)"
proof -
  have "ep_ok (e\<lparr>ep_time := t\<rparr>)" using assms by (simp add: ep_ok_def)
  from updateStatistics_eq [OF ep_okD(2,4) [OF this]] show ?thesis by (simp add: Update_def Let_def)
qed

text \<open>\<open>Update\<close> changes the clock and the statistics only.\<close>

lemma Update_ok:
  assumes "ep_ok e"
  obtains e' where "Update t e = Some e'" "ep_ok e'" "ep_time e' = t" "ep_disp e' = ep_disp e"
    "ep_seq e' = ep_seq e" "ep_sent e' = ep_sent e" "ep_recv e' = ep_recv e"
    "ep_assembler e' = ep_assembler e" "ep_rtt e' = ep_rtt e" "ep_config e' = ep_config e"
    "ep_pool e' = ep_pool e"
proof -
  have "ep_ok (e\<lparr>ep_time := t\<rparr>)" using assms by (simp add: ep_ok_def)
  note wf = ep_okD(2,4) [OF this]
  from updateStatistics_eq [OF wf] obtain e' where "Update t e = Some e'"
    and "\<exists>a b c d. e' = e\<lparr>ep_time := t, ep_packetLoss := a, ep_sentBandwidthKbps := b,
      ep_receivedBandwidthKbps := c, ep_ackedBandwidthKbps := d\<rparr>"
    unfolding Update_def Let_def by auto
  then show ?thesis using assms by (intro that [of e']) (auto simp: ep_ok_def)
qed

end
