(* ===== verification/EndpointProperties.thy ===== *)
theory EndpointProperties
  imports Delivery Acks Statistics
begin

text \<open>
  What an endpoint guarantees, alone and together with its peer. Where a theorem observes the
  callbacks it does so through the mock dispatcher of the endpoint's own tests. Every theorem
  is a claim about the code, followed by an instance at concrete values.
\<close>

section \<open>Sending and delivering\<close>

text \<open>
  A new endpoint, default or configured with buffer sizes that are positive and below half
  of the circle after the truncation to 16 bits, satisfies the invariant of every operation,
  numbers its first packet 0 and holds no packet.
\<close>

theorem NewEndpoint_ready:
  assumes "config_ok (case c of None \<Rightarrow> NewConfig | Some c \<Rightarrow> c)"
  shows "case NewEndpoint d c of
     None \<Rightarrow> False
   | Some e \<Rightarrow> ep_ok e \<and> ep_disp e = d \<and> Next e = 0 \<and>
       (\<forall>s. \<not> stored (ep_sent e) s \<and> \<not> stored (ep_recv e) s \<and> \<not> stored (ep_assembler e) s)"
  by (rule NewEndpoint_ok [OF assms, of d]) (simp add: Next_def)

lemma NewEndpoint_ready_witness:
  "case NewEndpoint (0 :: nat) None of
     None \<Rightarrow> False
   | Some e \<Rightarrow> ep_ok e \<and> ep_disp e = 0 \<and> Next e = 0 \<and>
       (\<forall>s. \<not> stored (ep_sent e) s \<and> \<not> stored (ep_recv e) s \<and> \<not> stored (ep_assembler e) s)"
  by (rule NewEndpoint_ready) (simp add: NewConfig_ok)

text \<open>
  C3. \<open>WritePacket\<close> transmits exactly the datagrams of the reference description, a single one
  or the list of fragments, reports their total length, takes one sequence number and records
  the packet as sent and not yet acknowledged; a packet above the maximum size is refused and
  nothing changes.
\<close>

theorem WritePacket_transmits:
  assumes "lib_ok lib" and "ep_ok e"
  shows "case WritePacket lib mock_Transmit buf e of
     None \<Rightarrow> False
   | Some (e', w) \<Rightarrow>
       if length buf > MaxPacketSize (ep_config e) then e' = e \<and> w = 0
       else ep_ok e' \<and> ep_seq e' = ep_seq e + 1 \<and> w = sum_list (map length (packet_datagrams lib e buf)) \<and>
         mock_w (ep_disp e') = mock_w (ep_disp e) @ packet_datagrams lib e buf \<and>
         stored (ep_sent e') (ep_seq e) \<and> sent_entry e' (ep_seq e) = sent_record e buf"
proof (cases "length buf \<le> MaxPacketSize (ep_config e)")
  case False
  then show ?thesis by (simp add: WritePacket_def)
next
  case True
  have wf: "ring_wf (ep_sent e)" using ep_okD(2) [OF assms(2)] .
  have "stored (ep_sent (prepared e buf)) (ep_seq e)"
  proof -
    have "stored (inserted (ep_sent e) (ep_seq e)) (ep_seq e)" using wf by (simp add: stored_inserted)
    then show ?thesis by (simp add: prepared_def stored_def slot_def)
  qed
  moreover have "sent_entry (prepared e buf) (ep_seq e) = sent_record e buf"
    using slot_less [OF wf, of "ep_seq e"] by (simp add: sent_entry_def prepared_def slot_def)
  ultimately show ?thesis
    by (rule_tac library.mock_WritePacket [OF library.intro [OF assms(1)] assms(2) True])
      (use True in \<open>simp add: sent_entry_def\<close>)
qed

text \<open>
  C1. End to end: whatever one endpoint transmits for a packet, another endpoint with the same
  fragment size that gets these datagrams in any order returns no error and hands the packet
  to its application, unchanged and exactly once.
\<close>

theorem packet_delivered_any_order:
  fixes a b :: "mock endpoint"
  assumes "lib_ok lib" and "ep_ok a" and "ep_ok b"
    and "length data \<le> MaxPacketSize (ep_config a)"
    and "FragmentSize (ep_config b) = FragmentSize (ep_config a)"
    and "fragment_count (FragmentSize (ep_config a)) (length data) \<le> min 256 (MaxFragments (ep_config b))"
    and "\<not> ring_IsOutdated (ep_recv b) (ep_seq a)"
    and "\<not> ring_IsOutdated (ep_assembler b) (ep_seq a)" and "\<not> stored (ep_assembler b) (ep_seq a)"
    and "WritePacket lib mock_Transmit data a = Some (a', w)"
    and "mset bs = mset (drop (length (mock_w (ep_disp a))) (mock_w (ep_disp a')))"
  shows "\<exists>b'. read_all lib mock_dispatcher bs b = Some (b', []) \<and>
    mock_r (ep_disp b') = mock_r (ep_disp b) @ [data] \<and> ep_ok b'"
  by (rule library.packet_delivered [OF library.intro]) (fact assms)+

text \<open>A small configuration: 4-byte fragments, buffers of eight entries.\<close>

definition small_config :: config where
  "small_config = NewConfig\<lparr>FragmentAbove := 8, FragmentSize := 4, SentPacketBufferSize := 8,
     RecvPacketBufferSize := 8, FragmentReassemblyBufferSize := 8\<rparr>"

definition no_packets :: mock where "no_packets = \<lparr>mock_r = [], mock_w = []\<rparr>"

lemma small_config_ok: "config_ok small_config"
  by (simp add: config_ok_def small_config_def NewConfig_def)

definition small_endpoint :: "mock endpoint" where
  "small_endpoint = the (NewEndpoint no_packets (Some small_config))"

lemma small_endpoint:
  "ep_ok small_endpoint" "ep_disp small_endpoint = no_packets" "ep_seq small_endpoint = 0"
  "latest (ring_buf (ep_recv small_endpoint)) = 0" "ep_config small_endpoint = small_config" "\<not> ring_IsOutdated (ep_recv small_endpoint) 0"
  "\<not> ring_IsOutdated (ep_assembler small_endpoint) 0" "\<not> stored (ep_assembler small_endpoint) t"
proof -
  obtain e where e: "NewEndpoint no_packets (Some small_config) = Some e" "ep_ok e"
    "ep_disp e = no_packets" "ep_seq e = 0" "ep_config e = small_config"
    "latest (ring_buf (ep_recv e)) = 0" "\<And>t. \<not> stored (ep_assembler e) t"
    "latest (ring_buf (ep_assembler e)) = 0"
    by (rule NewEndpoint_ok [of "Some small_config" no_packets]) (simp_all add: small_config_ok)
  moreover have "small_endpoint = e" using e(1) by (simp add: small_endpoint_def)
  ultimately show "ep_ok small_endpoint" "ep_disp small_endpoint = no_packets"
    "ep_seq small_endpoint = 0" "latest (ring_buf (ep_recv small_endpoint)) = 0"
    "ep_config small_endpoint = small_config" "\<not> ring_IsOutdated (ep_recv small_endpoint) 0"
    "\<not> ring_IsOutdated (ep_assembler small_endpoint) 0" "\<not> stored (ep_assembler small_endpoint) t"
    using not_outdated_latest [OF ep_okD(4) [OF e(2)]] not_outdated_latest [OF ep_okD(5) [OF e(2)]]
    by simp_all
qed

lemma WritePacket_transmits_witness:
  "case WritePacket be_lib mock_Transmit [1, 2, 3] small_endpoint of
     None \<Rightarrow> False
   | Some (e', w) \<Rightarrow> ep_seq e' = 1 \<and> mock_w (ep_disp e') = packet_datagrams be_lib small_endpoint [1, 2, 3]"
  using WritePacket_transmits [OF be_lib_ok small_endpoint(1), of "[1, 2, 3]"] small_endpoint
  by (simp add: small_config_def NewConfig_def no_packets_def split: option.splits prod.splits)

lemma packet_delivered_any_order_witness:
  "\<exists>a' w b'. WritePacket be_lib mock_Transmit [1, 2, 3, 4, 5, 6, 7, 8, 9, 10] small_endpoint = Some (a', w) \<and>
     length (mock_w (ep_disp a')) = 3 \<and>
     read_all be_lib mock_dispatcher (rev (mock_w (ep_disp a'))) small_endpoint = Some (b', []) \<and>
     mock_r (ep_disp b') = [[1, 2, 3, 4, 5, 6, 7, 8, 9, 10]]"
proof -
  let ?d = "[1, 2, 3, 4, 5, 6, 7, 8, 9, 10] :: bytes"
  obtain a' w where W: "WritePacket be_lib mock_Transmit ?d small_endpoint = Some (a', w)"
    and out: "mock_w (ep_disp a') = packet_datagrams be_lib small_endpoint ?d"
    by (rule be.mock_WritePacket [OF small_endpoint(1), of ?d])
      (use small_endpoint in \<open>auto simp: small_config_def NewConfig_def no_packets_def\<close>)
  have "length (packet_datagrams be_lib small_endpoint ?d) = 3"
    by (simp add: packet_datagrams_def small_endpoint small_config_def NewConfig_def Let_def
        fragment_count_def)
  moreover obtain b' where "read_all be_lib mock_dispatcher (rev (mock_w (ep_disp a'))) small_endpoint =
      Some (b', [])" "mock_r (ep_disp b') = mock_r (ep_disp small_endpoint) @ [?d]"
    using packet_delivered_any_order [OF be_lib_ok small_endpoint(1,1) _ refl _ _ _ _ W,
        of "rev (mock_w (ep_disp a'))"]
      small_endpoint
    by (auto simp: small_config_def NewConfig_def no_packets_def fragment_count_def)
  ultimately show ?thesis using W out by (auto simp: small_endpoint no_packets_def)
qed

section \<open>Robustness of receiving\<close>

context library
begin

lemma mock_ReadPacket:
  fixes e :: "mock endpoint"
  assumes "ep_ok e" and "buf \<noteq> []" and "fits lib (ep_config e) buf"
  shows "\<exists>e' err. ReadPacket lib mock_dispatcher buf e = Some (e', err) \<and> ep_ok e' \<and>
    ep_config e' = ep_config e"
  using mock.ReadPacket_ok [of e buf] assms by (simp add: mock.good_def)

end

text \<open>
  C2. No datagram that is non-empty and whose fragment data fits the fragment size can make
  \<open>ReadPacket\<close> panic or break the invariant, whatever its other bytes are: it returns, with
  or without an error.
\<close>

theorem ReadPacket_safe:
  fixes e :: "mock endpoint"
  assumes "lib_ok lib" and "ep_ok e" and "buf \<noteq> []" and "fits lib (ep_config e) buf"
  shows "\<exists>e' err. ReadPacket lib mock_dispatcher buf e = Some (e', err) \<and> ep_ok e' \<and>
    ep_config e' = ep_config e"
  by (rule library.mock_ReadPacket [OF library.intro]) (fact assms)+

lemma ReadPacket_safe_witness:
  "\<exists>e' err. ReadPacket be_lib mock_dispatcher [1, 0, 9, 0, 200, 7] small_endpoint = Some (e', err) \<and>
    ep_ok e' \<and> ep_config e' = ep_config small_endpoint"
proof (rule ReadPacket_safe [OF be_lib_ok small_endpoint(1)])
  show "fits be_lib (ep_config small_endpoint) [1, 0, 9, 0, 200, 7]"
    by (intro fits_short)
      (simp add: small_endpoint small_config_def NewConfig_def FragmentHeaderSize_def)
qed simp

text \<open>An empty datagram makes \<open>ReadPacket\<close> panic: it reads the first byte unconditionally.\<close>

theorem ReadPacket_empty_panics: "ReadPacket lib d [] e = None"
  by (simp add: ReadPacket_def)

text \<open>
  C40. The length of a fragment's data is not checked. A single datagram that claims to be the
  only fragment of a new packet, and carries more bytes than the capacity of the reassembly
  buffer behind the header gap, makes \<open>ReadPacket\<close> panic.
\<close>

theorem oversized_fragment_panics:
  assumes lib: "lib_ok lib" and ok: "ep_ok e"
    and new: "\<not> stored (ep_assembler e) (ph_seq h)" "\<not> ring_IsOutdated (ep_assembler e) (ph_seq h)"
    and max: "0 < MaxFragments (ep_config e)"
    and size: "length (ExtendSlice lib (ep_pool e) (MaxPacketHeaderSize + FragmentSize (ep_config e)))
      < MaxPacketHeaderSize + length data"
  shows "ReadPacket lib d (FragmentHeader_AppendTo lib \<lparr>fh_seq = ph_seq h, fh_id = 0, fh_total = 0\<rparr> [] @
    PacketHeader_AppendTo lib h [] @ data) e = None"
proof -
  let ?h = "\<lparr>fh_seq = ph_seq h, fh_id = 0, fh_total = 0\<rparr>" and ?H = "PacketHeader_AppendTo lib h []"
  let ?b = "FragmentHeader_AppendTo lib ?h [] @ ?H @ data"
  let ?a = "ep_assembler e" and ?fs = "FragmentSize (ep_config e)" and ?s = "ph_seq h"
  define n where "n = MaxPacketHeaderSize + ?fs"
  define m where "m = ExtendSlice lib (ep_pool e) n"
  define f where "f = zero_Fragment\<lparr>fr_total := 1, fr_buf := Some \<lparr>bb_len = n, bb_mem = m\<rparr>\<rparr>"
  note L = library.intro [OF lib]
  note okD = ep_okD [OF ok]
  have nm: "n \<le> length m" unfolding m_def by (rule library.extend_length [OF L])
  have "FragmentHeader_Validate ?h (MaxFragments (ep_config e)) = None"
    using max unfolding FragmentHeader_Validate_None by simp
  then have dec: "decode_fragment lib (ep_config e) ?b = Some (Inr (?h, ?H, data))"
    by (simp add: decode_fragment_def Let_def library.FragmentHeader_roundtrip [OF L]
        library.PacketHeader_roundtrip [OF L])
  have read: "ReadPacket lib d ?b e = recvFragmentedPacket lib d ?b e"
    by (simp add: ReadPacket_def library.FragmentHeader_AppendTo_eq [OF L] Toggled_def FlagFragment_def)
  define a1 where "a1 = (inserted ?a ?s)\<lparr>ring_entries := (ring_entries ?a) [slot ?a ?s := f]\<rparr>"
  have sl: "slot a1 ?s = slot ?a ?s" by (simp add: a1_def slot_def)
  have ent: "assembly_entry lib ?h e =
      Some (e\<lparr>ep_assembler := a1, ep_pool := Suc (ep_pool e)\<rparr>, Inr (slot a1 ?s))"
    using new okD(5)
    by (simp add: assembly_entry_def buffer_defs ring_Find_eq ring_Insert_eq ring_read_eq
        ring_write_eq Fragment_Reset_def pool_Get_def sl)
      (simp add: a1_def f_def n_def m_def zero_Fragment_def Let_def)
  have i: "slot a1 ?s < length (ring_entries a1)" "ring_entries a1 ! slot a1 ?s = f"
    using okD(5) by (simp_all add: sl) (simp_all add: a1_def)
  have fwf: "fragment_wf f" by (simp add: f_def fragment_wf_def zero_Fragment_def)
  have "marked_set f = {}" using marked_set_zero by (simp add: marked_set_def f_def)
  then obtain f' where f': "MarkReceived f 0 = Some (Inr f')" "f' = f\<lparr>fr_marked := fr_marked f'\<rparr>"
    by (cases rule: MarkReceived_cases [OF fwf, of 0]) auto
  have fld: "fr_buf f' = Some \<lparr>bb_len = n, bb_mem = m\<rparr>" "fr_total f' = 1" "fr_recv f' = 0"
    by (subst f'(2), simp add: f_def zero_Fragment_def)+
  have H: "length ?H \<le> MaxPacketHeaderSize" by (rule library.length_PacketHeader [OF L])
  have le: "MaxPacketHeaderSize - length ?H \<le> n" by (simp add: n_def)
  obtain b1 where b1: "bb_copy \<lparr>bb_len = n, bb_mem = m\<rparr> (MaxPacketHeaderSize - length ?H) ?H = Some b1"
    "bb_len b1 = n" "length (bb_mem b1) = length m"
    using bb_copy_fits [of "\<lparr>bb_len = n, bb_mem = m\<rparr>" "MaxPacketHeaderSize - length ?H" ?H] nm le
    by auto
  obtain b2 where b2: "bb_copy b1 MaxPacketHeaderSize data = Some b2" "length (bb_mem b2) = length m"
    using bb_copy_fits [of b1 MaxPacketHeaderSize data] nm b1 by (auto simp: n_def)
  have hs: "copy_count (take n m) (MaxPacketHeaderSize - length ?H) ?H = length ?H"
    using nm H by (simp add: copy_count_def n_def)
  define f3 where "f3 = f'\<lparr>fr_buf := Some b2, fr_headerSize := length ?H,
    fr_packetSize := length data, fr_recv := 1\<rparr>"
  have st: "store_fragment ?fs ?h ?H data f' = Some f3"
    using H b1 b2 fld hs by (simp add: store_fragment_def Let_def f3_def)
  have "bb_slice b2 (MaxPacketHeaderSize - length ?H) (MaxPacketHeaderSize + length data) = None"
    using size b2(2) by (simp add: bb_slice_def m_def n_def)
  then show ?thesis
    unfolding read using dec ent i f'(1) st H
    by (simp add: recvFragmentedPacket_def ring_read_eq ring_write_eq f_def)
      (simp add: f3_def fld)
qed

lemma oversized_fragment_panics_witness:
  "ReadPacket be_lib mock_dispatcher (FragmentHeader_AppendTo be_lib \<lparr>fh_seq = 0, fh_id = 0, fh_total = 0\<rparr> [] @
    PacketHeader_AppendTo be_lib \<lparr>ph_seq = 0, ph_ack = 0, ph_acks = 0\<rparr> [] @ [1, 2, 3, 4, 5]) small_endpoint = None"
  using oversized_fragment_panics [OF be_lib_ok small_endpoint(1),
      of "\<lparr>ph_seq = 0, ph_ack = 0, ph_acks = 0\<rparr>" "[1, 2, 3, 4, 5]" mock_dispatcher] small_endpoint
  by (simp add: be_lib_def small_config_def NewConfig_def)

section \<open>Acknowledgements\<close>

text \<open>
  \<open>processACKs\<close> marks exactly the packets that the bitset names and that were sent and
  waiting, calls \<open>ACK\<close> once for each of them, and changes no other entry.
\<close>

theorem processACKs_marks:
  assumes "ring_wf (ep_sent e)"
  shows "\<exists>e'. processACKs log_ACK ack bits e = Some e' \<and>
    ep_disp e' = ep_disp e @ filter (unacked e) (named ack bits) \<and>
    (\<forall>s. stored (ep_sent e') s = stored (ep_sent e) s \<and>
      unacked e' s = (unacked e s \<and> s \<notin> set (named ack bits)))"
proof -
  obtain e' where e': "processACKs log_ACK ack bits e = Some e'"
    "marks (set (filter (unacked e) (named ack bits))) e e'"
    "ep_disp e' = ep_disp e @ filter (unacked e) (named ack bits)"
    using processACKs_log [OF assms] .
  moreover have "stored (ep_sent e') s = stored (ep_sent e) s" for s
    using marks_stored [OF e'(2)] .
  moreover have "unacked e' s = (unacked e s \<and> s \<notin> set (named ack bits))" for s
    using marks_unacked [OF e'(2), of s] by auto
  ultimately show ?thesis by blast
qed

definition log_endpoint :: "u16 list endpoint" where
  "log_endpoint = the (NewEndpoint [] (Some small_config))"

lemma log_endpoint_ok: "ep_ok log_endpoint" "ep_disp log_endpoint = []"
proof -
  obtain e where e: "NewEndpoint ([] :: u16 list) (Some small_config) = Some e" "ep_ok e"
    "ep_disp e = []"
    by (rule NewEndpoint_ok [of "Some small_config" "[] :: u16 list"]) (simp_all add: small_config_ok)
  then have "log_endpoint = e" by (simp add: log_endpoint_def)
  with e show "ep_ok log_endpoint" "ep_disp log_endpoint = []" by simp_all
qed

lemma processACKs_marks_witness:
  "\<exists>e'. processACKs log_ACK 7 5 log_endpoint = Some e' \<and>
    ep_disp e' = ep_disp log_endpoint @ filter (unacked log_endpoint) (named 7 5) \<and>
    (\<forall>s. stored (ep_sent e') s = stored (ep_sent log_endpoint) s \<and>
      unacked e' s = (unacked log_endpoint s \<and> s \<notin> set (named 7 5)))"
  by (rule processACKs_marks [OF ep_okD(2) [OF log_endpoint_ok(1)]])

text \<open>
  C4. The acknowledgement loop closes between two peers: when \<open>a\<close> processes what \<open>NextACK\<close>
  computed from the packets \<open>b\<close> received, then exactly the waiting packets that \<open>b\<close> holds
  among its last 32 numbers stop waiting, and processing it again acknowledges nothing.
\<close>

theorem ack_round_trip:
  assumes "ring_wf (ep_sent a)" and "ring_wf (ep_recv b)" and "NextACK (ep_recv b) = Some (ack, bits)"
  shows "\<exists>a' a''. processACKs log_ACK ack bits a = Some a' \<and>
    (\<forall>s. unacked a' s = (unacked a s \<and> \<not> (stored (ep_recv b) s \<and> age (ep_recv b) s < 32))) \<and>
    processACKs log_ACK ack bits a' = Some a'' \<and> ep_disp a'' = ep_disp a'"
proof -
  obtain a' where a': "processACKs log_ACK ack bits a = Some a'"
    "marks (set (filter (unacked a) (named ack bits))) a a'"
    using processACKs_log [OF assms(1)] by metis
  have un: "unacked a' s = (unacked a s \<and> s \<notin> set (named ack bits))" for s
    using marks_unacked [OF a'(2), of s] by auto
  have "ring_wf (ep_sent a')" using a'(2) by (simp add: marks_def)
  then obtain a'' where a'': "processACKs log_ACK ack bits a' = Some a''"
    "ep_disp a'' = ep_disp a' @ filter (unacked a') (named ack bits)"
    using processACKs_log by metis
  have "filter (unacked a') (named ack bits) = []" using un by (simp add: filter_empty_conv)
  then show ?thesis using a'(1) a'' un NextACK_named [OF assms(2,3)] by auto
qed

text \<open>One peer has sent the packets 0 to 3, the other has received 0 and 2.\<close>

definition sent_four :: "u16 list endpoint" where
  "sent_four = log_endpoint\<lparr>ep_sent := \<lparr>ring_buf = \<lparr>latest = 4,
       seq_entries = [0, 1, 2, 3] @ replicate 4 EmptySequenceBufferEntry\<rparr>,
     ring_entries = replicate 8 \<lparr>sp_time = Finite 1, sp_acked = False, sp_size = 20\<rparr>\<rparr>\<rparr>"

definition received_two :: "mock endpoint" where
  "received_two = small_endpoint\<lparr>ep_recv := \<lparr>ring_buf = \<lparr>latest = 3,
       seq_entries = [0, EmptySequenceBufferEntry, 2] @ replicate 5 EmptySequenceBufferEntry\<rparr>,
     ring_entries = replicate 8 \<lparr>rp_time = Finite 1, rp_size = 20\<rparr>\<rparr>\<rparr>"

lemma ack_round_trip_witness:
  "\<exists>bits a'. NextACK (ep_recv received_two) = Some (2, bits) \<and>
    processACKs log_ACK 2 bits sent_four = Some a' \<and>
    \<not> unacked a' 0 \<and> unacked a' 1 \<and> \<not> unacked a' 2 \<and> unacked a' 3"
proof -
  have wf: "ring_wf (ep_sent sent_four)" "ring_wf (ep_recv received_two)"
    by (simp_all add: sent_four_def received_two_def ring_wf_def)
  have sent: "unacked sent_four 1" "unacked sent_four 3"
    by (simp_all add: unacked_def sent_entry_def sent_four_def stored_def slot_def)
  have recv: "stored (ep_recv received_two) 0" "\<not> stored (ep_recv received_two) 1"
    "stored (ep_recv received_two) 2" "\<not> stored (ep_recv received_two) 3"
    "age (ep_recv received_two) 0 < 32" "age (ep_recv received_two) 2 < 32"
    by (simp_all add: received_two_def stored_def slot_def age_def EmptySequenceBufferEntry_def)
  obtain bits where n: "NextACK (ep_recv received_two) = Some (2, bits)"
    using NextACK_eq [OF wf(2)] by (auto simp: received_two_def)
  from ack_round_trip [OF wf n] show ?thesis using n sent recv by blast
qed

section \<open>Statistics\<close>

text \<open>
  C28. \<open>Update\<close> never smooths a bandwidth, although its comments say so. It sets the clock and
  measures the packets that the buffers still hold of the oldest half of their numbers,
  \<open>latest - cap\<close> and the following. The packet loss is the percentage of the half that was sent and
  not acknowledged, smoothed as documented. The three rates, the bytes per time from the first to
  the last packet, in kilobits, just replace the old ones. The measured packets have times above
  zero and below the largest number.
\<close>

theorem Update_measures:
  assumes "ep_ok e"
    and "n = SentPacketBufferSize (ep_config e) div 2" and "m = RecvPacketBufferSize (ep_config e) div 2"
    and "sent = map (\<lambda>s. ring_entries (ep_sent e) ! slot (ep_sent e) s) (filter (stored (ep_sent e))
      (map (\<lambda>i. latest (ring_buf (ep_sent e)) - of_nat (length (ring_entries (ep_sent e))) + of_nat i) [0..<n]))"
    and "received = map (\<lambda>s. ring_entries (ep_recv e) ! slot (ep_recv e) s) (filter (stored (ep_recv e))
      (map (\<lambda>i. latest (ring_buf (ep_recv e)) - of_nat (length (ring_entries (ep_recv e))) + of_nat i) [0..<m]))"
    and "\<forall>p\<in>set sent. sane_time (sp_time p)" and "\<forall>p\<in>set received. sane_time (rp_time p)"
    and "lost = fmul (fdiv (f64_of_int (int (length (filter (\<lambda>p. \<not> sp_acked p) sent)))) (f64_of_int (int n)))
      (Finite 100)"
  shows "Update t e = Some (e\<lparr>ep_time := t,
      ep_packetLoss := (if flt (round64 (1 / 100000)) (fabs (fsub (ep_packetLoss e) lost))
        then fadd (ep_packetLoss e)
          (fmul (fsub lost (ep_packetLoss e)) (PacketLossSmoothingFactor (ep_config e)))
        else lost),
      ep_sentBandwidthKbps := kbps_of (map (\<lambda>p. (sp_time p, sp_size p)) sent) (ep_sentBandwidthKbps e),
      ep_receivedBandwidthKbps := kbps_of (map (\<lambda>p. (rp_time p, rp_size p)) received)
        (ep_receivedBandwidthKbps e),
      ep_ackedBandwidthKbps := kbps_of (map (\<lambda>p. (sp_time p, sp_size p)) (filter sp_acked sent))
        (ep_ackedBandwidthKbps e)\<rparr>)"
proof -
  have s: "samples (ep_sent e) n = sent" "samples (ep_recv e) m = received"
    by (simp_all add: samples_def assms(4,5))
  have r: "rate (meter_of sp_time sp_size ps) old = kbps_of (map (\<lambda>p. (sp_time p, sp_size p)) ps) old"
    if "set ps \<subseteq> set sent" for ps old
    using that assms(6) by (intro rate_meter_of) auto
  have q: "rate (meter_of rp_time rp_size received) old = kbps_of (map (\<lambda>p. (rp_time p, rp_size p)) received) old"
    for old using assms(7) by (intro rate_meter_of) auto
  show ?thesis
    using Update_eq [OF assms(1), of t] s r [of sent] r [of "filter sp_acked sent"] q
    by (simp add: Let_def smooth_loss_def loss_percentage_def assms(8) comp_def flip: assms(2,3))
qed

text \<open>
  Eight numbers in the buffers, of which 0 to 3 are measured: four packets of 1000 bytes, sent at
  1, 2, 3 and 5 seconds, of which the second and the third are acknowledged, and two received ones.
\<close>

definition measured_endpoint :: "mock endpoint" where
  "measured_endpoint = small_endpoint\<lparr>ep_seq := 8, ep_packetLoss := Finite 0,
     ep_sent := \<lparr>ring_buf = \<lparr>latest = 8, seq_entries = [0, 1, 2, 3, 4, 5, 6, 7]\<rparr>,
       ring_entries = map (\<lambda>(t, a). \<lparr>sp_time = Finite t, sp_acked = a, sp_size = 1000\<rparr>)
         [(1, False), (2, True), (3, True), (5, False), (6, False), (7, False), (8, False), (9, False)]\<rparr>,
     ep_recv := \<lparr>ring_buf = \<lparr>latest = 8, seq_entries = [0, EmptySequenceBufferEntry, 2,
         EmptySequenceBufferEntry, 4, 5, 6, 7]\<rparr>,
       ring_entries = map (\<lambda>t. \<lparr>rp_time = Finite t, rp_size = 500\<rparr>) [1, 0, 3, 0, 4, 4, 4, 4]\<rparr>\<rparr>"

lemma measured_endpoint:
  "ep_ok measured_endpoint" "ep_config measured_endpoint = small_config"
  "ep_packetLoss measured_endpoint = Finite 0"
  "map (\<lambda>s. ring_entries (ep_sent measured_endpoint) ! slot (ep_sent measured_endpoint) s)
     (filter (stored (ep_sent measured_endpoint)) (map (\<lambda>i. latest (ring_buf (ep_sent measured_endpoint)) -
        of_nat (length (ring_entries (ep_sent measured_endpoint))) + of_nat i) [0..<4])) =
   map (\<lambda>(t, a). \<lparr>sp_time = Finite t, sp_acked = a, sp_size = 1000\<rparr>)
     [(1, False), (2, True), (3, True), (5, False)]"
  "map (\<lambda>s. ring_entries (ep_recv measured_endpoint) ! slot (ep_recv measured_endpoint) s)
     (filter (stored (ep_recv measured_endpoint)) (map (\<lambda>i. latest (ring_buf (ep_recv measured_endpoint)) -
        of_nat (length (ring_entries (ep_recv measured_endpoint))) + of_nat i) [0..<4])) =
   map (\<lambda>t. \<lparr>rp_time = Finite t, rp_size = 500\<rparr>) [1, 3]"
proof -
  have "[0..<4] = [0, 1, 2, 3 :: nat]" by (simp add: upt_rec)
  then show "map (\<lambda>s. ring_entries (ep_sent measured_endpoint) ! slot (ep_sent measured_endpoint) s)
     (filter (stored (ep_sent measured_endpoint)) (map (\<lambda>i. latest (ring_buf (ep_sent measured_endpoint)) -
        of_nat (length (ring_entries (ep_sent measured_endpoint))) + of_nat i) [0..<4])) =
   map (\<lambda>(t, a). \<lparr>sp_time = Finite t, sp_acked = a, sp_size = 1000\<rparr>)
     [(1, False), (2, True), (3, True), (5, False)]"
  "map (\<lambda>s. ring_entries (ep_recv measured_endpoint) ! slot (ep_recv measured_endpoint) s)
     (filter (stored (ep_recv measured_endpoint)) (map (\<lambda>i. latest (ring_buf (ep_recv measured_endpoint)) -
        of_nat (length (ring_entries (ep_recv measured_endpoint))) + of_nat i) [0..<4])) =
   map (\<lambda>t. \<lparr>rp_time = Finite t, rp_size = 500\<rparr>) [1, 3]"
    by (simp_all add: measured_endpoint_def stored_def slot_def EmptySequenceBufferEntry_def)
  show "ep_ok measured_endpoint"
    using small_endpoint(1) by (simp add: ep_ok_def measured_endpoint_def ring_wf_def)
qed (simp_all add: measured_endpoint_def small_endpoint)

lemma measured_numbers:
  "f64_of_int 4000 = Finite 4000" "f64_of_int 2000 = Finite 2000" "f64_of_int 1000 = Finite 1000"
  "f64_of_int 2 = Finite 2" "f64_of_int 4 = Finite 4" "round64 500 = Finite 500" "round64 1000 = Finite 1000"
  "round64 2000 = Finite 2000" "round64 4000 = Finite 4000" "round64 8000 = Finite 8000"
  "round64 16000 = Finite 16000" "round64 1 = Finite 1" "round64 2 = Finite 2" "round64 4 = Finite 4"
  "round64 8 = Finite 8" "round64 16 = Finite 16" "round64 (1 / 2) = Finite (1 / 2)" "round64 50 = Finite 50" "round64 (- 50) = Finite (- 50)"
  "flt (round64 (1 / 100000)) (Finite 50)" "fmul (Finite 50) (round64 (1 / 10)) = Finite 5" "round64 5 = Finite 5"
  by code_simp+

lemma sane_times: "q \<in> {1, 2, 3, 5} \<Longrightarrow> sane_time (Finite q)"
  by (auto simp: sane_time_def max_float64_def)

lemma Update_measures_witness:
  "\<exists>e'. Update (Finite 10) measured_endpoint = Some e' \<and> PacketLoss e' = Finite 5 \<and>
    Bandwidth e' = (Finite 8, Finite 4, Finite 16)"
proof -
  have n: "4 = SentPacketBufferSize (ep_config measured_endpoint) div 2"
    "4 = RecvPacketBufferSize (ep_config measured_endpoint) div 2"
    by (simp_all add: measured_endpoint(2) small_config_def NewConfig_def)
  show ?thesis
    using Update_measures [OF measured_endpoint(1) n measured_endpoint(4,5) [symmetric] _ _ refl, of "Finite 10"]
    by (simp add: measured_endpoint(2,3) small_config_def NewConfig_def PacketLoss_def Bandwidth_def
        sane_times kbps_of_def measured_numbers fsub_def)
qed

text \<open>
  A rate divides by the time between the first and the last sampled packet, so as long as
  a single packet is sampled, sent at any positive time, the reported rate is infinite.
\<close>

theorem single_sample_infinite_rate:
  assumes "ep_ok e" and "samples (ep_sent e) (SentPacketBufferSize (ep_config e) div 2) = [p]"
    and "sp_time p = Finite q" and "0 < q" and "q < max_float64" and "sp_size p = 20"
  shows "\<exists>e'. Update t e = Some e' \<and> fst (Bandwidth e') = PosInf"
proof -
  have "round64 20 = Finite 20" by code_simp
  moreover have "q \<noteq> max_float64" using assms(5) by simp
  ultimately have "rate (meter_of sp_time sp_size [p]) old = PosInf" for old
    using assms(3,4,5,6)
    by (simp add: rate_def kbps_def meter_of_def meter0_def measure_entry_def MaxFloat64_def Let_def
        fsub_self f64_of_int_def inf_of_sign_def)
  then show ?thesis
    using Update_eq [OF assms(1), of t] assms(2) by (simp add: Bandwidth_def Let_def)
qed

definition one_sampled :: "mock endpoint" where
  "one_sampled = small_endpoint\<lparr>ep_seq := 5, ep_sent :=
     \<lparr>ring_buf = \<lparr>latest = 5, seq_entries = [0, 1, 2, 3, 4] @ replicate 3 EmptySequenceBufferEntry\<rparr>,
      ring_entries = replicate 8 \<lparr>sp_time = Finite 1, sp_acked = False, sp_size = 20\<rparr>\<rparr>\<rparr>"

lemma single_sample_infinite_rate_witness:
  "\<exists>e'. Update (Finite 2) one_sampled = Some e' \<and> fst (Bandwidth e') = PosInf"
proof (rule single_sample_infinite_rate [where q = 1])
  have "ring_wf (ep_sent one_sampled)" by (simp add: one_sampled_def ring_wf_def)
  then show "ep_ok one_sampled" using small_endpoint(1) by (simp add: ep_ok_def one_sampled_def)
  have "[0..<4] = [0, 1, 2, 3 :: nat]" by (simp add: upt_rec)
  moreover have "unat (- 1 :: u16) = 65535" using unat_sub_u16 [of 0 1] by simp
  moreover note empty_not_seq(2) [of "- 1", unfolded EmptySequenceBufferEntry_def]
  ultimately show "samples (ep_sent one_sampled) (SentPacketBufferSize (ep_config one_sampled) div 2) =
      [\<lparr>sp_time = Finite 1, sp_acked = False, sp_size = 20\<rparr>]"
    by (simp add: one_sampled_def small_endpoint small_config_def NewConfig_def samples_def
        stored_def slot_def EmptySequenceBufferEntry_def)
qed (simp_all add: max_float64_def)

end
