(* ===== verification/Channel.thy ===== *)
theory Channel
  imports Mock Statistics
begin

text \<open>
  The reliable channel (\<open>channel.go\<close>): it implements the dispatcher of its own endpoint, keeps
  every datagram it transmits in a window until it is acknowledged, sends it again after a tenth
  of a second, and holds packets back while the oldest unacknowledged one is too old.

  The channel's fields are the dispatcher state of the endpoint, so \<open>c.endpoint\<close> is the record
  around them. The Go channels \<open>readQueue\<close> and \<open>writeQueue\<close> are lists of the values they
  hold; a send on a full one blocks, which is \<^const>\<open>None\<close> of \<open>Channel_Read\<close> and
  \<open>Channel_Write\<close>. The application receives from \<open>outQueue\<close> concurrently; the field is the
  sequence of the values that were sent on it, with the contents they had when they were sent.
  \<open>fmt.Printf\<close> in \<open>Process\<close> is the list of its calls.
\<close>

section \<open>State\<close>

record chan =
  c_window :: packet_buffer
  c_readQueue :: "bytes list"
  c_writeQueue :: "bytes list"
  c_outQueue :: "bytes list"
  c_queue :: "byte_buffer list"
  c_oldestUnacked :: u16
  c_lastSent :: float64
  c_stdout :: "(u16 \<times> bytes) list"

type_synonym channel = "chan endpoint"

definition NewChannel :: "config option \<Rightarrow> channel option" where
  "NewChannel config = do {
     let config' = (case config of None \<Rightarrow> NewConfig | Some c \<Rightarrow> c);
     window \<leftarrow> NewPacketBuffer (of_nat (SentPacketBufferSize config'));
     NewEndpoint \<lparr>c_window = window, c_readQueue = [], c_writeQueue = [], c_outQueue = [],
       c_queue = [], c_oldestUnacked = 0, c_lastSent = Finite 0, c_stdout = []\<rparr> config }"

text \<open>\<open>ch <- x\<close> on a buffered channel of capacity \<open>cap\<close>; \<^const>\<open>None\<close> when it has to wait.\<close>

definition chan_send :: "nat \<Rightarrow> 'a list \<Rightarrow> 'a \<Rightarrow> 'a list option" where
  "chan_send cap q x = (if length q < cap then Some (q @ [x]) else None)"

definition Channel_Read :: "bytes \<Rightarrow> channel \<Rightarrow> channel option" where
  "Channel_Read buf e = do {
     q \<leftarrow> chan_send (RecvPacketBufferSize (ep_config e)) (c_readQueue (ep_disp e)) buf;
     Some (e\<lparr>ep_disp := (ep_disp e)\<lparr>c_readQueue := q\<rparr>\<rparr>) }"

definition Channel_Write :: "bytes \<Rightarrow> channel \<Rightarrow> channel option" where
  "Channel_Write buf e = do {
     q \<leftarrow> chan_send (SentPacketBufferSize (ep_config e)) (c_writeQueue (ep_disp e)) buf;
     Some (e\<lparr>ep_disp := (ep_disp e)\<lparr>c_writeQueue := q\<rparr>\<rparr>) }"

definition Channel_Out :: "channel \<Rightarrow> bytes list" where
  "Channel_Out e = c_outQueue (ep_disp e)"

section \<open>The dispatcher callbacks\<close>

text \<open>\<open>b := pool.Get(); b.B = ExtendSlice(b.B, len(buf)); copy(b.B, buf)\<close>.\<close>

definition copy_of :: "lib \<Rightarrow> bytes \<Rightarrow> channel \<Rightarrow> (byte_buffer \<times> channel) option" where
  "copy_of lib buf e = do {
     let (k, e) = pool_Get e;
     let b = \<lparr>bb_len = length buf, bb_mem = ExtendSlice lib k (length buf)\<rparr>;
     b \<leftarrow> bb_copy b 0 buf;
     Some (b, e) }"

text \<open>The contents \<open>b.B\<close> of a buffer.\<close>

definition bb_bytes :: "byte_buffer \<Rightarrow> bytes" where
  "bb_bytes b = take (bb_len b) (bb_mem b)"

definition Channel_Transmit :: "lib \<Rightarrow> u16 \<Rightarrow> bytes \<Rightarrow> channel \<Rightarrow> channel option" where
  "Channel_Transmit lib seq buf e = do {
     (b, e) \<leftarrow> copy_of lib buf e;
     (w, packet) \<leftarrow> PacketBuffer_Insert (c_window (ep_disp e)) seq;
     i \<leftarrow> packet;
     old \<leftarrow> ring_read w i;
     let p = BufferedPacket_Reset old;
     let p = p\<lparr>bp_buf := Some b\<rparr>;
     w \<leftarrow> ring_write w i p;
     Some (e\<lparr>ep_disp := (ep_disp e)\<lparr>c_window := w\<rparr>\<rparr>) }"

definition Channel_Process :: "u16 \<Rightarrow> bytes \<Rightarrow> channel \<Rightarrow> channel option" where
  "Channel_Process seq data e =
     Some (e\<lparr>ep_disp := (ep_disp e)\<lparr>c_stdout := c_stdout (ep_disp e) @ [(seq, data)]\<rparr>\<rparr>)"

text \<open>The values of the loop variable in \<open>for s := seq; seqLTE(s, max); s++\<close>.\<close>

lemma not_seqLTE_Suc: "\<not> seqLTE (m + 1) m"
  using seqGreaterThan_asym [of "m + 1" m] seqGreaterThan_Suc [of m]
  by (auto simp: seqLTE_def)

function loop_seqs :: "u16 \<Rightarrow> u16 \<Rightarrow> u16 list" where
  "loop_seqs seq limit = (if seqLTE seq limit then seq # loop_seqs (seq + 1) limit else [])"
  by pat_completeness auto

termination
proof (relation "measure (\<lambda>(seq, limit). unat (limit + 1 - seq))")
  fix seq limit :: u16
  assume "seqLTE seq limit"
  then have "limit + 1 - seq \<noteq> 0" using not_seqLTE_Suc [of limit] by auto
  then have "unat (limit + 1 - seq - 1) < unat (limit + 1 - seq)" by (rule measure_unat)
  moreover have "limit + 1 - (seq + 1) = limit + 1 - seq - 1" by (simp add: algebra_simps)
  ultimately show "((seq + 1, limit), seq, limit) \<in> measure (\<lambda>(seq, limit). unat (limit + 1 - seq))"
    by simp
qed simp

declare loop_seqs.simps [simp del]

text \<open>The search for the next packet that the window still holds.\<close>

fun first_in_window :: "packet_buffer \<Rightarrow> u16 list \<Rightarrow> u16 option option" where
  "first_in_window w [] = Some None"
| "first_in_window w (s # ss) = do {
     p \<leftarrow> PacketBuffer_Find w s;
     case p of None \<Rightarrow> first_in_window w ss | Some _ \<Rightarrow> Some (Some s) }"

text \<open>The loop that sends queued packets, \<open>n\<close> iterations left.\<close>

fun flush_queue :: "lib \<Rightarrow> nat \<Rightarrow> channel \<Rightarrow> channel option" where
  "flush_queue lib 0 e = Some e"
| "flush_queue lib (Suc n) e = (case c_queue (ep_disp e) of
     [] \<Rightarrow> Some e
   | popped # rest \<Rightarrow> do {
       (e, _) \<leftarrow> WritePacket lib (Channel_Transmit lib) (bb_bytes popped)
         (e\<lparr>ep_disp := (ep_disp e)\<lparr>c_queue := rest\<rparr>\<rparr>);
       flush_queue lib n e })"

definition recv_window :: "channel \<Rightarrow> u16" where
  "recv_window e = of_nat (RecvPacketBufferSize (ep_config e))"

definition Channel_ACK :: "lib \<Rightarrow> u16 \<Rightarrow> channel \<Rightarrow> channel option" where
  "Channel_ACK lib seq e = do {
     packet \<leftarrow> PacketBuffer_Find (c_window (ep_disp e)) seq;
     case packet of None \<Rightarrow> Some e
     | Some i \<Rightarrow> do {
         w \<leftarrow> PacketBuffer_Remove (c_window (ep_disp e)) seq;
         let e = e\<lparr>ep_disp := (ep_disp e)\<lparr>c_window := w\<rparr>\<rparr>;
         p \<leftarrow> ring_read w i;
         _ \<leftarrow> bp_buf p;
         let oldestUnacked = c_oldestUnacked (ep_disp e);
         if seq \<noteq> oldestUnacked then Some e
         else do {
           let max = oldestUnacked + recv_window e;
           next \<leftarrow> first_in_window w (loop_seqs (oldestUnacked + 1) max);
           let oldest' = (case next of Some s \<Rightarrow> s | None \<Rightarrow> max);
           let e = e\<lparr>ep_disp := (ep_disp e)\<lparr>c_oldestUnacked := oldest'\<rparr>\<rparr>;
           flush_queue lib (unat (oldest' - oldestUnacked)) e } } }"

definition Channel_dispatcher :: "lib \<Rightarrow> chan dispatcher" where
  "Channel_dispatcher lib = \<lparr>Transmit = Channel_Transmit lib, Process = Channel_Process,
     ACK = Channel_ACK lib\<rparr>"

section \<open>Update\<close>

text \<open>The loop over the received datagrams; it stops at the first error.\<close>

fun drain_reads :: "lib \<Rightarrow> bytes list \<Rightarrow> channel \<Rightarrow> (channel \<times> go_error option) option" where
  "drain_reads lib [] e = Some (e, None)"
| "drain_reads lib (b # bs) e = do {
     (e, err) \<leftarrow> ReadPacket lib (Channel_dispatcher lib) b
       (e\<lparr>ep_disp := (ep_disp e)\<lparr>c_readQueue := bs\<rparr>\<rparr>);
     case err of Some err \<Rightarrow> Some (e, Some (Wrap ''failed to receive packet'' err))
     | None \<Rightarrow> drain_reads lib bs e }"

fun drain_writes :: "lib \<Rightarrow> bytes list \<Rightarrow> channel \<Rightarrow> channel option" where
  "drain_writes lib [] e = Some e"
| "drain_writes lib (buf # bs) e = (let e = e\<lparr>ep_disp := (ep_disp e)\<lparr>c_writeQueue := bs\<rparr>\<rparr> in
     if c_oldestUnacked (ep_disp e) + recv_window e = ep_seq e
     then do {
       (b, e) \<leftarrow> copy_of lib buf e;
       drain_writes lib bs (e\<lparr>ep_disp := (ep_disp e)\<lparr>c_queue := c_queue (ep_disp e) @ [b]\<rparr>\<rparr>) }
     else do {
       (e, _) \<leftarrow> WritePacket lib (Channel_Transmit lib) buf e;
       drain_writes lib bs e })"

text \<open>One iteration of the loop that writes packets out, and the loop.\<close>

definition resend :: "float64 \<Rightarrow> u16 \<Rightarrow> chan \<Rightarrow> chan option" where
  "resend time seq c = do {
     packet \<leftarrow> PacketBuffer_Find (c_window c) seq;
     case packet of None \<Rightarrow> Some c
     | Some i \<Rightarrow> do {
         p \<leftarrow> ring_read (c_window c) i;
         if bp_written p \<and> flt (fsub time (bp_time p)) (round64 (1 / 10)) then Some c
         else do {
           let p = p\<lparr>bp_time := time, bp_written := True\<rparr>;
           w \<leftarrow> ring_write (c_window c) i p;
           b \<leftarrow> bp_buf p;
           Some (c\<lparr>c_window := w, c_outQueue := c_outQueue c @ [bb_bytes b],
                   c_lastSent := time\<rparr>) } } }"

fun resend_all :: "float64 \<Rightarrow> u16 list \<Rightarrow> chan \<Rightarrow> chan option" where
  "resend_all time [] c = Some c"
| "resend_all time (s # ss) c = do {
     c \<leftarrow> resend time s c;
     resend_all time ss c }"

definition Channel_Update :: "lib \<Rightarrow> float64 \<Rightarrow> channel \<Rightarrow> (channel \<times> go_error option) option" where
  "Channel_Update lib time e = do {
     e \<leftarrow> Update time e;
     (e, err) \<leftarrow> drain_reads lib (c_readQueue (ep_disp e)) e;
     case err of Some err \<Rightarrow> Some (e, Some err)
     | None \<Rightarrow> do {
         e \<leftarrow> drain_writes lib (c_writeQueue (ep_disp e)) e;
         let max = c_oldestUnacked (ep_disp e) + recv_window e;
         c \<leftarrow> resend_all time (loop_seqs (c_oldestUnacked (ep_disp e)) max) (ep_disp e);
         let e = e\<lparr>ep_disp := c\<rparr>;
         if fge (fsub time (c_lastSent (ep_disp e))) (round64 (1 / 10))
         then do {
           (e, _) \<leftarrow> WritePacket lib (Channel_Transmit lib) [] e;
           Some (e, None) }
         else Some (e, None) } }"

section \<open>The invariant of the channel\<close>

text \<open>
  The window is in step with the endpoint's sequence numbers, and every packet in it has its
  datagram.
\<close>

definition window_ok :: "packet_buffer \<Rightarrow> bool" where
  "window_ok w \<longleftrightarrow> ring_wf w \<and>
     (\<forall>s. stored w s \<longrightarrow> bp_buf (ring_entries w ! slot w s) \<noteq> None)"

definition chan_inv :: "chan \<Rightarrow> u16 \<Rightarrow> bool" where
  "chan_inv c q \<longleftrightarrow> window_ok (c_window c) \<and> latest (ring_buf (c_window c)) = q"

lemma chan_inv_updates [simp]:
  "chan_inv (c\<lparr>c_readQueue := x\<rparr>) q = chan_inv c q"
  "chan_inv (c\<lparr>c_writeQueue := x\<rparr>) q = chan_inv c q"
  "chan_inv (c\<lparr>c_outQueue := x\<rparr>) q = chan_inv c q"
  "chan_inv (c\<lparr>c_queue := y\<rparr>) q = chan_inv c q"
  "chan_inv (c\<lparr>c_oldestUnacked := z\<rparr>) q = chan_inv c q"
  "chan_inv (c\<lparr>c_lastSent := t\<rparr>) q = chan_inv c q"
  "chan_inv (c\<lparr>c_stdout := u\<rparr>) q = chan_inv c q"
  by (simp_all add: chan_inv_def)

text \<open>Storing a datagram in the window.\<close>

definition put_packet :: "packet_buffer \<Rightarrow> u16 \<Rightarrow> byte_buffer \<Rightarrow> packet_buffer" where
  "put_packet w s b = (inserted w s)\<lparr>ring_entries := (ring_entries w)
     [slot w s := zero_BufferedPacket\<lparr>bp_buf := Some b\<rparr>]\<rparr>"

lemma stored_put_packet:
  "ring_wf w \<Longrightarrow> stored (put_packet w s b) t \<longleftrightarrow>
     t = s \<or> (stored w t \<and> slot w t \<noteq> slot w s \<and> \<not> wiped w s (slot w t))"
  unfolding put_packet_def using stored_inserted [of w s t]
  by (metis entries_inserted slot_inserted stored_write)

lemma slot_put_packet [simp]: "slot (put_packet w s b) t = slot w t"
  by (simp add: put_packet_def slot_def)

lemma ring_wf_put_packet: "ring_wf w \<Longrightarrow> ring_wf (put_packet w s b)"
  unfolding put_packet_def using ring_wf_inserted [of w s] by (simp add: ring_wf_def)

lemma window_ok_put_packet: "window_ok w \<Longrightarrow> window_ok (put_packet w s b)"
proof -
  assume w: "window_ok w"
  then have wf: "ring_wf w" by (simp add: window_ok_def)
  have "bp_buf (ring_entries (put_packet w s b) ! slot w t) \<noteq> None" if "stored (put_packet w s b) t" for t
  proof (cases "t = s")
    case True
    then show ?thesis using slot_less [OF wf, of s] by (simp add: put_packet_def)
  next
    case False
    then have "stored w t" "slot w t \<noteq> slot w s" using that wf by (auto simp: stored_put_packet)
    then show ?thesis using w by (simp add: put_packet_def window_ok_def)
  qed
  then show ?thesis using wf by (simp add: window_ok_def ring_wf_put_packet)
qed

text \<open>The channel can store the number just taken, and the one before it again.\<close>

lemma put_packet_current:
  assumes wf: "ring_wf w" and l: "latest (ring_buf w) = s \<or> latest (ring_buf w) = s + 1"
  shows "\<not> ring_IsOutdated w s" and "latest (ring_buf (put_packet w s b)) = s + 1"
proof -
  have c: "0 < unat (ring_cap w)" "unat (ring_cap w) < 32768" using wf by (auto simp: unat_ring_cap)
  show "\<not> ring_IsOutdated w s"
  proof (cases "latest (ring_buf w) = s")
    case True
    then show ?thesis using not_outdated_latest [OF wf] by simp
  next
    case False
    then have l: "latest (ring_buf w) = s + 1" using l by blast
    have nz: "ring_cap w \<noteq> 0" using c(1) by auto
    have "s - (s + 1 - ring_cap w) = ring_cap w - 1" by simp
    moreover have "unat (ring_cap w - 1) < 32768" using c unat_minus_one [OF nz] by linarith
    ultimately show ?thesis
      unfolding ring_IsOutdated_def l by (intro window_not_outdated c(2)) (simp only:)
  qed
  show "latest (ring_buf (put_packet w s b)) = s + 1"
    using l by (auto simp: put_packet_def latest_inserted advanced_def)
qed

context library
begin

definition copied :: "bytes \<Rightarrow> nat \<Rightarrow> byte_buffer" where
  "copied buf k = \<lparr>bb_len = length buf, bb_mem = buf @ drop (length buf) (ExtendSlice lib k (length buf))\<rparr>"

lemma bb_bytes_copied [simp]: "bb_bytes (copied buf k) = buf"
  by (simp add: bb_bytes_def copied_def)

lemma copy_of_eq:
  "copy_of lib buf e = Some (copied buf (ep_pool e), e\<lparr>ep_pool := Suc (ep_pool e)\<rparr>)"
  using extend_length [of "length buf" "ep_pool e"]
  by (simp add: copy_of_def pool_Get_def bb_copy_def copied_def copy_at_0 Let_def)

lemma Channel_Transmit_eq:
  assumes inv: "chan_inv (ep_disp e) (s + 1) \<or> chan_inv (ep_disp e) s"
  shows "Channel_Transmit lib s buf e = Some (e\<lparr>ep_disp := (ep_disp e)
      \<lparr>c_window := put_packet (c_window (ep_disp e)) s (copied buf (ep_pool e))\<rparr>,
      ep_pool := Suc (ep_pool e)\<rparr>)"
    and "chan_inv ((ep_disp e)\<lparr>c_window := put_packet (c_window (ep_disp e)) s (copied buf (ep_pool e))\<rparr>) (s + 1)"
proof -
  let ?w = "c_window (ep_disp e)"
  have w: "window_ok ?w" "latest (ring_buf ?w) = s \<or> latest (ring_buf ?w) = s + 1"
    using inv by (auto simp: chan_inv_def)
  then have wf: "ring_wf ?w" by (simp add: window_ok_def)
  note cur = put_packet_current [OF wf w(2)]
  show "Channel_Transmit lib s buf e = Some (e\<lparr>ep_disp := (ep_disp e)
      \<lparr>c_window := put_packet ?w s (copied buf (ep_pool e))\<rparr>, ep_pool := Suc (ep_pool e)\<rparr>)"
    using wf cur(1)
    by (simp add: Channel_Transmit_def copy_of_eq buffer_defs ring_Insert_eq ring_read_eq ring_write_eq
        BufferedPacket_Reset_def put_packet_def Let_def)
  show "chan_inv ((ep_disp e)\<lparr>c_window := put_packet ?w s (copied buf (ep_pool e))\<rparr>) (s + 1)"
    using cur(2) window_ok_put_packet [OF w(1)] by (simp add: chan_inv_def)
qed

end

sublocale library \<subseteq> outgoing: transmitter lib "Channel_Transmit lib" chan_inv
proof
  fix e :: channel and b
  assume "chan_inv (ep_disp e) (ep_seq e) \<or> chan_inv (ep_disp e) (ep_seq e - 1)"
  then have inv: "chan_inv (ep_disp e) (ep_seq e - 1 + 1) \<or> chan_inv (ep_disp e) (ep_seq e - 1)" by simp
  show "\<exists>x k. Channel_Transmit lib (ep_seq e - 1) b e = Some (e\<lparr>ep_disp := x, ep_pool := k\<rparr>) \<and>
      chan_inv x (ep_seq e)"
    using Channel_Transmit_eq [OF inv, of b] by auto
qed

text \<open>Acknowledgements keep the invariant, whatever packets they release.\<close>

lemma first_in_window_total:
  "ring_wf w \<Longrightarrow> \<exists>r. first_in_window w ss = Some r"
  by (induction ss) (auto simp: buffer_defs ring_Find_eq)

lemma window_ok_removed:
  assumes "window_ok w"
  shows "window_ok (w\<lparr>ring_buf := (ring_buf w)
    \<lparr>seq_entries := (seq_entries (ring_buf w)) [slot w s := EmptySequenceBufferEntry]\<rparr>\<rparr>)"
proof -
  let ?w = "w\<lparr>ring_buf := (ring_buf w)
    \<lparr>seq_entries := (seq_entries (ring_buf w)) [slot w s := EmptySequenceBufferEntry]\<rparr>\<rparr>"
  have wf: "ring_wf w" using assms by (simp add: window_ok_def)
  have sl: "slot ?w t = slot w t" for t by (simp add: slot_def)
  have "stored ?w t \<Longrightarrow> stored w t" for t
    unfolding stored_def sl using wf
    by (cases "slot w t = slot w s") (simp_all add: ring_wfD(3))
  then show ?thesis using assms by (simp add: window_ok_def sl) (simp add: ring_wf_def)
qed

context library
begin

lemma flush_queue_ok:
  "ep_ok e \<Longrightarrow> chan_inv (ep_disp e) (ep_seq e) \<Longrightarrow>
   \<exists>e'. flush_queue lib n e = Some e' \<and> ep_ok e' \<and> chan_inv (ep_disp e') (ep_seq e') \<and> writes e e'"
proof (induction n arbitrary: e)
  case 0
  then show ?case by simp
next
  case (Suc n)
  show ?case
  proof (cases "c_queue (ep_disp e)")
    case Nil
    then show ?thesis using Suc.prems by simp
  next
    case (Cons popped rest)
    let ?e = "e\<lparr>ep_disp := (ep_disp e)\<lparr>c_queue := rest\<rparr>\<rparr>"
    have "ep_ok ?e" "chan_inv (ep_disp ?e) (ep_seq ?e)" using Suc.prems by (simp_all add: ep_ok_def)
    then obtain e1 w where e1: "WritePacket lib (Channel_Transmit lib) (bb_bytes popped) ?e = Some (e1, w)"
      "ep_ok e1" "chan_inv (ep_disp e1) (ep_seq e1)" "writes ?e e1"
      by (rule outgoing.WritePacket_inv)
    have "writes e e1" using e1(4) by (simp add: writes_def)
    with Suc.IH [OF e1(2,3)] Cons e1(1) show ?thesis using writes_trans by fastforce
  qed
qed

lemma Channel_ACK_ok:
  assumes ok: "ep_ok e" and inv: "chan_inv (ep_disp e) (ep_seq e)"
  shows "\<exists>e'. Channel_ACK lib s e = Some e' \<and> ep_ok e' \<and> chan_inv (ep_disp e') (ep_seq e') \<and> writes e e'"
proof -
  let ?w = "c_window (ep_disp e)"
  have w: "window_ok ?w" and wf: "ring_wf ?w" using inv by (simp_all add: chan_inv_def window_ok_def)
  show ?thesis
  proof (cases "stored ?w s")
    case False
    then show ?thesis using ok inv wf by (simp add: Channel_ACK_def buffer_defs ring_Find_eq)
  next
    case True
    define w1 where "w1 = ?w\<lparr>ring_buf := (ring_buf ?w)
      \<lparr>seq_entries := (seq_entries (ring_buf ?w)) [slot ?w s := EmptySequenceBufferEntry]\<rparr>\<rparr>"
    have w1: "window_ok w1" unfolding w1_def by (rule window_ok_removed [OF w])
    then have wf1: "ring_wf w1" by (simp add: window_ok_def)
    obtain b where b: "bp_buf (ring_entries ?w ! slot ?w s) = Some b"
      using True w by (auto simp: window_ok_def)
    have i: "slot ?w s < length (ring_entries w1)" using wf by (simp add: w1_def)
    have rd: "ring_read w1 (slot ?w s) = Some (ring_entries ?w ! slot ?w s)"
      using i by (simp add: ring_read_eq) (simp add: w1_def)
    let ?e1 = "e\<lparr>ep_disp := (ep_disp e)\<lparr>c_window := w1\<rparr>\<rparr>"
    have l: "latest (ring_buf w1) = latest (ring_buf ?w)" by (simp add: w1_def)
    have e1: "ep_ok ?e1" "chan_inv (ep_disp ?e1) (ep_seq ?e1)" "writes e ?e1"
      using ok inv w1 l by (simp_all add: ep_ok_def chan_inv_def writes_def)
    show ?thesis
    proof (cases "s = c_oldestUnacked (ep_disp e)")
      case False
      then show ?thesis using True wf b e1 rd
        by (simp add: Channel_ACK_def buffer_defs ring_Find_eq ring_Remove_eq Let_def flip: w1_def)
    next
      case old: True
      let ?max = "s + recv_window e"
      obtain nx where nx: "first_in_window w1 (loop_seqs (s + 1) ?max) = Some nx"
        using first_in_window_total [OF wf1] by blast
      define o' where "o' = (case nx of Some q \<Rightarrow> q | None \<Rightarrow> ?max)"
      let ?e2 = "e\<lparr>ep_disp := (ep_disp e)\<lparr>c_window := w1, c_oldestUnacked := o'\<rparr>\<rparr>"
      have "ep_ok ?e2" "chan_inv (ep_disp ?e2) (ep_seq ?e2)" "writes e ?e2"
        using e1 by (simp_all add: ep_ok_def chan_inv_def writes_def)
      moreover from this obtain e3 where "flush_queue lib (unat (o' - s)) ?e2 = Some e3" "ep_ok e3"
        "chan_inv (ep_disp e3) (ep_seq e3)" "writes ?e2 e3"
        using flush_queue_ok by blast
      moreover have "recv_window ?e1 = recv_window e" by (simp add: recv_window_def)
      moreover have "PacketBuffer_Find ?w s = Some (Some (slot ?w s))" "PacketBuffer_Remove ?w s = Some w1"
        using True wf by (simp_all add: buffer_defs ring_Find_eq ring_Remove_eq w1_def)
      ultimately have "Channel_ACK lib s e = Some e3"
        using b rd nx by (cases nx) (simp_all add: Channel_ACK_def Let_def o'_def flip: old)
      moreover have "writes e e3" using \<open>writes e ?e2\<close> \<open>writes ?e2 e3\<close> by (rule writes_trans)
      ultimately show ?thesis using \<open>ep_ok e3\<close> \<open>chan_inv (ep_disp e3) (ep_seq e3)\<close> by blast
    qed
  qed
qed

end

lemma Channel_dispatcher_simps [simp]:
  "Transmit (Channel_dispatcher lib) = Channel_Transmit lib"
  "Process (Channel_dispatcher lib) = Channel_Process"
  "ACK (Channel_dispatcher lib) = Channel_ACK lib"
  by (simp_all add: Channel_dispatcher_def)

lemma channel_disp_pool_id:
  fixes e :: channel
  shows "e\<lparr>ep_disp := x, ep_pool := ep_pool e\<rparr> = e\<lparr>ep_disp := x\<rparr>"
  by (metis endpoint.surjective endpoint.update_convs(2) endpoint.update_convs(13))

text \<open>The channel satisfies the contract of a dispatcher.\<close>

sublocale library \<subseteq> channel: dispatching lib "Channel_dispatcher lib" chan_inv "\<lambda>_. True"
proof
  fix e :: channel and q b
  assume inv: "chan_inv (ep_disp e) (ep_seq e)"
  show "\<exists>x k. Process (Channel_dispatcher lib) q b e = Some (e\<lparr>ep_disp := x, ep_pool := k\<rparr>) \<and>
      chan_inv x (ep_seq e) \<and> True"
    using inv unfolding Channel_dispatcher_simps Channel_Process_def
    by (intro exI [of _ "(ep_disp e)\<lparr>c_stdout := c_stdout (ep_disp e) @ [(q, b)]\<rparr>"]
        exI [of _ "ep_pool e"]) (simp add: channel_disp_pool_id)
  show "\<exists>e'. ACK (Channel_dispatcher lib) q (marked q e) = Some e' \<and> ep_ok e' \<and>
      chan_inv (ep_disp e') (ep_seq e') \<and> True \<and> writes (marked q e) e'" if "ep_ok e"
    using Channel_ACK_ok [OF ep_ok_marked [OF that], of q q] inv by simp
next
  fix e :: channel and b
  assume "chan_inv (ep_disp e) (ep_seq e) \<or> chan_inv (ep_disp e) (ep_seq e - 1)"
  then show "\<exists>x k. Transmit (Channel_dispatcher lib) (ep_seq e - 1) b e =
      Some (e\<lparr>ep_disp := x, ep_pool := k\<rparr>) \<and> chan_inv x (ep_seq e)"
    unfolding Channel_dispatcher_simps by (rule outgoing.transmit_ok)
qed

end
