(* ===== verification/ChannelUpdate.thy ===== *)
theory ChannelUpdate
  imports Channel
begin

text \<open>
  What the loops of the channel's \<open>Update\<close> compute: the packets that are sent out again, the
  packets that are written and the packets that are held back.
\<close>

section \<open>The range of numbers an update looks at\<close>

lemma loop_seqs_end: "loop_seqs (s + 1) s = []"
  by (subst loop_seqs.simps) (simp add: not_seqLTE_Suc)

lemma seqLTE_add:
  assumes "n < 32768"
  shows "seqLTE s (s + of_nat n)"
proof (cases "n = 0")
  case False
  then have "seqGreaterThan (s + of_nat n) s"
    using assms unat_of_nat_u16 [of n] by (intro seqGreaterThan_add) simp_all
  then show ?thesis by (simp add: seqLTE_def)
qed (simp add: seqLTE_def)

lemma loop_seqs_eq:
  "n < 32768 \<Longrightarrow> loop_seqs s (s + of_nat n) = map (\<lambda>i. s + of_nat i) [0..<Suc n]"
proof (induction n arbitrary: s)
  case 0
  show ?case using loop_seqs_end [of s] by (subst loop_seqs.simps) (simp add: seqLTE_def)
next
  case (Suc n)
  have e: "s + of_nat (Suc n) = s + 1 + of_nat n" by (simp add: algebra_simps)
  have "seqLTE s (s + 1 + of_nat n)" using seqLTE_add [OF Suc.prems, of s] unfolding e .
  then have "loop_seqs s (s + of_nat (Suc n)) = s # loop_seqs (s + 1) (s + 1 + of_nat n)"
    unfolding e by (subst loop_seqs.simps) simp
  also have "loop_seqs (s + 1) (s + 1 + of_nat n) = map (\<lambda>i. s + 1 + of_nat i) [0..<Suc n]"
    using Suc.prems by (intro Suc.IH) simp
  also have "s # \<dots> = map (\<lambda>i. s + of_nat i) (0 # map Suc [0..<Suc n])"
    by (simp add: add.assoc add.commute)
  also have "0 # map Suc [0..<Suc n] = [0..<Suc (Suc n)]"
    unfolding map_Suc_upt by (rule upt_conv_Cons [symmetric]) simp
  finally show ?case .
qed

lemma in_loop_seqs:
  assumes "n < 32768"
  shows "q \<in> set (loop_seqs s (s + of_nat n)) \<longleftrightarrow> unat (q - s) \<le> n"
proof
  assume "q \<in> set (loop_seqs s (s + of_nat n))"
  then obtain i where i: "i \<in> set [0..<Suc n]" "q = s + of_nat i"
    unfolding loop_seqs_eq [OF assms] set_map by (elim imageE) (rule that)
  from i(1) have "i \<le> n" "i < 65536" using assms by auto
  with i(2) show "unat (q - s) \<le> n" using unat_of_nat_u16 [of i] by simp
next
  assume le: "unat (q - s) \<le> n"
  show "q \<in> set (loop_seqs s (s + of_nat n))"
    unfolding loop_seqs_eq [OF assms] set_map
  proof (rule image_eqI [where x = "unat (q - s)"])
    show "unat (q - s) \<in> set [0..<Suc n]"
      unfolding set_upt atLeastLessThan_iff using le by linarith
  qed simp
qed

lemma distinct_loop_seqs:
  assumes "n < 32768"
  shows "distinct (loop_seqs s (s + of_nat n))"
proof -
  have "inj_on (\<lambda>i. s + of_nat i :: u16) (set [0..<Suc n])"
  proof (rule inj_onI)
    fix i j assume "i \<in> set [0..<Suc n]" "j \<in> set [0..<Suc n]" "s + of_nat i = (s + of_nat j :: u16)"
    then have "i < 65536" "j < 65536" "of_nat i = (of_nat j :: u16)" using assms by auto
    then show "i = j" using unat_of_nat_u16 by metis
  qed
  then show ?thesis unfolding loop_seqs_eq [OF assms] distinct_map by simp
qed

section \<open>Sending out again\<close>

definition packet_at :: "chan \<Rightarrow> u16 \<Rightarrow> buffered_packet" where
  "packet_at c s = ring_entries (c_window c) ! slot (c_window c) s"

text \<open>The datagram the window holds for a number, and whether an update sends it.\<close>

definition datagram :: "chan \<Rightarrow> u16 \<Rightarrow> bytes" where
  "datagram c s = (case bp_buf (packet_at c s) of Some b \<Rightarrow> bb_bytes b | None \<Rightarrow> [])"

definition due :: "float64 \<Rightarrow> chan \<Rightarrow> u16 \<Rightarrow> bool" where
  "due t c s \<longleftrightarrow> stored (c_window c) s \<and>
     \<not> (bp_written (packet_at c s) \<and> flt (fsub t (bp_time (packet_at c s))) (round64 (1 / 10)))"

text \<open>\<open>c'\<close> is \<open>c\<close> after the packets in \<open>ss\<close> were sent at time \<open>t\<close>.\<close>

definition sent_out :: "float64 \<Rightarrow> u16 list \<Rightarrow> chan \<Rightarrow> chan \<Rightarrow> bool" where
  "sent_out t ss c c' \<longleftrightarrow> window_ok (c_window c') \<and> ring_buf (c_window c') = ring_buf (c_window c) \<and>
     length (ring_entries (c_window c')) = length (ring_entries (c_window c)) \<and>
     (\<forall>s. stored (c_window c) s \<longrightarrow> packet_at c' s =
        (if s \<in> set ss then (packet_at c s)\<lparr>bp_time := t, bp_written := True\<rparr> else packet_at c s)) \<and>
     c_outQueue c' = c_outQueue c @ map (datagram c) ss \<and>
     c_lastSent c' = (if ss = [] then c_lastSent c else t) \<and>
     c_readQueue c' = c_readQueue c \<and> c_writeQueue c' = c_writeQueue c \<and> c_queue c' = c_queue c \<and>
     c_oldestUnacked c' = c_oldestUnacked c \<and> c_stdout c' = c_stdout c"

lemma sent_out_stored: "sent_out t ss c c' \<Longrightarrow> stored (c_window c') s = stored (c_window c) s"
  by (simp add: sent_out_def stored_def slot_def)

lemma sent_out_refl: "window_ok (c_window c) \<Longrightarrow> sent_out t [] c c"
  by (simp add: sent_out_def)

lemma sent_out_datagram:
  "sent_out t ss c c' \<Longrightarrow> stored (c_window c) s \<Longrightarrow> datagram c' s = datagram c s"
  by (simp add: sent_out_def datagram_def)

lemma sent_out_trans:
  assumes "sent_out t ss c c'" and "sent_out t ts c' c''" and "\<forall>s \<in> set ts. stored (c_window c) s"
  shows "sent_out t (ss @ ts) c c''"
proof -
  have "map (datagram c') ts = map (datagram c) ts"
    using assms(3) sent_out_datagram [OF assms(1)] by simp
  with assms(1,2) sent_out_stored [OF assms(1)] show ?thesis
    unfolding sent_out_def by auto
qed

lemma sent_out_due:
  "sent_out t ss c c' \<Longrightarrow> s \<notin> set ss \<Longrightarrow> due t c' s = due t c s"
  using sent_out_stored [of t ss c c' s] by (auto simp: due_def sent_out_def)

lemma resend_eq:
  assumes w: "window_ok (c_window c)"
  obtains c' where "resend t s c = Some c'" "sent_out t (if due t c s then [s] else []) c c'"
proof -
  let ?w = "c_window c" and ?p = "packet_at c s"
  have wf: "ring_wf ?w" using w by (simp add: window_ok_def)
  let ?i = "slot ?w s"
  have i: "?i < length (ring_entries ?w)" using wf by simp
  show ?thesis
  proof (cases "due t c s")
    case False
    then have "resend t s c = Some c"
      using wf i by (auto simp: resend_def buffer_defs ring_Find_eq ring_read_eq due_def packet_at_def)
    with False w show ?thesis by (intro that [of c]) (simp_all add: sent_out_refl)
  next
    case True
    then have st: "stored ?w s" by (simp add: due_def)
    then obtain b where b: "bp_buf ?p = Some b" using w by (auto simp: window_ok_def packet_at_def)
    let ?p' = "?p\<lparr>bp_time := t, bp_written := True\<rparr>"
    define w' where "w' = ?w\<lparr>ring_entries := (ring_entries ?w) [?i := ?p']\<rparr>"
    define c' where "c' = c\<lparr>c_window := w', c_outQueue := c_outQueue c @ [bb_bytes b], c_lastSent := t\<rparr>"
    have "resend t s c = Some c'"
      using wf i b st True
      by (auto simp: resend_def buffer_defs ring_Find_eq ring_read_eq ring_write_eq due_def
          packet_at_def w'_def c'_def Let_def)
    moreover have at: "packet_at c' q = (if q \<in> set [s] then (packet_at c q)\<lparr>bp_time := t, bp_written := True\<rparr>
        else packet_at c q)" if "stored ?w q" for q
    proof (cases "q = s")
      case True
      then show ?thesis using i by (simp add: packet_at_def c'_def w'_def)
    next
      case False
      then have "slot ?w q \<noteq> ?i" using stored_slot_inj [OF that st] by auto
      with False show ?thesis by (simp add: packet_at_def c'_def w'_def)
    qed
    moreover have "window_ok w'"
    proof -
      have "bp_buf (ring_entries w' ! slot ?w q) \<noteq> None" if "stored ?w q" for q
      proof -
        have "bp_buf (packet_at c' q) = bp_buf (packet_at c q)" using at [OF that] by simp
        then show ?thesis using w that by (simp add: packet_at_def c'_def w'_def window_ok_def)
      qed
      moreover have "ring_wf w'" using wf by (simp add: w'_def ring_wf_def)
      ultimately show ?thesis by (simp add: window_ok_def w'_def)
    qed
    moreover have "datagram c s = bb_bytes b" using b by (simp add: datagram_def)
    ultimately show ?thesis using True
      by (intro that [of c']) (simp_all add: sent_out_def, simp_all add: c'_def w'_def)
  qed
qed

text \<open>The loop sends exactly the packets that are due, each once, in the order of their numbers.\<close>

lemma resend_all_eq:
  "window_ok (c_window c) \<Longrightarrow> distinct ss \<Longrightarrow>
   \<exists>c'. resend_all t ss c = Some c' \<and> sent_out t (filter (due t c) ss) c c'"
proof (induction ss arbitrary: c)
  case Nil
  then show ?case by (simp add: sent_out_refl)
next
  case (Cons s ss)
  obtain c1 where c1: "resend t s c = Some c1" "sent_out t (if due t c s then [s] else []) c c1"
    using resend_eq [OF Cons.prems(1)] .
  have w1: "window_ok (c_window c1)" using c1(2) by (simp add: sent_out_def)
  obtain c2 where c2: "resend_all t ss c1 = Some c2" "sent_out t (filter (due t c1) ss) c1 c2"
    using Cons.IH [OF w1] Cons.prems(2) by auto
  have "due t c1 q = due t c q" if "q \<in> set ss" for q
    using sent_out_due [OF c1(2), of q] Cons.prems(2) that
    by (metis distinct.simps(2) empty_iff empty_set set_ConsD)
  then have "filter (due t c1) ss = filter (due t c) ss" by (intro filter_cong refl)
  then have "sent_out t ((if due t c s then [s] else []) @ filter (due t c) ss) c c2"
    using sent_out_trans [OF c1(2)] c2(2) by (auto simp: due_def)
  then show ?case using c1(1) c2(1) by (auto split: if_splits)
qed

section \<open>Writing and holding back\<close>

text \<open>
  \<open>n\<close> packets written one after the other. The window is full when the next number is
  \<open>recv_window\<close> ahead of the oldest unacknowledged one; \<open>room\<close> is how many packets fit before.
\<close>

definition room :: "channel \<Rightarrow> nat" where
  "room e = unat (c_oldestUnacked (ep_disp e) + recv_window e - ep_seq e)"

fun write_all :: "lib \<Rightarrow> bytes list \<Rightarrow> channel \<Rightarrow> channel option" where
  "write_all lib [] e = Some e"
| "write_all lib (b # bs) e = do {
     (e, _) \<leftarrow> WritePacket lib (Channel_Transmit lib) b e;
     write_all lib bs e }"

text \<open>
  An update \<open>g\<close> of the dispatcher's state that \<open>Transmit\<close> does not see can come before or after
  \<open>WritePacket\<close>. The fields that hold packets back are such updates.
\<close>

definition on_disp :: "('d \<Rightarrow> 'd) \<Rightarrow> 'd endpoint \<Rightarrow> 'd endpoint" where
  "on_disp g e = e\<lparr>ep_disp := g (ep_disp e)\<rparr>"

lemma on_disp_simps [simp]:
  "ep_config (on_disp g e) = ep_config e" "ep_disp (on_disp g e) = g (ep_disp e)"
  "ep_seq (on_disp g e) = ep_seq e" "ep_time (on_disp g e) = ep_time e"
  "ep_sent (on_disp g e) = ep_sent e" "ep_recv (on_disp g e) = ep_recv e"
  "ep_pool (on_disp g e) = ep_pool e"
  "(on_disp g e)\<lparr>ep_seq := s\<rparr> = on_disp g (e\<lparr>ep_seq := s\<rparr>)"
  "(on_disp g e)\<lparr>ep_sent := b\<rparr> = on_disp g (e\<lparr>ep_sent := b\<rparr>)"
  "(on_disp g e)\<lparr>ep_pool := k\<rparr> = on_disp g (e\<lparr>ep_pool := k\<rparr>)"
  by (simp_all add: on_disp_def)

locale commuting =
  fixes transmit :: "u16 \<Rightarrow> bytes \<Rightarrow> 'd endpoint \<Rightarrow> 'd endpoint option" and g :: "'d \<Rightarrow> 'd"
  assumes transmit_on_disp: "transmit s b (on_disp g e) = map_option (on_disp g) (transmit s b e)"
begin

lemma write_fragments_on_disp:
  "write_fragments lib transmit s h fh n fid buf w (on_disp g e) =
     map_option (\<lambda>(e, w). (on_disp g e, w)) (write_fragments lib transmit s h fh n fid buf w e)"
proof (induction n arbitrary: fh fid buf w e)
  case (Suc n)
  show ?case
    by (simp add: Let_def transmit_on_disp Suc map_option_bind bind_map_option comp_def cong: Option.bind_cong)
qed simp

lemma write_compact_on_disp:
  "write_compact lib transmit s h k buf (on_disp g e) =
     map_option (\<lambda>(e, w). (on_disp g e, w)) (write_compact lib transmit s h k buf e)"
  by (simp add: write_compact_def Let_def transmit_on_disp map_option_bind bind_map_option comp_def)

lemma WritePacket_on_disp:
  "WritePacket lib transmit buf (on_disp g e) =
     map_option (\<lambda>(e, w). (on_disp g e, w)) (WritePacket lib transmit buf e)"
  by (auto simp: WritePacket_def Let_def pool_Get_def write_compact_on_disp write_fragments_on_disp
      map_option_bind comp_def simp del: write_fragments.simps split: prod.split intro!: Option.bind_cong)

end

lemma Channel_Transmit_on_disp:
  assumes "\<And>c. c_window (g c) = c_window c" and "\<And>c w. g (c\<lparr>c_window := w\<rparr>) = g c\<lparr>c_window := w\<rparr>"
  shows "commuting (Channel_Transmit lib) g"
proof
  fix s b and e :: channel
  have g: "(on_disp g e)\<lparr>ep_pool := k, ep_disp := (g (ep_disp e))\<lparr>c_window := w\<rparr>\<rparr> =
      on_disp g (e\<lparr>ep_pool := k, ep_disp := (ep_disp e)\<lparr>c_window := w\<rparr>\<rparr>)" for k w
    by (simp add: on_disp_def assms(2))
  show "Channel_Transmit lib s b (on_disp g e) = map_option (on_disp g) (Channel_Transmit lib s b e)"
    using g by (simp add: Channel_Transmit_def copy_of_def pool_Get_def Let_def map_option_bind comp_def
        case_prod_unfold assms(1) cong: Option.bind_cong)
qed

interpretation queue: commuting "Channel_Transmit lib" "c_queue_update (\<lambda>_. y)" for lib y
  by (rule Channel_Transmit_on_disp) simp_all

interpretation writeQueue: commuting "Channel_Transmit lib" "c_writeQueue_update (\<lambda>_. y)" for lib y
  by (rule Channel_Transmit_on_disp) simp_all

lemma write_all_on_disp:
  assumes "commuting (Channel_Transmit lib) g"
  shows "write_all lib bs (on_disp g e) = map_option (on_disp g) (write_all lib bs e)"
  by (induction bs arbitrary: e)
    (simp_all add: commuting.WritePacket_on_disp [OF assms] map_option_bind bind_map_option comp_def
      case_prod_unfold cong: Option.bind_cong)

lemmas write_all_queue = write_all_on_disp [OF queue.commuting_axioms]
lemmas write_all_writeQueue = write_all_on_disp [OF writeQueue.commuting_axioms]

text \<open>The flush of the queue writes its first packets, and drops them.\<close>

lemma flush_queue_writes:
  "flush_queue lib n e = map_option (on_disp (c_queue_update (\<lambda>_. drop n (c_queue (ep_disp e)))))
     (write_all lib (map bb_bytes (take n (c_queue (ep_disp e)))) e)"
proof (induction n arbitrary: e)
  case 0
  show ?case by (simp add: on_disp_def)
next
  case (Suc n)
  show ?case
  proof (cases "c_queue (ep_disp e)")
    case Nil
    then show ?thesis by (simp add: on_disp_def)
  next
    case (Cons b rest)
    let ?g = "on_disp (c_queue_update (\<lambda>_. rest))"
    have e: "e\<lparr>ep_disp := (ep_disp e)\<lparr>c_queue := rest\<rparr>\<rparr> = ?g e" by (simp add: on_disp_def)
    have "flush_queue lib n (?g e1) = map_option (on_disp (c_queue_update (\<lambda>_. drop n rest)))
        (write_all lib (map bb_bytes (take n rest)) e1)" for e1
      by (simp add: Suc write_all_queue option.map_comp comp_def) (simp add: on_disp_def [abs_def])
    then show ?thesis
      using Cons by (simp add: e queue.WritePacket_on_disp map_option_bind bind_map_option comp_def
          case_prod_unfold cong: Option.bind_cong)
  qed
qed

definition chan_ok :: "channel \<Rightarrow> bool" where
  "chan_ok e \<longleftrightarrow> ep_ok e \<and> chan_inv (ep_disp e) (ep_seq e)"

lemma chan_okD: "chan_ok e \<Longrightarrow> ep_ok e" "chan_ok e \<Longrightarrow> chan_inv (ep_disp e) (ep_seq e)"
  "chan_ok e \<Longrightarrow> window_ok (c_window (ep_disp e))"
  by (simp_all add: chan_ok_def chan_inv_def)

text \<open>Everything of the channel's own state except the window.\<close>

definition same_queues :: "chan \<Rightarrow> chan \<Rightarrow> bool" where
  "same_queues c c' \<longleftrightarrow> c' = c\<lparr>c_window := c_window c'\<rparr>"

lemma same_queues_refl [simp]: "same_queues c c"
  by (simp add: same_queues_def)

lemma same_queues_window [simp]: "same_queues c (c\<lparr>c_window := w\<rparr>)"
  by (simp add: same_queues_def)

lemma same_queues_trans: "same_queues c c' \<Longrightarrow> same_queues c' c'' \<Longrightarrow> same_queues c c''"
  by (cases c; cases c'; cases c'') (simp add: same_queues_def)

lemma same_queuesD:
  assumes "same_queues c c'"
  shows "c_readQueue c' = c_readQueue c" "c_writeQueue c' = c_writeQueue c"
    "c_outQueue c' = c_outQueue c" "c_queue c' = c_queue c"
    "c_oldestUnacked c' = c_oldestUnacked c" "c_lastSent c' = c_lastSent c" "c_stdout c' = c_stdout c"
  by (subst assms [unfolded same_queues_def], simp)+

text \<open>A channel that has taken the packets \<open>bs\<close> from its write queue and holds \<open>q\<close> back.\<close>

definition held_back :: "bytes list \<Rightarrow> byte_buffer list \<Rightarrow> channel \<Rightarrow> channel" where
  "held_back bs q e = e\<lparr>ep_pool := ep_pool e + length q, ep_disp := (ep_disp e)
     \<lparr>c_writeQueue := (if bs = [] then c_writeQueue (ep_disp e) else []),
      c_queue := c_queue (ep_disp e) @ q\<rparr>\<rparr>"

lemma chan_ok_held_back [simp]: "chan_ok (held_back bs q e) = chan_ok e"
  by (simp add: held_back_def chan_ok_def ep_ok_def)

lemma held_back_simps [simp]:
  "ep_config (held_back bs q e) = ep_config e" "ep_seq (held_back bs q e) = ep_seq e"
  "c_queue (ep_disp (held_back bs q e)) = c_queue (ep_disp e) @ q"
  "c_window (ep_disp (held_back bs q e)) = c_window (ep_disp e)"
  "c_oldestUnacked (ep_disp (held_back bs q e)) = c_oldestUnacked (ep_disp e)"
  by (simp_all add: held_back_def)

context library
begin

lemma transmit_all_channel:
  "chan_inv (ep_disp e) (ep_seq e) \<or> (chan_inv (ep_disp e) (ep_seq e - 1) \<and> bs \<noteq> []) \<Longrightarrow>
   transmit_all (Channel_Transmit lib) (ep_seq e - 1) bs e = Some e' \<Longrightarrow>
   same_queues (ep_disp e) (ep_disp e') \<and>
   (bs \<noteq> [] \<longrightarrow> stored (c_window (ep_disp e')) (ep_seq e - 1) \<and>
      datagram (ep_disp e') (ep_seq e - 1) = last bs \<and>
      \<not> bp_written (packet_at (ep_disp e') (ep_seq e - 1)))"
proof (induction bs arbitrary: e)
  case Nil
  then show ?case by simp
next
  case (Cons b bs)
  let ?s = "ep_seq e - 1"
  have inv: "chan_inv (ep_disp e) (?s + 1) \<or> chan_inv (ep_disp e) ?s" using Cons.prems(1) by auto
  let ?c = "(ep_disp e)\<lparr>c_window := put_packet (c_window (ep_disp e)) ?s (copied b (ep_pool e))\<rparr>"
  let ?e = "e\<lparr>ep_disp := ?c, ep_pool := Suc (ep_pool e)\<rparr>"
  note T = Channel_Transmit_eq [OF inv, of b]
  have wf: "ring_wf (c_window (ep_disp e))" using inv by (auto simp: chan_inv_def window_ok_def)
  have rest: "transmit_all (Channel_Transmit lib) (ep_seq ?e - 1) bs ?e = Some e'"
    using Cons.prems(2) T(1) by simp
  have "chan_inv (ep_disp ?e) (ep_seq ?e)" using T(2) by simp
  with Cons.IH [OF _ rest] have IH: "same_queues ?c (ep_disp e')"
    "bs \<noteq> [] \<Longrightarrow> stored (c_window (ep_disp e')) ?s \<and> datagram (ep_disp e') ?s = last bs \<and>
      \<not> bp_written (packet_at (ep_disp e') ?s)"
    by simp_all
  show ?case
  proof (cases "bs = []")
    case True
    have "packet_at ?c ?s = zero_BufferedPacket\<lparr>bp_buf := Some (copied b (ep_pool e))\<rparr>"
      using slot_less [OF wf, of ?s] by (simp add: packet_at_def put_packet_def slot_def)
    then have "datagram ?c ?s = b" "\<not> bp_written (packet_at ?c ?s)"
      by (simp_all add: datagram_def) (simp add: zero_BufferedPacket_def)
    moreover have "stored (c_window ?c) ?s" using wf by (simp add: stored_put_packet)
    moreover have "e' = ?e" using rest True by simp
    ultimately show ?thesis using True by simp
  next
    case False
    then show ?thesis using IH same_queues_trans [OF same_queues_window IH(1)] by simp
  qed
qed

text \<open>
  After a write the window holds, under the packet's number, the last of its datagrams; every
  other field is as before.
\<close>

lemma channel_WritePacket:
  assumes ok: "chan_ok e" and size: "length buf \<le> MaxPacketSize (ep_config e)"
  obtains e' where "WritePacket lib (Channel_Transmit lib) buf e =
      Some (e', sum_list (map length (packet_datagrams lib e buf)))"
    "chan_ok e'" "ep_seq e' = ep_seq e + 1" "same_queues (ep_disp e) (ep_disp e')"
    "stored (c_window (ep_disp e')) (ep_seq e)"
    "datagram (ep_disp e') (ep_seq e) = last (packet_datagrams lib e buf)"
    "\<not> bp_written (packet_at (ep_disp e') (ep_seq e))" "writes e e'"
proof -
  have inv: "chan_inv (ep_disp e) (ep_seq e)" and epok: "ep_ok e" using ok by (simp_all add: chan_ok_def)
  let ?bs = "packet_datagrams lib e buf" and ?p = "prepared e buf"
  obtain x k where W: "WritePacket lib (Channel_Transmit lib) buf e =
      Some (?p\<lparr>ep_disp := x, ep_pool := k\<rparr>, sum_list (map length ?bs))" "chan_inv x (ep_seq e + 1)"
    using outgoing.WritePacket_ok [OF epok inv size] .
  let ?e' = "?p\<lparr>ep_disp := x, ep_pool := k\<rparr>"
  have "map_option (\<lambda>e'. (e', sum_list (map length ?bs)))
      (transmit_all (Channel_Transmit lib) (ep_seq e) ?bs ?p) = Some (?e', sum_list (map length ?bs))"
    using W(1) by (simp only: outgoing.WritePacket_eq [OF epok inv size] Let_def)
  then have "transmit_all (Channel_Transmit lib) (ep_seq e) ?bs ?p = Some ?e'"
    by (auto simp: map_option_eq_Some)
  then have t: "transmit_all (Channel_Transmit lib) (ep_seq ?p - 1) ?bs ?p = Some ?e'" by simp
  have "chan_inv (ep_disp ?p) (ep_seq ?p) \<or> (chan_inv (ep_disp ?p) (ep_seq ?p - 1) \<and> ?bs \<noteq> [])"
    using inv by (simp add: packet_datagrams_nonempty)
  from transmit_all_channel [OF this t]
  have "same_queues (ep_disp e) (ep_disp ?e')" "stored (c_window (ep_disp ?e')) (ep_seq e)"
    "datagram (ep_disp ?e') (ep_seq e) = last ?bs" "\<not> bp_written (packet_at (ep_disp ?e') (ep_seq e))"
    by (simp_all add: packet_datagrams_nonempty)
  moreover have "chan_ok ?e'" using W(2) ep_ok_prepared [OF epok] by (simp add: chan_ok_def)
  moreover have "writes e ?e'" using writes_prepared writes_disp_pool by (rule writes_trans)
  ultimately show ?thesis using W(1) by (intro that [of ?e']) simp_all
qed

lemma chan_ok_queues [simp]:
  "chan_ok (e\<lparr>ep_disp := (ep_disp e)\<lparr>c_writeQueue := x\<rparr>\<rparr>) = chan_ok e"
  "chan_ok (e\<lparr>ep_disp := (ep_disp e)\<lparr>c_readQueue := x\<rparr>\<rparr>) = chan_ok e"
  "chan_ok (e\<lparr>ep_disp := (ep_disp e)\<lparr>c_queue := y\<rparr>\<rparr>) = chan_ok e"
  "chan_ok (e\<lparr>ep_pool := k\<rparr>) = chan_ok e"
  by (simp_all add: chan_ok_def ep_ok_def)

text \<open>While the window is full, packets are appended to the queue.\<close>

lemma drain_writes_full:
  "room e = 0 \<Longrightarrow> \<exists>q. map bb_bytes q = bs \<and> drain_writes lib bs e = Some (held_back bs q e)"
proof (induction bs arbitrary: e)
  case Nil
  show ?case by (intro exI [of _ "[]"]) (cases e, simp add: held_back_def)
next
  case (Cons b bs)
  let ?e = "e\<lparr>ep_pool := Suc (ep_pool e), ep_disp := (ep_disp e)\<lparr>c_writeQueue := bs,
    c_queue := c_queue (ep_disp e) @ [copied b (ep_pool e)]\<rparr>\<rparr>"
  have full: "c_oldestUnacked (ep_disp e) + recv_window e = ep_seq e"
    using Cons.prems by (simp add: room_def unat_eq_0)
  have "room ?e = 0" using Cons.prems by (simp add: room_def recv_window_def)
  from Cons.IH [OF this] obtain q where q: "map bb_bytes q = bs"
    "drain_writes lib bs ?e = Some (held_back bs q ?e)" by blast
  have "drain_writes lib (b # bs) e = drain_writes lib bs ?e"
    using full by (simp add: recv_window_def copy_of_eq)
  moreover have "held_back bs q ?e = held_back (b # bs) (copied b (ep_pool e) # q) e"
    by (simp add: held_back_def)
  ultimately show ?case using q by (intro exI [of _ "copied b (ep_pool e) # q"]) simp
qed

text \<open>
  The packets that fit are written, the others are appended to the queue, both in order.
\<close>

lemma drain_writes_eq:
  "chan_ok e \<Longrightarrow> \<forall>b \<in> set bs. length b \<le> MaxPacketSize (ep_config e) \<Longrightarrow>
   \<exists>e1 q. write_all lib (take (room e) bs) e = Some e1 \<and> chan_ok e1 \<and>
     ep_seq e1 = ep_seq e + of_nat (min (room e) (length bs)) \<and>
     c_queue (ep_disp e1) = c_queue (ep_disp e) \<and>
     map bb_bytes q = drop (room e) bs \<and> drain_writes lib bs e = Some (held_back bs q e1)"
proof (induction bs arbitrary: e)
  case Nil
  then show ?case by (intro exI [of _ e] exI [of _ "[]"]) (cases e, simp add: held_back_def)
next
  case (Cons b bs)
  show ?case
  proof (cases "room e")
    case 0
    from drain_writes_full [OF this, of "b # bs"] Cons.prems(1) 0 show ?thesis by auto
  next
    case (Suc r)
    let ?g = "on_disp (c_writeQueue_update (\<lambda>_. bs)) :: channel \<Rightarrow> channel"
    have g: "e\<lparr>ep_disp := (ep_disp e)\<lparr>c_writeQueue := bs\<rparr>\<rparr> = ?g e" "chan_ok (?g x) = chan_ok x"
      "room (?g x) = room x" "recv_window (?g e) = recv_window e" for x
      by (simp_all add: on_disp_def room_def recv_window_def)
    have size: "length b \<le> MaxPacketSize (ep_config e)" using Cons.prems(2) by simp
    obtain e1 w where e1: "WritePacket lib (Channel_Transmit lib) b e = Some (e1, w)" "chan_ok e1"
      "ep_seq e1 = ep_seq e + 1" "same_queues (ep_disp e) (ep_disp e1)" "writes e e1"
      by (rule channel_WritePacket [OF Cons.prems(1) size]) auto
    have cfg: "ep_config e1 = ep_config e" using e1(5) by (simp add: writes_def)
    have free: "c_oldestUnacked (ep_disp e) + recv_window e - ep_seq e \<noteq> 0"
      using Suc by (auto simp: room_def)
    then have notfull: "c_oldestUnacked (ep_disp e) + recv_window e \<noteq> ep_seq e" by auto
    have "room e1 = unat (c_oldestUnacked (ep_disp e) + recv_window e - ep_seq e - 1)"
      using e1(3) same_queuesD(5) [OF e1(4)] cfg by (simp add: room_def recv_window_def diff_diff_eq)
    also have "\<dots> = r" using unat_minus_one [OF free] Suc by (simp add: room_def)
    finally have room: "room (?g e1) = r" by (simp add: g(3))
    have "chan_ok (?g e1)" "\<forall>b \<in> set bs. length b \<le> MaxPacketSize (ep_config (?g e1))"
      using Cons.prems(2) cfg e1(2) by (simp_all add: g(2))
    from Cons.IH [OF this] obtain e2 q where e2: "write_all lib (take r bs) (?g e1) = Some e2" "chan_ok e2"
      "ep_seq e2 = ep_seq e1 + of_nat (min r (length bs))" "c_queue (ep_disp e2) = c_queue (ep_disp e1)"
      "map bb_bytes q = drop r bs" "drain_writes lib bs (?g e1) = Some (held_back bs q e2)"
      unfolding room by auto
    then obtain e3 where e3: "write_all lib (take r bs) e1 = Some e3" "e2 = ?g e3"
      by (auto simp: write_all_writeQueue)
    have "drain_writes lib (b # bs) e = Some (held_back bs q (?g e3))"
      using notfull e1(1) e2(6) e3(2) by (simp add: Let_def g(1,4) writeQueue.WritePacket_on_disp)
    also have "held_back bs q (?g e3) = held_back (b # bs) q e3" by (simp add: held_back_def on_disp_def)
    finally show ?thesis
      using e1(1,3) e2(2-5) e3 Suc same_queuesD(4) [OF e1(4)]
      by (intro exI [of _ e3] exI [of _ q]) (simp add: g(2))
  qed
qed

section \<open>The whole update\<close>

lemma drain_writes_ok:
  "chan_ok e \<Longrightarrow> \<exists>e'. drain_writes lib bs e = Some e' \<and> chan_ok e' \<and> ep_config e' = ep_config e"
proof (induction bs arbitrary: e)
  case Nil
  then show ?case by simp
next
  case (Cons b bs)
  let ?e = "e\<lparr>ep_disp := (ep_disp e)\<lparr>c_writeQueue := bs\<rparr>\<rparr>"
  show ?case
  proof (cases "room e = 0")
    case True
    from drain_writes_full [OF this, of "b # bs"] Cons.prems show ?thesis by auto
  next
    case False
    then have notfull: "c_oldestUnacked (ep_disp e) + recv_window ?e \<noteq> ep_seq e"
      by (auto simp: room_def recv_window_def)
    have "chan_ok ?e" using Cons.prems by simp
    then obtain e1 w where e1: "WritePacket lib (Channel_Transmit lib) b ?e = Some (e1, w)" "ep_ok e1"
      "chan_inv (ep_disp e1) (ep_seq e1)" "writes ?e e1"
      unfolding chan_ok_def using outgoing.WritePacket_inv by blast
    then have "chan_ok e1" "ep_config e1 = ep_config e" by (simp_all add: chan_ok_def writes_def)
    with Cons.IH [of e1] notfull e1(1) show ?thesis by (auto simp: Let_def)
  qed
qed

lemma drain_reads_ok:
  "chan_ok e \<Longrightarrow> \<forall>b \<in> set bs. b \<noteq> [] \<and> fits lib (ep_config e) b \<Longrightarrow>
   \<exists>e' err. drain_reads lib bs e = Some (e', err) \<and> chan_ok e' \<and> ep_config e' = ep_config e"
proof (induction bs arbitrary: e)
  case Nil
  then show ?case by simp
next
  case (Cons b bs)
  let ?e = "e\<lparr>ep_disp := (ep_disp e)\<lparr>c_readQueue := bs\<rparr>\<rparr>"
  have "channel.good ?e" using Cons.prems(1) by (simp add: channel.good_def chan_ok_def ep_ok_def)
  moreover have "b \<noteq> []" "fits lib (ep_config ?e) b" using Cons.prems(2) by simp_all
  ultimately obtain e1 err where e1: "ReadPacket lib (Channel_dispatcher lib) b ?e = Some (e1, err)"
    "channel.good e1" "ep_config e1 = ep_config ?e"
    using channel.ReadPacket_ok by blast
  have "chan_ok e1" using e1(2) by (simp add: channel.good_def chan_ok_def)
  with Cons.IH [of e1] Cons.prems(2) e1(1,3) show ?case
    by (cases err) auto
qed

text \<open>What an update does after reading.\<close>

lemma update_tail:
  assumes ok: "chan_ok e" and w: "unat (recv_window e) < 32768"
  obtains e3 c e5 v where "drain_writes lib (c_writeQueue (ep_disp e)) e = Some e3" "chan_ok e3"
    "ep_config e3 = ep_config e"
    "resend_all t (loop_seqs (c_oldestUnacked (ep_disp e3))
       (c_oldestUnacked (ep_disp e3) + recv_window e3)) (ep_disp e3) = Some c"
    "sent_out t (filter (due t (ep_disp e3)) (map (\<lambda>i. c_oldestUnacked (ep_disp e3) + of_nat i)
       [0..<Suc (unat (recv_window e))])) (ep_disp e3) c"
    "chan_ok (e3\<lparr>ep_disp := c\<rparr>)"
    "WritePacket lib (Channel_Transmit lib) [] (e3\<lparr>ep_disp := c\<rparr>) = Some (e5, v)" "chan_ok e5"
    "ep_config e5 = ep_config e"
proof -
  obtain e3 where e3: "drain_writes lib (c_writeQueue (ep_disp e)) e = Some e3" "chan_ok e3"
    "ep_config e3 = ep_config e" using drain_writes_ok [OF ok] by blast
  have rw: "recv_window e3 = recv_window e" using e3(3) by (simp add: recv_window_def)
  let ?o = "c_oldestUnacked (ep_disp e3)"
  let ?ss = "loop_seqs ?o (?o + recv_window e3)"
  have ss: "?ss = map (\<lambda>i. ?o + of_nat i) [0..<Suc (unat (recv_window e))]"
    using loop_seqs_eq [OF w, of ?o] by (simp add: rw del: upt_Suc)
  have "distinct ?ss" using distinct_loop_seqs [OF w, of ?o] by (simp add: rw)
  from resend_all_eq [OF chan_okD(3) [OF e3(2)] this] obtain c where
    c: "resend_all t ?ss (ep_disp e3) = Some c" "sent_out t (filter (due t (ep_disp e3)) ?ss) (ep_disp e3) c"
    by blast
  let ?e4 = "e3\<lparr>ep_disp := c\<rparr>"
  have "chan_inv c (ep_seq e3)"
    using c(2) chan_okD(2) [OF e3(2)] by (simp add: chan_inv_def sent_out_def)
  then have ok4: "chan_ok ?e4" using e3(2) by (simp add: chan_ok_def ep_ok_def)
  then obtain e5 v where e5: "WritePacket lib (Channel_Transmit lib) [] ?e4 = Some (e5, v)" "ep_ok e5"
    "chan_inv (ep_disp e5) (ep_seq e5)" "writes ?e4 e5"
    unfolding chan_ok_def using outgoing.WritePacket_inv by blast
  have "chan_ok e5" "ep_config e5 = ep_config e" using e5 e3(3) by (simp_all add: chan_ok_def writes_def)
  then show ?thesis by (rule that [OF e3 c(1) c(2) [unfolded ss] ok4 e5(1)])
qed

lemma Channel_Update_ok:
  assumes ok: "chan_ok e" and w: "unat (recv_window e) < 32768"
    and bs: "\<forall>b \<in> set (c_readQueue (ep_disp e)). b \<noteq> [] \<and> fits lib (ep_config e) b"
  shows "\<exists>e' err. Channel_Update lib t e = Some (e', err) \<and> chan_ok e' \<and> ep_config e' = ep_config e"
proof -
  obtain e1 where e1: "Update t e = Some e1" "ep_ok e1" "ep_disp e1 = ep_disp e"
    "ep_seq e1 = ep_seq e" "ep_config e1 = ep_config e"
    using Update_ok [OF chan_okD(1) [OF ok]] by metis
  then have ok1: "chan_ok e1" using ok by (simp add: chan_ok_def)
  have "\<forall>b \<in> set (c_readQueue (ep_disp e1)). b \<noteq> [] \<and> fits lib (ep_config e1) b"
    using bs e1 by simp
  from drain_reads_ok [OF ok1 this] obtain e2 err where
    e2: "drain_reads lib (c_readQueue (ep_disp e1)) e1 = Some (e2, err)" "chan_ok e2"
      "ep_config e2 = ep_config e1" by blast
  show ?thesis
  proof (cases err)
    case (Some x)
    then show ?thesis using e1 e2 by (simp add: Channel_Update_def)
  next
    case None
    have "unat (recv_window e2) < 32768" using w e1(5) e2(3) by (simp add: recv_window_def)
    then show ?thesis
      by (rule update_tail [OF e2(2), of t]) (use e1 e2 None in \<open>auto simp: Channel_Update_def Let_def\<close>)
  qed
qed

end

text \<open>A new channel satisfies the invariant.\<close>

lemma NewChannel_ok:
  assumes "config_ok (case c of None \<Rightarrow> NewConfig | Some c \<Rightarrow> c)"
  obtains e where "NewChannel c = Some e" "chan_ok e" "ep_seq e = 0"
    "ep_config e = (case c of None \<Rightarrow> NewConfig | Some c \<Rightarrow> c)"
    "c_oldestUnacked (ep_disp e) = 0" "c_queue (ep_disp e) = []" "c_outQueue (ep_disp e) = []"
    "c_readQueue (ep_disp e) = []" "c_writeQueue (ep_disp e) = []" "c_lastSent (ep_disp e) = Finite 0"
    "\<And>s. \<not> stored (c_window (ep_disp e)) s" "\<And>s. \<not> stored (ep_sent e) s" "c_stdout (ep_disp e) = []"
proof -
  define k where "k = (case c of None \<Rightarrow> NewConfig | Some c \<Rightarrow> c)"
  have "0 < SentPacketBufferSize k mod 65536" "SentPacketBufferSize k mod 65536 < 32768"
    using assms by (simp_all add: config_ok_def k_def)
  then obtain w where w: "NewPacketBuffer (of_nat (SentPacketBufferSize k)) = Some w" "ring_wf w"
    "latest (ring_buf w) = 0" "\<And>t. \<not> stored w t"
    using ring_New_ok [of "SentPacketBufferSize k" zero_BufferedPacket thesis] ring_New_ok
    by (metis NewPacketBuffer_def)
  define d where "d = \<lparr>c_window = w, c_readQueue = [], c_writeQueue = [], c_outQueue = [],
    c_queue = [], c_oldestUnacked = 0, c_lastSent = Finite 0, c_stdout = []\<rparr>"
  obtain e where e: "NewEndpoint d c = Some e" "ep_ok e" "ep_disp e = d" "ep_seq e = 0"
    "ep_config e = k" "\<And>t. \<not> stored (ep_sent e) t"
    unfolding k_def by (rule NewEndpoint_ok [OF assms, of d]) (rule that; simp add: k_def)
  have "NewChannel c = Some e" using w(1) e(1) by (simp add: NewChannel_def Let_def d_def flip: k_def)
  moreover have "chan_ok e" using e w by (simp add: chan_ok_def chan_inv_def window_ok_def d_def)
  ultimately show ?thesis using e w(4) by (intro that [of e]) (simp_all add: d_def k_def)
qed

end
