(* ===== verification/ChannelProperties.thy ===== *)
theory ChannelProperties
  imports ChannelUpdate
begin

text \<open>
  What a channel guarantees: its update is total on datagrams that fit, sends exactly the packets that are due,
  holds packets back in order and releases them in order; and where it falls short of a
  reliable channel. Every theorem is a claim about the code, followed by an instance.
\<close>

section \<open>Acknowledgements\<close>

text \<open>The number that becomes the oldest unacknowledged one when \<open>s\<close> is acknowledged.\<close>

definition next_oldest :: "channel \<Rightarrow> u16 \<Rightarrow> u16" where
  "next_oldest e s =
     (case List.find (stored (c_window (ep_disp e)))
        (map (\<lambda>i. s + of_nat i) [1..<Suc (unat (recv_window e))]) of
        Some q \<Rightarrow> q | None \<Rightarrow> s + recv_window e)"

definition removed :: "packet_buffer \<Rightarrow> u16 \<Rightarrow> packet_buffer" where
  "removed w s = w\<lparr>ring_buf := (ring_buf w)
     \<lparr>seq_entries := (seq_entries (ring_buf w)) [slot w s := EmptySequenceBufferEntry]\<rparr>\<rparr>"

lemma stored_removed:
  assumes "ring_wf w" and "stored w s"
  shows "stored (removed w s) q \<longleftrightarrow> stored w q \<and> q \<noteq> s"
proof -
  have sl: "slot (removed w s) t = slot w t" for t by (simp add: removed_def slot_def)
  show ?thesis
  proof (cases "slot w q = slot w s")
    case True
    then show ?thesis using assms stored_slot_inj [OF _ assms(2) True]
      unfolding stored_def sl by (auto simp: removed_def ring_wfD(3))
  next
    case False
    then show ?thesis unfolding stored_def sl by (auto simp: removed_def)
  qed
qed

lemma first_in_window_eq:
  "ring_wf w \<Longrightarrow> first_in_window w ss = Some (List.find (stored w) ss)"
  by (induction ss) (simp_all add: buffer_defs ring_Find_eq)

lemma recv_window_disp [simp]: "recv_window (e\<lparr>ep_disp := x\<rparr>) = recv_window e"
  by (simp add: recv_window_def)

lemma find_cong_set: "(\<And>x. x \<in> set xs \<Longrightarrow> P x = Q x) \<Longrightarrow> List.find P xs = List.find Q xs"
  by (induction xs) auto

context library
begin

lemma flush_queue_eq:
  "chan_ok e \<Longrightarrow> \<forall>b \<in> set (c_queue (ep_disp e)). length (bb_bytes b) \<le> MaxPacketSize (ep_config e) \<Longrightarrow>
   \<exists>e'. flush_queue lib n e = Some e' \<and> chan_ok e' \<and>
     c_queue (ep_disp e') = drop n (c_queue (ep_disp e)) \<and>
     ep_seq e' = ep_seq e + of_nat (min n (length (c_queue (ep_disp e)))) \<and>
     c_oldestUnacked (ep_disp e') = c_oldestUnacked (ep_disp e)"
proof (induction n arbitrary: e)
  case 0
  then show ?case by simp
next
  case (Suc n)
  show ?case
  proof (cases "c_queue (ep_disp e)")
    case Nil
    then show ?thesis using Suc.prems by simp
  next
    case (Cons b rest)
    let ?e = "e\<lparr>ep_disp := (ep_disp e)\<lparr>c_queue := rest\<rparr>\<rparr>"
    have ok: "chan_ok ?e" using Suc.prems(1) by simp
    have size: "length (bb_bytes b) \<le> MaxPacketSize (ep_config ?e)" using Suc.prems(2) Cons by simp
    obtain e1 w where e1: "WritePacket lib (Channel_Transmit lib) (bb_bytes b) ?e = Some (e1, w)" "chan_ok e1"
      "ep_seq e1 = ep_seq e + 1" "same_queues (ep_disp ?e) (ep_disp e1)" "writes ?e e1"
      by (rule channel_WritePacket [OF ok size]) auto
    have q: "c_queue (ep_disp e1) = rest" "c_oldestUnacked (ep_disp e1) = c_oldestUnacked (ep_disp e)"
      using same_queuesD(4,5) [OF e1(4)] by simp_all
    have "ep_config e1 = ep_config e" using e1(5) by (simp add: writes_def)
    then have "\<forall>b \<in> set (c_queue (ep_disp e1)). length (bb_bytes b) \<le> MaxPacketSize (ep_config e1)"
      using Suc.prems(2) Cons q(1) by simp
    from Suc.IH [OF e1(2) this] show ?thesis using Cons e1(1,3) q by auto
  qed
qed

lemma Channel_ACK_oldest:
  assumes ok: "chan_ok e" and st: "stored (c_window (ep_disp e)) s"
    and s: "c_oldestUnacked (ep_disp e) = s" and R: "0 < unat (recv_window e)" "unat (recv_window e) < 32768"
  shows "Channel_ACK lib s e = flush_queue lib (unat (next_oldest e s - s))
    (e\<lparr>ep_disp := (ep_disp e)\<lparr>c_window := removed (c_window (ep_disp e)) s,
       c_oldestUnacked := next_oldest e s\<rparr>\<rparr>)"
proof -
  let ?w = "c_window (ep_disp e)" and ?R = "unat (recv_window e)"
  have w: "window_ok ?w" using chan_okD(3) [OF ok] .
  then have wf: "ring_wf ?w" by (simp add: window_ok_def)
  have wf1: "ring_wf (removed ?w s)" using wf by (simp add: removed_def ring_wf_def)
  obtain b where b: "bp_buf (ring_entries ?w ! slot ?w s) = Some b"
    using st w by (auto simp: window_ok_def)
  have rd: "ring_read (removed ?w s) (slot ?w s) = Some (ring_entries ?w ! slot ?w s)"
    using slot_less [OF wf, of s] by (simp add: ring_read_def removed_def)
  have ops: "PacketBuffer_Find ?w s = Some (Some (slot ?w s))"
    "PacketBuffer_Remove ?w s = Some (removed ?w s)"
    using wf st by (simp_all add: buffer_defs ring_Find_eq ring_Remove_eq removed_def)
  have "loop_seqs (s + 1) (s + recv_window e) = loop_seqs (s + 1) (s + 1 + of_nat (?R - 1))"
    using R(1) by (simp add: of_nat_diff)
  also have "\<dots> = map (\<lambda>i. s + 1 + of_nat i) [0..<?R]"
    using loop_seqs_eq [of "?R - 1" "s + 1"] R by simp
  also have "\<dots> = map (\<lambda>i. s + of_nat i) [1..<Suc ?R]"
    unfolding One_nat_def map_Suc_upt [symmetric] map_map by (simp add: comp_def add.assoc add.commute)
  finally have ls: "loop_seqs (s + 1) (s + recv_window e) = map (\<lambda>i. s + of_nat i) [1..<Suc ?R]" .
  have same: "stored (removed ?w s) q = stored ?w q" if q: "q \<in> set (map (\<lambda>i. s + of_nat i) [1..<Suc ?R])" for q
  proof -
    obtain i where i: "i \<in> set [1..<Suc ?R]" "q = s + of_nat i" using q unfolding set_map
      by (elim imageE) (rule that)
    then have "0 < i" "i < 65536" using R(2) by auto
    then have "(of_nat i :: u16) \<noteq> 0" using unat_of_nat_u16 [of i] by auto
    then have "q \<noteq> s" using i(2) by simp
    then show ?thesis by (simp add: stored_removed [OF wf st])
  qed
  have fw: "first_in_window (removed ?w s) (loop_seqs (s + 1) (s + recv_window e)) =
      Some (List.find (stored ?w) (map (\<lambda>i. s + of_nat i) [1..<Suc ?R]))"
    unfolding first_in_window_eq [OF wf1] ls
    by (rule arg_cong [where f = Some], rule find_cong_set, rule same)
  show ?thesis
    using ops rd b fw s by (simp add: Channel_ACK_def Let_def next_oldest_def)
qed

lemma next_oldest_first:
  assumes "0 < k" and "k \<le> unat (recv_window e)" and "stored (c_window (ep_disp e)) (s + of_nat k)"
    and "\<forall>i. 0 < i \<and> i < k \<longrightarrow> \<not> stored (c_window (ep_disp e)) (s + of_nat i)"
  shows "next_oldest e s = s + of_nat k"
proof -
  have "List.find (stored (c_window (ep_disp e)))
      (map (\<lambda>i. s + of_nat i) [1..<Suc (unat (recv_window e))]) = Some (s + of_nat k)"
    unfolding find_Some_iff by (rule exI [of _ "k - 1"]) (use assms in \<open>auto simp del: upt_Suc\<close>)
  then show ?thesis by (simp add: next_oldest_def)
qed

lemma Channel_ACK_advance:
  assumes ok: "chan_ok e" and st: "stored (c_window (ep_disp e)) s"
    and s: "c_oldestUnacked (ep_disp e) = s" and R: "unat (recv_window e) < 32768"
    and k: "0 < k" "k \<le> unat (recv_window e)" "stored (c_window (ep_disp e)) (s + of_nat k)"
      "\<forall>i. 0 < i \<and> i < k \<longrightarrow> \<not> stored (c_window (ep_disp e)) (s + of_nat i)"
    and q: "\<forall>b \<in> set (c_queue (ep_disp e)). length (bb_bytes b) \<le> MaxPacketSize (ep_config e)"
  shows "\<exists>w e1. (\<forall>q. stored w q \<longleftrightarrow> stored (c_window (ep_disp e)) q \<and> q \<noteq> s) \<and>
    ring_entries w = ring_entries (c_window (ep_disp e)) \<and>
    write_all lib (take k (map bb_bytes (c_queue (ep_disp e))))
      (e\<lparr>ep_disp := (ep_disp e)\<lparr>c_window := w, c_oldestUnacked := s + of_nat k\<rparr>\<rparr>) = Some e1 \<and>
    Channel_ACK lib s e = Some (e1\<lparr>ep_disp := (ep_disp e1)\<lparr>c_queue := drop k (c_queue (ep_disp e))\<rparr>\<rparr>) \<and>
    chan_ok e1 \<and> c_oldestUnacked (ep_disp e1) = s + of_nat k \<and>
    ep_seq e1 = ep_seq e + of_nat (min k (length (c_queue (ep_disp e))))"
proof -
  let ?w = "removed (c_window (ep_disp e)) s"
  let ?e = "e\<lparr>ep_disp := (ep_disp e)\<lparr>c_window := ?w, c_oldestUnacked := s + of_nat k\<rparr>\<rparr>"
  have wf: "ring_wf (c_window (ep_disp e))" using chan_okD(3) [OF ok] by (simp add: window_ok_def)
  have "window_ok ?w" unfolding removed_def by (rule window_ok_removed [OF chan_okD(3) [OF ok]])
  moreover have "latest (ring_buf ?w) = latest (ring_buf (c_window (ep_disp e)))" by (simp add: removed_def)
  ultimately have "chan_ok ?e" using ok by (simp add: chan_ok_def chan_inv_def ep_ok_def)
  moreover have "\<forall>b \<in> set (c_queue (ep_disp ?e)). length (bb_bytes b) \<le> MaxPacketSize (ep_config ?e)"
    using q by simp
  ultimately obtain e' where e': "flush_queue lib k ?e = Some e'" "chan_ok e'"
    "ep_seq e' = ep_seq e + of_nat (min k (length (c_queue (ep_disp e))))"
    "c_oldestUnacked (ep_disp e') = s + of_nat k"
    using flush_queue_eq [of ?e k] by auto
  from e'(1) obtain e1 where
    e1: "write_all lib (map bb_bytes (take k (c_queue (ep_disp e)))) ?e = Some e1"
      "e' = e1\<lparr>ep_disp := (ep_disp e1)\<lparr>c_queue := drop k (c_queue (ep_disp e))\<rparr>\<rparr>"
    by (auto simp: flush_queue_writes on_disp_def)
  have "unat (next_oldest e s - s) = k"
    using k(2) R by (simp add: next_oldest_first [OF k] unat_of_nat_u16)
  then have "Channel_ACK lib s e = Some e'"
    using Channel_ACK_oldest [OF ok st s _ R] k(1,2) e'(1) by (simp add: next_oldest_first [OF k])
  moreover have "ring_entries ?w = ring_entries (c_window (ep_disp e))" by (simp add: removed_def)
  ultimately show ?thesis
    using e1 e'(2-4) stored_removed [OF wf st] by (intro exI [of _ ?w] exI [of _ e1]) (simp add: take_map)
qed

lemma Channel_ACK_other:
  assumes ok: "chan_ok e" and st: "stored (c_window (ep_disp e)) s" and s: "c_oldestUnacked (ep_disp e) \<noteq> s"
  shows "Channel_ACK lib s e = Some (e\<lparr>ep_disp := (ep_disp e)\<lparr>c_window := removed (c_window (ep_disp e)) s\<rparr>\<rparr>)"
proof -
  let ?w = "c_window (ep_disp e)"
  have w: "window_ok ?w" using chan_okD(3) [OF ok] .
  then have wf: "ring_wf ?w" by (simp add: window_ok_def)
  obtain b where b: "bp_buf (ring_entries ?w ! slot ?w s) = Some b"
    using st w by (auto simp: window_ok_def)
  have rd: "ring_read (removed ?w s) (slot ?w s) = Some (ring_entries ?w ! slot ?w s)"
    using slot_less [OF wf, of s] by (simp add: ring_read_def removed_def)
  have ops: "PacketBuffer_Find ?w s = Some (Some (slot ?w s))"
    "PacketBuffer_Remove ?w s = Some (removed ?w s)"
    using wf st by (simp_all add: buffer_defs ring_Find_eq ring_Remove_eq removed_def)
  show ?thesis using ops rd b s by (simp add: Channel_ACK_def Let_def)
qed

lemma transmit_all_stored:
  "chan_inv (ep_disp e) (ep_seq e) \<or> chan_inv (ep_disp e) (ep_seq e - 1) \<Longrightarrow>
   transmit_all (Channel_Transmit lib) (ep_seq e - 1) bs e = Some e' \<Longrightarrow>
   stored (c_window (ep_disp e')) q \<Longrightarrow> q = ep_seq e - 1 \<or> stored (c_window (ep_disp e)) q"
proof (induction bs arbitrary: e)
  case Nil
  then show ?case by simp
next
  case (Cons b bs)
  let ?s = "ep_seq e - 1"
  have inv: "chan_inv (ep_disp e) (?s + 1) \<or> chan_inv (ep_disp e) ?s" using Cons.prems(1) by auto
  let ?c = "(ep_disp e)\<lparr>c_window := put_packet (c_window (ep_disp e)) ?s (copied b (ep_pool e))\<rparr>"
  let ?e = "e\<lparr>ep_disp := ?c, ep_pool := Suc (ep_pool e)\<rparr>"
  note T = Channel_Transmit_eq [OF inv, of b]
  have wf: "ring_wf (c_window (ep_disp e))" using inv by (auto simp: chan_inv_def window_ok_def)
  have rest: "transmit_all (Channel_Transmit lib) (ep_seq ?e - 1) bs ?e = Some e'"
    using Cons.prems(2) T(1) by simp
  have "chan_inv (ep_disp ?e) (ep_seq ?e)" using T(2) by simp
  with Cons.IH [OF _ rest Cons.prems(3)] have "q = ?s \<or> stored (c_window ?c) q" by simp
  then show ?case using stored_put_packet [OF wf] by auto
qed

lemma channel_WritePacket_stored:
  assumes ok: "chan_ok e" and size: "length buf \<le> MaxPacketSize (ep_config e)"
    and W: "WritePacket lib (Channel_Transmit lib) buf e = Some (e', w)"
    and q: "stored (c_window (ep_disp e')) q"
  shows "q = ep_seq e \<or> stored (c_window (ep_disp e)) q"
proof -
  have inv: "chan_inv (ep_disp e) (ep_seq e)" and epok: "ep_ok e" using ok by (simp_all add: chan_ok_def)
  let ?p = "prepared e buf"
  have "transmit_all (Channel_Transmit lib) (ep_seq ?p - 1) (packet_datagrams lib e buf) ?p = Some e'"
    using W by (auto simp: outgoing.WritePacket_eq [OF epok inv size] Let_def)
  moreover have "chan_inv (ep_disp ?p) (ep_seq ?p) \<or> chan_inv (ep_disp ?p) (ep_seq ?p - 1)"
    using inv by simp
  ultimately show ?thesis using transmit_all_stored [of ?p _ e' q] q by simp
qed

end

section \<open>Claims\<close>

text \<open>
  A new channel, default or with buffer sizes in range, satisfies the invariant of all its
  operations, starts with number 0 as the oldest unacknowledged one and has nothing queued.
\<close>

theorem NewChannel_ready:
  assumes "config_ok (case c of None \<Rightarrow> NewConfig | Some c \<Rightarrow> c)"
  shows "case NewChannel c of
     None \<Rightarrow> False
   | Some e \<Rightarrow> chan_ok e \<and> Next e = 0 \<and> c_oldestUnacked (ep_disp e) = 0 \<and>
       c_queue (ep_disp e) = [] \<and> Channel_Out e = [] \<and> (\<forall>s. \<not> stored (c_window (ep_disp e)) s)"
  by (rule NewChannel_ok [OF assms]) (simp add: Next_def Channel_Out_def)

lemma NewChannel_ready_witness:
  "case NewChannel None of
     None \<Rightarrow> False
   | Some e \<Rightarrow> chan_ok e \<and> Next e = 0 \<and> c_oldestUnacked (ep_disp e) = 0 \<and>
       c_queue (ep_disp e) = [] \<and> Channel_Out e = [] \<and> (\<forall>s. \<not> stored (c_window (ep_disp e)) s)"
  by (rule NewChannel_ready) (simp add: NewConfig_ok)

text \<open>A default channel, for the instances.\<close>

definition default_channel :: channel where
  "default_channel = the (NewChannel None)"

lemma default_channel:
  "chan_ok default_channel" "ep_seq default_channel = 0" "ep_config default_channel = NewConfig"
  "c_oldestUnacked (ep_disp default_channel) = 0" "c_queue (ep_disp default_channel) = []"
  "c_outQueue (ep_disp default_channel) = []" "c_readQueue (ep_disp default_channel) = []"
  "\<not> stored (c_window (ep_disp default_channel)) s" "recv_window default_channel = 256"
proof -
  obtain e where e: "NewChannel None = Some e" "chan_ok e" "ep_seq e = 0" "ep_config e = NewConfig"
    "c_oldestUnacked (ep_disp e) = 0" "c_queue (ep_disp e) = []" "c_outQueue (ep_disp e) = []"
    "c_readQueue (ep_disp e) = []" "\<And>s. \<not> stored (c_window (ep_disp e)) s"
    by (rule NewChannel_ok [of None]) (simp_all add: NewConfig_ok)
  have "default_channel = e" using e(1) by (simp add: default_channel_def)
  with e show "chan_ok default_channel" "ep_seq default_channel = 0"
    "ep_config default_channel = NewConfig" "c_oldestUnacked (ep_disp default_channel) = 0"
    "c_queue (ep_disp default_channel) = []" "c_outQueue (ep_disp default_channel) = []"
    "c_readQueue (ep_disp default_channel) = []" "\<not> stored (c_window (ep_disp default_channel)) s"
    "recv_window default_channel = 256"
    by (simp_all add: recv_window_def NewConfig_def)
qed

text \<open>
  C8. If every datagram that waits in the read queue is non-empty, and its data fits the fragment
  size if it is a fragment, \<open>Update\<close> does not panic and keeps the channel's invariant, whatever
  these datagrams and the packets that wait in the write queue contain: it returns, possibly with
  the error of the first datagram that was refused.
\<close>

theorem Channel_Update_safe:
  assumes "lib_ok lib" and "chan_ok e" and "unat (recv_window e) < 32768"
    and "\<forall>b \<in> set (c_readQueue (ep_disp e)). b \<noteq> [] \<and> fits lib (ep_config e) b"
  shows "\<exists>e' err. Channel_Update lib t e = Some (e', err) \<and> chan_ok e' \<and> ep_config e' = ep_config e"
  by (rule library.Channel_Update_ok [OF library.intro]) (fact assms)+

text \<open>
  A channel that has received garbage, a fragment, and the two bytes of no packet at all, and that
  has two packets to write.
\<close>

definition busy_channel :: channel where
  "busy_channel = default_channel\<lparr>ep_disp := (ep_disp default_channel)\<lparr>
     c_readQueue := [[42, 0, 0, 0, 0, 0], [1, 0, 9, 0, 200, 7], [0, 1]], c_writeQueue := [[1, 2], [3]]\<rparr>\<rparr>"

lemma Channel_Update_safe_witness:
  "\<exists>e' err. Channel_Update be_lib (Finite 1) busy_channel = Some (e', err) \<and> chan_ok e' \<and>
    length (c_readQueue (ep_disp busy_channel)) = 3 \<and> length (c_writeQueue (ep_disp busy_channel)) = 2"
proof -
  have q: "c_readQueue (ep_disp busy_channel) = [[42, 0, 0, 0, 0, 0], [1, 0, 9, 0, 200, 7], [0, 1]]"
    "c_writeQueue (ep_disp busy_channel) = [[1, 2], [3]]"
    by (simp_all add: busy_channel_def)
  have "fits be_lib (ep_config busy_channel) b" if "b \<in> set (c_readQueue (ep_disp busy_channel))" for b
    using that unfolding q by (intro fits_short) (auto simp: busy_channel_def default_channel NewConfig_def)
  then have "\<forall>b \<in> set (c_readQueue (ep_disp busy_channel)). b \<noteq> [] \<and> fits be_lib (ep_config busy_channel) b"
    using q(1) by auto
  moreover have "chan_ok busy_channel" "unat (recv_window busy_channel) < 32768"
    using default_channel(1,9) by (simp_all add: busy_channel_def chan_ok_def ep_ok_def)
  ultimately show ?thesis using Channel_Update_safe [OF be_lib_ok, of busy_channel "Finite 1"] q by auto
qed

text \<open>
  C15. The writing loop of \<open>Update\<close> writes, one after the other and in the order of the calls to
  \<open>Write\<close>, the packets that fit between the oldest unacknowledged number and the receive window;
  copies of the others are appended to the queue, in the same order. Nothing else of the channel
  differs from just writing the packets that fit.
\<close>

theorem drain_writes_holds_back:
  assumes "lib_ok lib" and "chan_ok e" and "\<forall>b \<in> set bs. length b \<le> MaxPacketSize (ep_config e)"
  shows "\<exists>e1 q. write_all lib (take (room e) bs) e = Some e1 \<and> chan_ok e1 \<and>
    ep_seq e1 = ep_seq e + of_nat (min (room e) (length bs)) \<and>
    map bb_bytes q = drop (room e) bs \<and>
    drain_writes lib bs e = Some (e1\<lparr>ep_pool := ep_pool e1 + length q, ep_disp := (ep_disp e1)
      \<lparr>c_writeQueue := (if bs = [] then c_writeQueue (ep_disp e1) else []),
       c_queue := c_queue (ep_disp e) @ q\<rparr>\<rparr>)"
proof -
  obtain e1 q where "write_all lib (take (room e) bs) e = Some e1" "chan_ok e1"
    "ep_seq e1 = ep_seq e + of_nat (min (room e) (length bs))"
    "c_queue (ep_disp e1) = c_queue (ep_disp e)" "map bb_bytes q = drop (room e) bs"
    "drain_writes lib bs e = Some (held_back bs q e1)"
    using library.drain_writes_eq [OF library.intro [OF assms(1)] assms(2,3)] by blast
  then show ?thesis by (intro exI [of _ e1] exI [of _ q]) (simp add: held_back_def)
qed

text \<open>300 packets, of which 256 fit.\<close>

lemma drain_writes_holds_back_witness:
  "\<exists>e1 e'. write_all be_lib (replicate 256 [7]) default_channel = Some e1 \<and>
    drain_writes be_lib (replicate 256 [7] @ replicate 44 [8]) default_channel = Some e' \<and>
    ep_seq e' = 256 \<and> c_window (ep_disp e') = c_window (ep_disp e1) \<and> ep_sent e' = ep_sent e1 \<and>
    map bb_bytes (c_queue (ep_disp e')) = replicate 44 [8]"
proof -
  let ?bs = "replicate 256 [7] @ replicate 44 [8] :: bytes list"
  have room: "room default_channel = 256" by (simp add: room_def default_channel)
  have bs: "take 256 ?bs = replicate 256 [7]" "drop 256 ?bs = replicate 44 [8]" "length ?bs = 300" "?bs \<noteq> []"
    by (simp_all del: replicate.simps)
  have "\<forall>b \<in> set ?bs. length b \<le> MaxPacketSize (ep_config default_channel)"
    by (auto simp: default_channel NewConfig_def simp del: replicate.simps)
  from drain_writes_holds_back [OF be_lib_ok default_channel(1) this, unfolded room bs(1-3)] show ?thesis
    using default_channel(2,5) by auto
qed

lemma filter_first:
  fixes p :: u16
  assumes "n < 65536" and "\<And>s. P s \<longleftrightarrow> s = p"
  shows "filter P (map (\<lambda>i. p + of_nat i) [0..<Suc n]) = [p]"
proof -
  have "(of_nat i :: u16) \<noteq> 0" if "i \<in> set [1..<Suc n]" for i
    using that assms(1) unat_of_nat_u16 [of i] by auto
  then have "filter P (map (\<lambda>i. p + of_nat i) [1..<Suc n]) = []"
    unfolding filter_empty_conv set_map by (auto simp: assms(2) simp del: upt_Suc)
  moreover have "[0..<Suc n] = 0 # [1..<Suc n]" by (simp add: upt_conv_Cons del: upt_Suc)
  ultimately show ?thesis by (simp add: assms(2) del: upt_Suc)
qed

text \<open>The default channel after one packet was written.\<close>

lemma one_written:
  obtains e w where "WritePacket be_lib (Channel_Transmit be_lib) [1, 2] default_channel = Some (e, w)"
    "chan_ok e" "ep_seq e = 1" "\<And>q. stored (c_window (ep_disp e)) q \<longleftrightarrow> q = 0"
    "c_oldestUnacked (ep_disp e) = 0" "c_queue (ep_disp e) = []" "recv_window e = 256"
    "ep_config e = NewConfig" "c_outQueue (ep_disp e) = []" "\<not> bp_written (packet_at (ep_disp e) 0)"
    "datagram (ep_disp e) 0 = PacketHeader_AppendTo be_lib (next_header default_channel) [] @ [1, 2]"
proof -
  have size: "length [1, 2 :: u8] \<le> MaxPacketSize (ep_config default_channel)"
    by (simp add: default_channel NewConfig_def)
  obtain e w where e: "WritePacket be_lib (Channel_Transmit be_lib) [1, 2] default_channel = Some (e, w)"
    "chan_ok e" "ep_seq e = ep_seq default_channel + 1"
    "same_queues (ep_disp default_channel) (ep_disp e)" "stored (c_window (ep_disp e)) (ep_seq default_channel)"
    "datagram (ep_disp e) (ep_seq default_channel) = last (packet_datagrams be_lib default_channel [1, 2])"
    "\<not> bp_written (packet_at (ep_disp e) (ep_seq default_channel))" "writes default_channel e"
    by (rule be.channel_WritePacket [OF default_channel(1) size])
  have "ep_config e = NewConfig" using e(8) default_channel(3) by (simp add: writes_def)
  moreover from this have "recv_window e = 256" by (simp add: recv_window_def NewConfig_def)
  moreover have "stored (c_window (ep_disp e)) q \<longleftrightarrow> q = 0" for q
    using be.channel_WritePacket_stored [OF default_channel(1) size e(1)] e(5) default_channel(2,8) by auto
  ultimately show ?thesis
    using e(1,2,3,6,7) same_queuesD(3,4,5) [OF e(4)] default_channel(2-6)
    by (intro that) (simp_all add: packet_datagrams_def NewConfig_def)
qed

text \<open>
  C14. The last loop of \<open>Update\<close> sends exactly the packets of the window, among the
  \<open>recv_window + 1\<close> numbers from the oldest unacknowledged one, that were never written or were
  written at least a tenth of a second ago; each once, in the order of their numbers.
\<close>

theorem Update_sends_due_packets:
  assumes "chan_ok e" and "unat (recv_window e) < 32768"
  shows "\<exists>c. resend_all t (loop_seqs (c_oldestUnacked (ep_disp e))
        (c_oldestUnacked (ep_disp e) + recv_window e)) (ep_disp e) = Some c \<and>
    c_outQueue c = c_outQueue (ep_disp e) @ map (datagram (ep_disp e))
      (filter (due t (ep_disp e)) (map (\<lambda>i. c_oldestUnacked (ep_disp e) + of_nat i)
        [0..<Suc (unat (recv_window e))])) \<and>
    (\<forall>s. stored (c_window c) s = stored (c_window (ep_disp e)) s)"
proof -
  let ?o = "c_oldestUnacked (ep_disp e)"
  let ?ss = "loop_seqs ?o (?o + recv_window e)"
  have ss: "?ss = map (\<lambda>i. ?o + of_nat i) [0..<Suc (unat (recv_window e))]"
    using loop_seqs_eq [OF assms(2), of ?o] by simp
  have "distinct ?ss" using distinct_loop_seqs [OF assms(2), of ?o] by simp
  from resend_all_eq [OF chan_okD(3) [OF assms(1)] this] obtain c where
    c: "resend_all t ?ss (ep_disp e) = Some c" "sent_out t (filter (due t (ep_disp e)) ?ss) (ep_disp e) c"
    by blast
  then have "c_outQueue c = c_outQueue (ep_disp e) @ map (datagram (ep_disp e)) (filter (due t (ep_disp e)) ?ss)"
    by (simp add: sent_out_def)
  then show ?thesis using c(1) sent_out_stored [OF c(2)] unfolding ss by blast
qed

lemma Update_sends_due_packets_witness:
  "\<exists>e w c. WritePacket be_lib (Channel_Transmit be_lib) [1, 2] default_channel = Some (e, w) \<and>
    resend_all (Finite 1) (loop_seqs 0 256) (ep_disp e) = Some c \<and>
    c_outQueue c = [PacketHeader_AppendTo be_lib (next_header default_channel) [] @ [1, 2]]"
proof -
  obtain e w where e: "WritePacket be_lib (Channel_Transmit be_lib) [1, 2] default_channel = Some (e, w)"
    "chan_ok e" "\<And>q. stored (c_window (ep_disp e)) q \<longleftrightarrow> q = 0" "c_oldestUnacked (ep_disp e) = 0"
    "recv_window e = 256" "c_outQueue (ep_disp e) = []" "\<not> bp_written (packet_at (ep_disp e) 0)"
    "datagram (ep_disp e) 0 = PacketHeader_AppendTo be_lib (next_header default_channel) [] @ [1, 2]"
    using one_written by metis
  have due: "due (Finite 1) (ep_disp e) s \<longleftrightarrow> s = 0" for s using e(3,7) by (auto simp: due_def)
  have "filter (due (Finite 1) (ep_disp e))
      (map (\<lambda>i. c_oldestUnacked (ep_disp e) + of_nat i) [0..<Suc (unat (recv_window e))]) = [0]"
    unfolding e(4) by (rule filter_first) (use e(5) due in simp_all)
  then show ?thesis
    using Update_sends_due_packets [OF e(2), of "Finite 1"] e(1,4,5,6,8) by (auto simp del: upt_Suc)
qed

text \<open>
  C37. The window keeps one datagram per packet, the last one transmitted. For a packet that was
  fragmented these are the bytes of its last fragment only, so the others are never sent.
\<close>

theorem window_keeps_last_datagram:
  assumes "lib_ok lib" and "chan_ok e" and "length buf \<le> MaxPacketSize (ep_config e)"
  shows "\<exists>e' w. WritePacket lib (Channel_Transmit lib) buf e = Some (e', w) \<and> chan_ok e' \<and>
    ep_seq e' = ep_seq e + 1 \<and> stored (c_window (ep_disp e')) (ep_seq e) \<and>
    datagram (ep_disp e') (ep_seq e) = last (packet_datagrams lib e buf)"
  by (rule library.channel_WritePacket [OF library.intro [OF assms(1)] assms(2,3)]) blast

lemma window_keeps_last_datagram_witness:
  "\<exists>e' w. WritePacket be_lib (Channel_Transmit be_lib) (replicate 1500 7) default_channel = Some (e', w) \<and>
    length (packet_datagrams be_lib default_channel (replicate 1500 7)) = 2 \<and>
    datagram (ep_disp e') 0 = last (packet_datagrams be_lib default_channel (replicate 1500 7))"
proof -
  have "length (packet_datagrams be_lib default_channel (replicate 1500 7)) = 2"
    by (simp add: packet_datagrams_def Let_def default_channel NewConfig_def fragment_count_def
        del: replicate.simps)
  then show ?thesis
    using window_keeps_last_datagram [OF be_lib_ok default_channel(1), of "replicate 1500 7"] default_channel(2,3)
    by (auto simp: NewConfig_def)
qed

text \<open>
  C13. When the oldest unacknowledged packet \<open>s\<close> is acknowledged and the window still holds a later one
  of the receive window, \<open>s + k\<close> being the first of them, \<open>s\<close> leaves the window, \<open>s + k\<close> becomes the
  oldest, and then the first \<open>k\<close> packets of the queue are written, one after the other, with the bytes
  that were queued. They leave the queue; nothing else changes.
\<close>

theorem Channel_ACK_advances:
  assumes "lib_ok lib" and "chan_ok e" and "stored (c_window (ep_disp e)) s"
    and "c_oldestUnacked (ep_disp e) = s" and "unat (recv_window e) < 32768"
    and "0 < k" and "k \<le> unat (recv_window e)" and "stored (c_window (ep_disp e)) (s + of_nat k)"
    and "\<forall>i. 0 < i \<and> i < k \<longrightarrow> \<not> stored (c_window (ep_disp e)) (s + of_nat i)"
    and "\<forall>b \<in> set (c_queue (ep_disp e)). length (bb_bytes b) \<le> MaxPacketSize (ep_config e)"
  shows "\<exists>w e1. (\<forall>q. stored w q \<longleftrightarrow> stored (c_window (ep_disp e)) q \<and> q \<noteq> s) \<and>
    ring_entries w = ring_entries (c_window (ep_disp e)) \<and>
    write_all lib (take k (map bb_bytes (c_queue (ep_disp e))))
      (e\<lparr>ep_disp := (ep_disp e)\<lparr>c_window := w, c_oldestUnacked := s + of_nat k\<rparr>\<rparr>) = Some e1 \<and>
    Channel_ACK lib s e = Some (e1\<lparr>ep_disp := (ep_disp e1)\<lparr>c_queue := drop k (c_queue (ep_disp e))\<rparr>\<rparr>) \<and>
    chan_ok e1 \<and> c_oldestUnacked (ep_disp e1) = s + of_nat k \<and>
    ep_seq e1 = ep_seq e + of_nat (min k (length (c_queue (ep_disp e))))"
  by (rule library.Channel_ACK_advance [OF library.intro]) (fact assms)+

text \<open>
  A channel that has sent 0, 1 and 2, of which 1 was acknowledged, and that holds three packets
  back: after the acknowledgement of 0 two of them are written, as 3 and 4.
\<close>

definition waiting_channel :: channel where
  "waiting_channel = default_channel\<lparr>ep_seq := 3,
     ep_sent := (ep_sent default_channel)\<lparr>ring_buf := (ring_buf (ep_sent default_channel))\<lparr>latest := 3\<rparr>\<rparr>,
     ep_disp := (ep_disp default_channel)\<lparr>
       c_window := \<lparr>ring_buf = \<lparr>latest = 3,
           seq_entries = [0, EmptySequenceBufferEntry, 2] @ replicate 253 EmptySequenceBufferEntry\<rparr>,
         ring_entries = replicate 256 (zero_BufferedPacket\<lparr>bp_buf := Some \<lparr>bb_len = 1, bb_mem = [9]\<rparr>\<rparr>)\<rparr>,
       c_queue := [\<lparr>bb_len = 1, bb_mem = [10]\<rparr>, \<lparr>bb_len = 1, bb_mem = [11]\<rparr>, \<lparr>bb_len = 1, bb_mem = [12]\<rparr>]\<rparr>\<rparr>"

lemma waiting_channel:
  "chan_ok waiting_channel" "ep_config waiting_channel = NewConfig" "ep_seq waiting_channel = 3"
  "c_oldestUnacked (ep_disp waiting_channel) = 0" "unat (recv_window waiting_channel) = 256"
  "map bb_bytes (c_queue (ep_disp waiting_channel)) = [[10], [11], [12]]"
  "stored (c_window (ep_disp waiting_channel)) 0" "\<not> stored (c_window (ep_disp waiting_channel)) 1"
  "stored (c_window (ep_disp waiting_channel)) 2"
proof -
  let ?w = "c_window (ep_disp waiting_channel)"
  have "ring_wf ?w" by (simp add: waiting_channel_def ring_wf_def)
  moreover have "bp_buf (ring_entries ?w ! slot ?w q) \<noteq> None" for q
  proof -
    have "unat q mod 256 < 256" by simp
    then show ?thesis by (simp add: waiting_channel_def slot_def del: replicate.simps)
  qed
  ultimately have "window_ok ?w" by (simp add: window_ok_def)
  moreover have "ep_ok waiting_channel"
    using chan_okD(1) [OF default_channel(1)] by (simp add: ep_ok_def waiting_channel_def ring_wf_def)
  ultimately show "chan_ok waiting_channel"
    by (simp add: chan_ok_def chan_inv_def) (simp add: waiting_channel_def)
  show "stored ?w 0" "\<not> stored ?w 1" "stored ?w 2"
    by (simp_all add: waiting_channel_def stored_def slot_def EmptySequenceBufferEntry_def)
qed (simp_all add: waiting_channel_def default_channel recv_window_def bb_bytes_def NewConfig_def)

lemma Channel_ACK_advances_witness:
  "\<exists>e'. Channel_ACK be_lib 0 waiting_channel = Some e' \<and> c_oldestUnacked (ep_disp e') = 2 \<and>
    map bb_bytes (c_queue (ep_disp e')) = [[12]] \<and> ep_seq e' = 5"
proof -
  have "\<not> stored (c_window (ep_disp waiting_channel)) (0 + of_nat i)" if "0 < i \<and> i < 2" for i
  proof -
    have "i = 1" using that by simp
    then show ?thesis using waiting_channel(8) by simp
  qed
  moreover have "\<forall>b \<in> set (c_queue (ep_disp waiting_channel)).
      length (bb_bytes b) \<le> MaxPacketSize (ep_config waiting_channel)"
    unfolding waiting_channel(2) by (simp add: waiting_channel_def bb_bytes_def NewConfig_def)
  moreover have "stored (c_window (ep_disp waiting_channel)) (0 + of_nat 2)" using waiting_channel(9) by simp
  ultimately obtain e1 where "Channel_ACK be_lib 0 waiting_channel =
      Some (e1\<lparr>ep_disp := (ep_disp e1)\<lparr>c_queue := drop 2 (c_queue (ep_disp waiting_channel))\<rparr>\<rparr>)"
    "c_oldestUnacked (ep_disp e1) = 0 + of_nat 2"
    "ep_seq e1 = ep_seq waiting_channel + of_nat (min 2 (length (c_queue (ep_disp waiting_channel))))"
    using Channel_ACK_advances [OF be_lib_ok waiting_channel(1,7,4), of 2] waiting_channel(5) by auto
  moreover have "length (c_queue (ep_disp waiting_channel)) = 3" by (simp add: waiting_channel_def)
  ultimately show ?thesis
    using waiting_channel(3) by (simp add: waiting_channel_def bb_bytes_def)
qed

lemma next_oldest_alone:
  assumes "\<And>q. stored (c_window (ep_disp e)) q \<Longrightarrow> q = s" and "unat (recv_window e) < 32768"
  shows "next_oldest e s = s + recv_window e"
proof -
  have "\<not> stored (c_window (ep_disp e)) (s + of_nat i)" if "i \<in> set [1..<Suc (unat (recv_window e))]" for i
  proof
    assume "stored (c_window (ep_disp e)) (s + of_nat i)"
    then have "s + of_nat i = s" by (rule assms(1))
    then have "(of_nat i :: u16) = 0" by simp
    moreover have "0 < i" "i < 65536" using that assms(2) by auto
    ultimately show False using unat_of_nat_u16 [of i] by simp
  qed
  then have "List.find (stored (c_window (ep_disp e)))
      (map (\<lambda>i. s + of_nat i) [1..<Suc (unat (recv_window e))]) = None"
    unfolding find_None_iff set_map by blast
  then show ?thesis by (simp add: next_oldest_def)
qed

context library
begin

lemma flush_queue_Nil: "c_queue (ep_disp e) = [] \<Longrightarrow> flush_queue lib n e = Some e"
  by (cases n) simp_all

end

end
