(* ===== verification/ChannelLink.thy ===== *)
theory ChannelLink
  imports ChannelProperties Delivery Acks
begin

text \<open>
  Two channels connected by their queues: what one update of the sender puts into its
  \<open>outQueue\<close>, one update of the receiver hands to \<open>Process\<close>. The callbacks that do not print
  are described by the locale \<open>silent\<close>: what they leave alone, \<open>WritePacket\<close> leaves alone too.
\<close>

section \<open>What sending leaves alone\<close>

locale silent =
  fixes transmit :: "u16 \<Rightarrow> bytes \<Rightarrow> 'd endpoint \<Rightarrow> 'd endpoint option" and seen :: "'d \<Rightarrow> 'x"
  assumes transmit_silent: "transmit s b e = Some e' \<Longrightarrow> seen (ep_disp e') = seen (ep_disp e)"
begin

lemma write_fragments_silent:
  "write_fragments lib transmit s h fh n fid buf w e = Some (e', w') \<Longrightarrow> seen (ep_disp e') = seen (ep_disp e)"
proof (induction n arbitrary: fh fid buf w e)
  case (Suc n)
  from Suc.prems obtain b e1 fh' fid' buf' v where "transmit s b e = Some e1"
    "write_fragments lib transmit s h fh' n fid' buf' v e1 = Some (e', w')"
    by (auto simp: Let_def bind_eq_Some_conv)
  then show ?case using Suc.IH transmit_silent by metis
qed simp

lemma write_compact_silent:
  "write_compact lib transmit s h k buf e = Some (e', w) \<Longrightarrow> seen (ep_disp e') = seen (ep_disp e)"
  using transmit_silent by (auto simp: write_compact_def Let_def bind_eq_Some_conv)

lemma WritePacket_silent:
  "WritePacket lib transmit buf e = Some (e', w) \<Longrightarrow> seen (ep_disp e') = seen (ep_disp e)"
  by (auto simp: WritePacket_def Let_def pool_Get_def bind_eq_Some_conv simp del: write_fragments.simps
      split: if_splits dest!: write_compact_silent write_fragments_silent)

end

lemma Channel_Transmit_silent:
  assumes "Channel_Transmit lib s b e = Some e'"
  shows "c_stdout (ep_disp e') = c_stdout (ep_disp e)" "c_outQueue (ep_disp e') = c_outQueue (ep_disp e)"
    "c_readQueue (ep_disp e') = c_readQueue (ep_disp e)"
  using assms
  by (auto simp: Channel_Transmit_def copy_of_def pool_Get_def Let_def bind_eq_Some_conv)

interpretation printing: silent "Channel_Transmit lib" "\<lambda>c. (c_stdout c, c_outQueue c, c_readQueue c)" for lib
  by unfold_locales (simp add: Channel_Transmit_silent)

abbreviation seen :: "channel \<Rightarrow> (u16 \<times> bytes) list \<times> bytes list \<times> bytes list" where
  "seen e \<equiv> (c_stdout (ep_disp e), c_outQueue (ep_disp e), c_readQueue (ep_disp e))"

lemma flush_queue_silent: "flush_queue lib n e = Some e' \<Longrightarrow> seen e' = seen e"
proof (induction n arbitrary: e)
  case (Suc n)
  show ?case
  proof (cases "c_queue (ep_disp e)")
    case (Cons b rest)
    with Suc.prems obtain e1 w where
      "WritePacket lib (Channel_Transmit lib) (bb_bytes b) (e\<lparr>ep_disp := (ep_disp e)\<lparr>c_queue := rest\<rparr>\<rparr>) = Some (e1, w)"
      "flush_queue lib n e1 = Some e'" by (auto simp: bind_eq_Some_conv)
    then show ?thesis using Suc.IH [of e1] printing.WritePacket_silent by fastforce
  qed (use Suc.prems in simp)
qed simp

lemma Channel_ACK_silent: "Channel_ACK lib s e = Some e' \<Longrightarrow> seen e' = seen e"
  by (auto simp: Channel_ACK_def Let_def bind_eq_Some_conv split: option.splits if_splits
      dest!: flush_queue_silent)

lemma process_ack_silent: "process_ack (Channel_ACK lib) s e = Some e' \<Longrightarrow> seen e' = seen e"
  by (auto simp: process_ack_def Let_def bind_eq_Some_conv split: option.splits if_splits
      dest!: Channel_ACK_silent)

lemma processACKs_silent:
  "processACKs_loop (Channel_ACK lib) ack n i bits e = Some e' \<Longrightarrow> seen e' = seen e"
proof (induction n arbitrary: i bits e)
  case (Suc n)
  then show ?case
    using process_ack_silent by (fastforce simp: bind_eq_Some_conv split: if_splits)
qed simp

lemma drain_writes_silent: "drain_writes lib bs e = Some e' \<Longrightarrow> seen e' = seen e"
proof (induction bs arbitrary: e)
  case (Cons b bs)
  let ?e = "e\<lparr>ep_disp := (ep_disp e)\<lparr>c_writeQueue := bs\<rparr>\<rparr>"
  show ?case
  proof (cases "c_oldestUnacked (ep_disp ?e) + recv_window ?e = ep_seq ?e")
    case True
    with Cons.prems Cons.IH show ?thesis
      by (fastforce simp: copy_of_def pool_Get_def Let_def bind_eq_Some_conv)
  next
    case False
    with Cons.prems obtain e1 w where "WritePacket lib (Channel_Transmit lib) b ?e = Some (e1, w)"
      "drain_writes lib bs e1 = Some e'" by (auto simp: Let_def bind_eq_Some_conv)
    then show ?thesis using Cons.IH [of e1] printing.WritePacket_silent by fastforce
  qed
qed simp


section \<open>The sender\<close>

text \<open>The datagrams of consecutive packets, written while nothing arrives.\<close>

fun numbered :: "lib \<Rightarrow> packet_header \<Rightarrow> bytes list \<Rightarrow> bytes list" where
  "numbered lib h [] = []"
| "numbered lib h (b # bs) =
     (PacketHeader_AppendTo lib h [] @ b) # numbered lib (h\<lparr>ph_seq := ph_seq h + 1\<rparr>) bs"

lemma length_numbered [simp]: "length (numbered lib h bs) = length bs"
  by (induction bs arbitrary: h) simp_all

text \<open>The window holds exactly the datagrams \<open>ds\<close>, numbered from \<open>q\<close> on, none written yet.\<close>

definition holds :: "u16 \<Rightarrow> bytes list \<Rightarrow> channel \<Rightarrow> bool" where
  "holds q ds e \<longleftrightarrow> chan_ok e \<and> ep_seq e = q + of_nat (length ds) \<and>
     (\<forall>s. stored (c_window (ep_disp e)) s \<longrightarrow> (\<exists>i < length ds. s = q + of_nat i)) \<and>
     (\<forall>i < length ds. stored (c_window (ep_disp e)) (q + of_nat i) \<and>
        datagram (ep_disp e) (q + of_nat i) = ds ! i \<and> \<not> bp_written (packet_at (ep_disp e) (q + of_nat i)))"

lemma holds_queues [simp]: "holds q ds (e\<lparr>ep_disp := (ep_disp e)\<lparr>c_writeQueue := x\<rparr>\<rparr>) = holds q ds e"
  by (simp add: holds_def datagram_def packet_at_def)

definition window_size :: "channel \<Rightarrow> nat" where
  "window_size e = length (ring_entries (c_window (ep_disp e)))"

lemma unat_Suc_u16: "unat (x :: u16) < 65535 \<Longrightarrow> unat (x + 1) = Suc (unat x)"
  by (simp add: unat_word_ariths)

text \<open>What an update keeps of the sender, beside the window.\<close>

definition same_side :: "channel \<Rightarrow> channel \<Rightarrow> bool" where
  "same_side e e' \<longleftrightarrow> writes e e' \<and> window_size e' = window_size e \<and>
     c_oldestUnacked (ep_disp e') = c_oldestUnacked (ep_disp e)"

lemma next_header_writes:
  assumes "ep_ok e" and "ep_recv e' = ep_recv e" and "ep_seq e' = ep_seq e + 1"
  shows "next_header e' = (next_header e)\<lparr>ph_seq := ph_seq (next_header e) + 1\<rparr>"
proof -
  obtain ack acks where "NextACK (ep_recv e) = Some (ack, acks)"
    using NextACK_eq [OF ep_okD(4) [OF assms(1)]] by metis
  then show ?thesis using assms(2,3) by (simp add: next_header_def)
qed

context library
begin

lemma put_packet_holds:
  assumes w: "ring_wf w" "length (ring_entries w) dvd 65536" "n < length (ring_entries w)"
    and l: "latest (ring_buf w) = q + of_nat n" and i: "i < n"
  shows "stored (put_packet w (q + of_nat n) b) (q + of_nat i) = stored w (q + of_nat i)"
    and "slot w (q + of_nat i) \<noteq> slot w (q + of_nat n)"
proof -
  have n: "n < 65536" using w by auto
  have "q + of_nat n - (q + of_nat i) = (of_nat (n - i) :: u16)" using i by (simp add: of_nat_diff)
  then have d: "unat (q + of_nat n - (q + of_nat i)) = n - i" using n by (simp add: unat_of_nat_u16)
  then show sl: "slot w (q + of_nat i) \<noteq> slot w (q + of_nat n)"
    using slot_eq_iff_dvd [OF w(2), of "q + of_nat i" "q + of_nat n"] i w(3)
    by (metis diff_le_self dvd_imp_le le_trans not_less zero_less_diff)
  have "q + of_nat i \<noteq> q + of_nat n" using sl by metis
  then show "stored (put_packet w (q + of_nat n) b) (q + of_nat i) = stored w (q + of_nat i)"
    using stored_put_packet [OF w(1)] sl wiped_latest [of w] l by metis
qed

lemma WritePacket_compact:
  assumes ok: "chan_ok e" and size: "length buf \<le> FragmentAbove (ep_config e)" "length buf \<le> MaxPacketSize (ep_config e)"
  obtains e' w k where "WritePacket lib (Channel_Transmit lib) buf e = Some (e', w)" "chan_ok e'"
    "ep_seq e' = ep_seq e + 1" "writes e e'"
    "ep_disp e' = (ep_disp e)\<lparr>c_window := put_packet (c_window (ep_disp e)) (ep_seq e)
      (copied (PacketHeader_AppendTo lib (next_header e) [] @ buf) k)\<rparr>"
proof -
  have inv: "chan_inv (ep_disp e) (ep_seq e)" and epok: "ep_ok e" using ok by (simp_all add: chan_ok_def)
  let ?d = "PacketHeader_AppendTo lib (next_header e) [] @ buf" and ?p = "prepared e buf"
  let ?x = "(ep_disp e)\<lparr>c_window := put_packet (c_window (ep_disp e)) (ep_seq e) (copied ?d (ep_pool ?p))\<rparr>"
  let ?e = "?p\<lparr>ep_disp := ?x, ep_pool := Suc (ep_pool ?p)\<rparr>"
  have "packet_datagrams lib e buf = [?d]" using size by (simp add: packet_datagrams_def Let_def)
  moreover have inv': "chan_inv (ep_disp ?p) (ep_seq e + 1) \<or> chan_inv (ep_disp ?p) (ep_seq e)"
    using inv by simp
  note T = Channel_Transmit_eq [OF inv', of ?d]
  ultimately have W: "WritePacket lib (Channel_Transmit lib) buf e = Some (?e, length ?d)"
    using outgoing.WritePacket_eq [OF epok inv size(2)] T(1) by simp
  have "chan_ok ?e" using T(2) ep_ok_prepared [OF epok] by (simp add: chan_ok_def)
  moreover have "writes e ?e" using writes_prepared writes_disp_pool by (rule writes_trans)
  ultimately show ?thesis using W by (intro that [of ?e _ "ep_pool ?p"]) simp_all
qed

text \<open>One more packet, and all that are queued.\<close>

lemma holds_write:
  assumes h: "holds q ds e" and n: "length ds < window_size e" and dvd: "window_size e dvd 65536"
    and size: "length buf \<le> FragmentAbove (ep_config e)" "length buf \<le> MaxPacketSize (ep_config e)"
  obtains e' w where "WritePacket lib (Channel_Transmit lib) buf e = Some (e', w)"
    "holds q (ds @ [PacketHeader_AppendTo lib (next_header e) [] @ buf]) e'" "same_side e e'"
    "ep_seq e' = ep_seq e + 1"
proof -
  have ok: "chan_ok e" and s: "ep_seq e = q + of_nat (length ds)" using h by (simp_all add: holds_def)
  let ?d = "PacketHeader_AppendTo lib (next_header e) [] @ buf" and ?w = "c_window (ep_disp e)"
  obtain e' w k where e': "WritePacket lib (Channel_Transmit lib) buf e = Some (e', w)" "chan_ok e'"
    "ep_seq e' = ep_seq e + 1" "writes e e'"
    "ep_disp e' = (ep_disp e)\<lparr>c_window := put_packet ?w (ep_seq e) (copied ?d k)\<rparr>"
    by (rule WritePacket_compact [OF ok size])
  have wf: "ring_wf ?w" using chan_okD(3) [OF ok] by (simp add: window_ok_def)
  have l: "latest (ring_buf ?w) = q + of_nat (length ds)"
    using chan_okD(2) [OF ok] s by (simp add: chan_inv_def)
  note put = put_packet_holds [OF wf dvd [unfolded window_size_def] n [unfolded window_size_def] l]
  let ?p = "put_packet ?w (q + of_nat (length ds)) (copied ?d k)"
  have win: "c_window (ep_disp e') = ?p" using e'(5) s by simp
  have at: "packet_at (ep_disp e') t = (if slot ?w t = slot ?w (q + of_nat (length ds))
      then zero_BufferedPacket\<lparr>bp_buf := Some (copied ?d k)\<rparr> else packet_at (ep_disp e) t)" for t
    using slot_less [OF wf, of t] unfolding packet_at_def win slot_put_packet by (simp add: put_packet_def)
  have at_new: "datagram (ep_disp e') (q + of_nat (length ds)) = ?d"
    "\<not> bp_written (packet_at (ep_disp e') (q + of_nat (length ds)))"
    by (simp_all add: datagram_def at) (simp add: zero_BufferedPacket_def)
  have at_old: "packet_at (ep_disp e') (q + of_nat i) = packet_at (ep_disp e) (q + of_nat i)"
    if "i < length ds" for i
    using put(2) [OF that] by (simp add: at)
  have "holds q (ds @ [?d]) e'"
    unfolding holds_def
  proof (intro conjI allI impI)
    fix t assume "stored (c_window (ep_disp e')) t"
    then have "t = q + of_nat (length ds) \<or> stored ?w t"
      unfolding win stored_put_packet [OF wf] by blast
    then show "\<exists>i < length (ds @ [?d]). t = q + of_nat i"
      using h by (auto simp: holds_def intro: less_SucI)
  next
    fix i assume i: "i < length (ds @ [?d])"
    show "stored (c_window (ep_disp e')) (q + of_nat i)"
      using i h put(1) [of i "copied ?d k"] stored_put_packet [OF wf, of "q + of_nat i"]
      unfolding win by (cases "i = length ds") (simp_all add: holds_def)
    show "datagram (ep_disp e') (q + of_nat i) = (ds @ [?d]) ! i"
      using i h at_new at_old [of i]
      by (cases "i = length ds") (simp_all add: holds_def nth_append datagram_def)
    show "\<not> bp_written (packet_at (ep_disp e') (q + of_nat i))"
      using i h at_new at_old [of i] by (cases "i = length ds") (simp_all add: holds_def)
  qed (use e'(2,3) s in simp_all)
  moreover have "same_side e e'"
    using e'(4,5) by (simp add: same_side_def window_size_def put_packet_def)
  ultimately show ?thesis using e'(1,3) that by blast
qed

lemma drain_writes_holds:
  "holds q ds e \<Longrightarrow> length ds + length bs \<le> window_size e \<Longrightarrow> window_size e dvd 65536 \<Longrightarrow>
   \<forall>b \<in> set bs. length b \<le> FragmentAbove (ep_config e) \<and> length b \<le> MaxPacketSize (ep_config e) \<Longrightarrow>
   unat (ep_seq e - c_oldestUnacked (ep_disp e)) + length bs \<le> unat (recv_window e) \<Longrightarrow>
   \<exists>e'. drain_writes lib bs e = Some e' \<and> holds q (ds @ numbered lib (next_header e) bs) e' \<and>
     same_side e e'"
proof (induction bs arbitrary: ds e)
  case Nil
  then show ?case by (auto simp: same_side_def writes_def)
next
  case (Cons b bs)
  let ?e = "e\<lparr>ep_disp := (ep_disp e)\<lparr>c_writeQueue := bs\<rparr>\<rparr>" and ?o = "c_oldestUnacked (ep_disp e)"
  have ws: "window_size ?e = window_size e" by (simp add: window_size_def)
  obtain e1 w where e1: "WritePacket lib (Channel_Transmit lib) b ?e = Some (e1, w)"
    "holds q (ds @ [PacketHeader_AppendTo lib (next_header ?e) [] @ b]) e1" "same_side ?e e1"
    "ep_seq e1 = ep_seq ?e + 1"
    by (rule holds_write [of q ds ?e b]) (use Cons.prems ws in simp_all)
  have nh: "next_header ?e = next_header e" by (simp add: next_header_def split: option.split)
  have "ep_ok e" "ep_recv e1 = ep_recv e"
    using Cons.prems(1) e1(3) by (simp_all add: holds_def chan_ok_def same_side_def writes_def)
  then have nh1: "next_header e1 = (next_header e)\<lparr>ph_seq := ph_seq (next_header e) + 1\<rparr>"
    using e1(4) by (intro next_header_writes) simp_all
  have side: "same_side e e1" using e1(3) ws by (simp add: same_side_def writes_def)
  then have keep: "ep_config e1 = ep_config e" "c_oldestUnacked (ep_disp e1) = ?o"
    "window_size e1 = window_size e" "recv_window e1 = recv_window e"
    by (simp_all add: same_side_def writes_def recv_window_def)
  have less: "unat (ep_seq e - ?o) < unat (recv_window e)" using Cons.prems(5) by simp
  have notfull: "?o + recv_window e \<noteq> ep_seq e"
  proof
    assume "?o + recv_window e = ep_seq e"
    then have "ep_seq e - ?o = recv_window e" by (metis add_diff_cancel_left')
    then show False using less by simp
  qed
  have "ep_seq e1 - ?o = (ep_seq e - ?o) + 1" using e1(4) by (simp add: algebra_simps)
  moreover have "unat (ep_seq e - ?o) < 65535" using less unat_u16_less [of "recv_window e"] by linarith
  ultimately have step: "unat (ep_seq e1 - ?o) = Suc (unat (ep_seq e - ?o))"
    using unat_Suc_u16 by metis
  have "\<exists>e'. drain_writes lib bs e1 = Some e' \<and>
      holds q ((ds @ [PacketHeader_AppendTo lib (next_header ?e) [] @ b]) @ numbered lib (next_header e1) bs) e' \<and>
      same_side e1 e'"
    by (rule Cons.IH) (use e1(2) Cons.prems keep step in simp_all)
  then obtain e' where e': "drain_writes lib bs e1 = Some e'"
    "holds q ((ds @ [PacketHeader_AppendTo lib (next_header e) [] @ b]) @ numbered lib (next_header e1) bs) e'"
    "same_side e1 e'" using nh by auto
  have "drain_writes lib (b # bs) e = Some e'"
    using notfull e1(1) e'(1) by (simp add: Let_def)
  moreover have "same_side e e'" using side e'(3) writes_trans by (auto simp: same_side_def)
  ultimately show ?case using e'(2) nh1 by simp
qed

end

text \<open>The loop of \<open>Update\<close> over a window that holds the datagrams \<open>ds\<close>.\<close>

lemma upt_split: "i \<le> j \<Longrightarrow> j \<le> k \<Longrightarrow> [i..<k] = [i..<j] @ [j..<k]"
  by (metis upt_add_eq_append le_add_diff_inverse)

lemma filter_run:
  fixes p :: u16
  assumes k: "k + n \<le> r" and r: "r < 32768"
    and P: "\<And>s. P s \<longleftrightarrow> (\<exists>i < n. s = p + of_nat (k + i))"
  shows "filter P (map (\<lambda>i. p + of_nat i) [0..<Suc r]) = map (\<lambda>i. p + of_nat (k + i)) [0..<n]"
proof -
  have P': "P (p + of_nat i) \<longleftrightarrow> k \<le> i \<and> i < k + n" if "i < Suc r" for i
  proof
    assume "P (p + of_nat i)"
    then obtain j where j: "j < n" "p + of_nat i = p + of_nat (k + j)" using P by blast
    have "i < 65536" "k + j < 65536" using that r k j(1) by simp_all
    moreover have "(of_nat i :: u16) = of_nat (k + j)" using j(2) by (simp only: add_left_cancel)
    ultimately have "i = k + j" using unat_of_nat_u16 by metis
    then show "k \<le> i \<and> i < k + n" using j(1) by simp
  next
    assume "k \<le> i \<and> i < k + n"
    then have "i - k < n" "i = k + (i - k)" by linarith+
    then show "P (p + of_nat i)" using P by metis
  qed
  have "[0..<Suc r] = [0..<k] @ [k..<k + n] @ [k + n..<Suc r]"
    using upt_split [of 0 k "Suc r"] upt_split [of k "k + n" "Suc r"] k by simp
  moreover have "filter (\<lambda>i. P (p + of_nat i)) [0..<k] = []"
    unfolding filter_empty_conv using P' k by (metis atLeastLessThan_iff le_add1 le_trans less_Suc_eq_le
        less_or_eq_imp_le not_less set_upt)
  moreover have "filter (\<lambda>i. P (p + of_nat i)) [k + n..<Suc r] = []"
    unfolding filter_empty_conv using P' by (metis atLeastLessThan_iff not_less set_upt)
  moreover have "filter (\<lambda>i. P (p + of_nat i)) [k..<k + n] = [k..<k + n]"
    unfolding filter_id_conv using P' k by (metis atLeastLessThan_iff le_trans less_Suc_eq_le
        less_or_eq_imp_le set_upt)
  ultimately have "filter (\<lambda>i. P (p + of_nat i)) [0..<Suc r] = [k..<k + n]"
    by (simp only: filter_append append_Nil append_Nil2)
  then have "filter P (map (\<lambda>i. p + of_nat i) [0..<Suc r]) = map (\<lambda>i. p + of_nat i) [k..<k + n]"
    by (simp only: filter_map comp_def)
  also have "\<dots> = map (\<lambda>i. p + of_nat (k + i)) [0..<n]"
    by (rule nth_equalityI) simp_all
  finally show ?thesis .
qed

lemma due_holds:
  assumes "holds q ds e"
  shows "due t (ep_disp e) s \<longleftrightarrow> (\<exists>i < length ds. s = q + of_nat i)"
  using assms by (auto simp: holds_def due_def)

lemma map_datagram_holds:
  assumes "holds q ds e"
  shows "map (datagram (ep_disp e)) (map (\<lambda>i. q + of_nat i) [0..<length ds]) = ds"
  by (rule nth_equalityI) (use assms in \<open>simp_all add: holds_def\<close>)

section \<open>The receiver\<close>

context library
begin

lemma recv_in_order:
  assumes ok: "chan_ok e" and seq: "ph_seq h = latest (ring_buf (ep_recv e))"
  obtains e' where "ReadPacket lib (Channel_dispatcher lib) (PacketHeader_AppendTo lib h [] @ data) e =
      Some (e', None)"
    "chan_ok e'" "ep_config e' = ep_config e" "latest (ring_buf (ep_recv e')) = ph_seq h + 1"
    "c_stdout (ep_disp e') = c_stdout (ep_disp e) @ [(ph_seq h, data)]"
proof -
  let ?s = "ph_seq h" and ?e1 = "e\<lparr>ep_recv := inserted (ep_recv e) (ph_seq h)\<rparr>"
  have wf: "ring_wf (ep_recv e)" using chan_okD(1) [OF ok] by (rule ep_okD)
  have ins: "RecvPacketBuffer_Insert (ep_recv e) ?s =
      Some (inserted (ep_recv e) ?s, Some (slot (ep_recv e) ?s))"
    using ring_Insert_eq [OF wf] not_outdated_latest [OF wf] by (simp add: buffer_defs seq)
  define rec where "rec = \<lparr>rp_time = ep_time e, rp_size = PacketHeaderSize (ep_config e) + length data\<rparr>"
  define e2 where "e2 = e\<lparr>ep_disp := (ep_disp e)\<lparr>c_stdout := c_stdout (ep_disp e) @ [(?s, data)]\<rparr>,
    ep_recv := (inserted (ep_recv e) ?s)\<lparr>ring_entries := (ring_entries (ep_recv e))
      [slot (ep_recv e) ?s := rec]\<rparr>\<rparr>"
  have "ring_wf (ep_recv e2)"
    using ring_wf_inserted [OF wf, of ?s] by (simp add: ring_wf_def e2_def)
  then have "channel.good e2" using ok by (simp add: channel.good_def chan_ok_def ep_ok_def e2_def)
  then obtain e3 where e3: "processACKs (Channel_ACK lib) (ph_ack h) (ph_acks h) e2 = Some e3"
    "channel.good e3" "keeps e2 e3"
    using channel.processACKs_ok by fastforce
  have "recvCompactPacket lib (Channel_dispatcher lib) (PacketHeader_AppendTo lib h [] @ data) e =
      Some (e3, None)"
    using ins e3(1) wf header.decode_encode [of h data]
    by (simp add: recvCompactPacket_def Channel_Process_def ring_read_eq ring_write_eq
        RecvPacket_Reset_def zero_RecvPacket_def rec_def e2_def)
  moreover have "seen e3 = seen e2"
    using e3(1) unfolding processACKs_def by (rule processACKs_silent)
  moreover have "latest (ring_buf (ep_recv e2)) = ?s + 1"
    by (simp add: e2_def latest_inserted seq)
  ultimately show ?thesis using e3(2,3)
    by (intro that [of e3]) (simp_all add: ReadPacket_compact channel.good_def chan_ok_def keeps_def e2_def)
qed

lemma drain_reads_numbered:
  "chan_ok e \<Longrightarrow> bs \<noteq> [] \<longrightarrow> ph_seq h = latest (ring_buf (ep_recv e)) \<Longrightarrow>
   \<exists>e'. drain_reads lib (numbered lib h bs) e = Some (e', None) \<and> chan_ok e' \<and>
     ep_config e' = ep_config e \<and>
     c_stdout (ep_disp e') = c_stdout (ep_disp e) @
       map (\<lambda>i. (ph_seq h + of_nat i, bs ! i)) [0..<length bs]"
proof (induction bs arbitrary: h e)
  case Nil
  then show ?case by simp
next
  case (Cons b bs)
  let ?h = "h\<lparr>ph_seq := ph_seq h + 1\<rparr>"
  let ?e = "e\<lparr>ep_disp := (ep_disp e)\<lparr>c_readQueue := numbered lib ?h bs\<rparr>\<rparr>"
  obtain e1 where e1: "ReadPacket lib (Channel_dispatcher lib) (PacketHeader_AppendTo lib h [] @ b) ?e =
      Some (e1, None)" "chan_ok e1" "ep_config e1 = ep_config ?e"
    "latest (ring_buf (ep_recv e1)) = ph_seq h + 1"
    "c_stdout (ep_disp e1) = c_stdout (ep_disp ?e) @ [(ph_seq h, b)]"
    by (rule recv_in_order [of ?e h b]) (use Cons.prems in simp_all)
  obtain e' where e': "drain_reads lib (numbered lib ?h bs) e1 = Some (e', None)" "chan_ok e'"
    "ep_config e' = ep_config e1"
    "c_stdout (ep_disp e') = c_stdout (ep_disp e1) @
      map (\<lambda>i. (ph_seq ?h + of_nat i, bs ! i)) [0..<length bs]"
    using Cons.IH [OF e1(2), of ?h] e1(4) by auto
  have "map (\<lambda>i. (ph_seq h + of_nat i, (b # bs) ! i)) [0..<length (b # bs)] =
      (ph_seq h, b) # map (\<lambda>i. (ph_seq ?h + of_nat i, bs ! i)) [0..<length bs]"
    by (simp add: upt_conv_Cons map_Suc_upt [symmetric] comp_def add.assoc del: upt_Suc)
  then show ?case using e' e1 by simp
qed

section \<open>Both sides\<close>

lemma next_header_seq: "chan_ok e \<Longrightarrow> ph_seq (next_header e) = ep_seq e"
  by (rule outgoing.NextACK_next_header(2) [OF chan_okD(1)])

text \<open>An update whose reading succeeds goes on to the end.\<close>

lemma Update_after_reads:
  assumes e1: "Update t e = Some e1" and e2: "drain_reads lib (c_readQueue (ep_disp e1)) e1 = Some (e2, None)"
    and ok: "chan_ok e2" and r: "unat (recv_window e2) < 32768"
  obtains e3 e' where "drain_writes lib (c_writeQueue (ep_disp e2)) e2 = Some e3"
    "Channel_Update lib t e = Some (e', None)" "chan_ok e'"
    "c_stdout (ep_disp e') = c_stdout (ep_disp e2)"
    "c_outQueue (ep_disp e') = c_outQueue (ep_disp e2) @ map (datagram (ep_disp e3))
      (filter (due t (ep_disp e3)) (map (\<lambda>i. c_oldestUnacked (ep_disp e3) + of_nat i)
        [0..<Suc (unat (recv_window e2))]))"
proof -
  obtain e3 c e5 v where tail: "drain_writes lib (c_writeQueue (ep_disp e2)) e2 = Some e3" "chan_ok e3"
    "ep_config e3 = ep_config e2"
    "resend_all t (loop_seqs (c_oldestUnacked (ep_disp e3))
       (c_oldestUnacked (ep_disp e3) + recv_window e3)) (ep_disp e3) = Some c"
    "sent_out t (filter (due t (ep_disp e3)) (map (\<lambda>i. c_oldestUnacked (ep_disp e3) + of_nat i)
       [0..<Suc (unat (recv_window e2))])) (ep_disp e3) c"
    "chan_ok (e3\<lparr>ep_disp := c\<rparr>)"
    "WritePacket lib (Channel_Transmit lib) [] (e3\<lparr>ep_disp := c\<rparr>) = Some (e5, v)" "chan_ok e5"
    by (rule update_tail [OF ok r]) blast
  let ?e4 = "e3\<lparr>ep_disp := c\<rparr>"
  define e' where "e' = (if fge (fsub t (c_lastSent c)) (round64 (1 / 10)) then e5 else ?e4)"
  have "Channel_Update lib t e = Some (e', None)"
    using e1 e2 tail(1,4,7) by (simp add: Channel_Update_def Let_def e'_def)
  moreover have "chan_ok e'" using tail(6,8) by (simp add: e'_def)
  moreover have "seen e' = (c_stdout c, c_outQueue c, c_readQueue c)"
    using printing.WritePacket_silent [OF tail(7)] by (simp add: e'_def)
  moreover have "seen e3 = seen e2" by (rule drain_writes_silent [OF tail(1)])
  ultimately show ?thesis using that [OF tail(1)] tail(5) by (simp add: sent_out_def)
qed

lemma Update_sends_batch:
  assumes ok: "chan_ok a" and none: "\<And>s. \<not> stored (c_window (ep_disp a)) s"
    and q: "c_readQueue (ep_disp a) = []"
    and size: "\<forall>d \<in> set (c_writeQueue (ep_disp a)).
      length d \<le> FragmentAbove (ep_config a) \<and> length d \<le> MaxPacketSize (ep_config a)"
    and room: "unat (ep_seq a - c_oldestUnacked (ep_disp a)) + length (c_writeQueue (ep_disp a)) \<le> unat (recv_window a)"
    and r: "unat (recv_window a) < 32768"
    and win: "length (c_writeQueue (ep_disp a)) \<le> window_size a" "window_size a dvd 65536"
  obtains a' where "Channel_Update lib t a = Some (a', None)" "chan_ok a'"
    "c_outQueue (ep_disp a') = c_outQueue (ep_disp a) @ numbered lib (next_header a) (c_writeQueue (ep_disp a))"
proof -
  let ?bs = "c_writeQueue (ep_disp a)" and ?o = "c_oldestUnacked (ep_disp a)"
  let ?k = "unat (ep_seq a - ?o)"
  obtain e1 where e1: "Update t a = Some e1" "ep_ok e1" "ep_disp e1 = ep_disp a" "ep_seq e1 = ep_seq a"
    "ep_recv e1 = ep_recv a" "ep_config e1 = ep_config a"
    using Update_ok [OF chan_okD(1) [OF ok]] by metis
  then have ok1: "chan_ok e1" using ok by (simp add: chan_ok_def)
  have nh: "next_header e1 = next_header a" using e1(4,5) by (simp add: next_header_def split: option.split)
  have rw: "recv_window e1 = recv_window a" using e1(6) by (simp add: recv_window_def)
  have ws: "window_size e1 = window_size a" using e1(3) by (simp add: window_size_def)
  have "holds (ep_seq a) [] e1" using ok1 e1 none by (simp add: holds_def)
  then obtain e3 where e3: "drain_writes lib ?bs e1 = Some e3" "holds (ep_seq a) (numbered lib (next_header a) ?bs) e3"
    "same_side e1 e3"
    using drain_writes_holds [of "ep_seq a" "[]" e1 ?bs] e1 size room win nh rw ws by auto
  have r1: "unat (recv_window e1) < 32768" using r rw by simp
  have reads: "drain_reads lib (c_readQueue (ep_disp e1)) e1 = Some (e1, None)" using e1(3) q by simp
  obtain e3' a' where a': "drain_writes lib (c_writeQueue (ep_disp e1)) e1 = Some e3'"
    "Channel_Update lib t a = Some (a', None)" "chan_ok a'"
    "c_outQueue (ep_disp a') = c_outQueue (ep_disp e1) @ map (datagram (ep_disp e3'))
      (filter (due t (ep_disp e3')) (map (\<lambda>i. c_oldestUnacked (ep_disp e3') + of_nat i)
        [0..<Suc (unat (recv_window e1))]))"
    by (rule Update_after_reads [OF e1(1) reads ok1 r1]) blast
  have e3': "e3' = e3" using a'(1) e3(1) e1(3) by simp
  have o3: "c_oldestUnacked (ep_disp e3) = ?o" using e3(3) e1(3) by (simp add: same_side_def)
  have num: "?o + of_nat (?k + i) = ep_seq a + of_nat i" for i by (simp add: add.assoc [symmetric])
  have "filter (due t (ep_disp e3)) (map (\<lambda>i. ?o + of_nat i) [0..<Suc (unat (recv_window a))]) =
      map (\<lambda>i. ?o + of_nat (?k + i)) [0..<length ?bs]"
    by (rule filter_run) (use room r due_holds [OF e3(2)] num in simp_all)
  then have "map (datagram (ep_disp e3)) (filter (due t (ep_disp e3))
      (map (\<lambda>i. c_oldestUnacked (ep_disp e3) + of_nat i) [0..<Suc (unat (recv_window e1))])) =
      numbered lib (next_header a) ?bs"
    using map_datagram_holds [OF e3(2)] unfolding num o3 rw by simp
  then show ?thesis using that [OF a'(2,3)] a'(4) e1(3) unfolding e3' by simp
qed

lemma Update_prints_batch:
  assumes ok: "chan_ok b" and r: "unat (recv_window b) < 32768"
    and seq: "ph_seq h = latest (ring_buf (ep_recv b))"
    and q: "c_readQueue (ep_disp b) = numbered lib h bs"
  obtains b' where "Channel_Update lib t b = Some (b', None)" "chan_ok b'"
    "c_stdout (ep_disp b') = c_stdout (ep_disp b) @ map (\<lambda>i. (ph_seq h + of_nat i, bs ! i)) [0..<length bs]"
proof -
  obtain e1 where e1: "Update t b = Some e1" "ep_ok e1" "ep_disp e1 = ep_disp b" "ep_seq e1 = ep_seq b"
    "ep_recv e1 = ep_recv b" "ep_config e1 = ep_config b"
    using Update_ok [OF chan_okD(1) [OF ok]] by metis
  then have ok1: "chan_ok e1" using ok by (simp add: chan_ok_def)
  obtain e2 where e2: "drain_reads lib (c_readQueue (ep_disp e1)) e1 = Some (e2, None)" "chan_ok e2"
    "ep_config e2 = ep_config b"
    "c_stdout (ep_disp e2) = c_stdout (ep_disp b) @ map (\<lambda>i. (ph_seq h + of_nat i, bs ! i)) [0..<length bs]"
    using drain_reads_numbered [OF ok1, of bs h] seq q e1 by auto
  have "unat (recv_window e2) < 32768" using r e2(3) by (simp add: recv_window_def)
  from Update_after_reads [OF e1(1) e2(1,2) this] obtain b' where
    "Channel_Update lib t b = Some (b', None)" "chan_ok b'" "c_stdout (ep_disp b') = c_stdout (ep_disp e2)"
    by blast
  then show ?thesis using that e2(4) by simp
qed

end

section \<open>The claim\<close>

text \<open>
  C5. Take a channel whose window is empty and that has nothing to read. If none of the packets
  that wait in its write queue is large enough to be fragmented (they have at most \<open>FragmentAbove\<close>
  bytes), and they are at most as many as fit the receive window and the packet window, one update
  transmits them all, and one update of a channel that expects the first of their numbers and
  receives what was sent hands exactly these packets to \<open>Process\<close>, in order, with their numbers,
  also past the wrap-around.
\<close>

theorem batch_delivered_in_order:
  assumes "lib_ok lib" and "chan_ok a" and "\<And>s. \<not> stored (c_window (ep_disp a)) s"
    and "c_readQueue (ep_disp a) = []"
    and "\<forall>d \<in> set (c_writeQueue (ep_disp a)).
      length d \<le> FragmentAbove (ep_config a) \<and> length d \<le> MaxPacketSize (ep_config a)"
    and "unat (ep_seq a - c_oldestUnacked (ep_disp a)) + length (c_writeQueue (ep_disp a)) \<le> unat (recv_window a)"
    and "unat (recv_window a) < 32768"
    and "length (c_writeQueue (ep_disp a)) \<le> window_size a" and "window_size a dvd 65536"
    and "chan_ok b" and "unat (recv_window b) < 32768" and "latest (ring_buf (ep_recv b)) = ep_seq a"
  shows "\<exists>a' b' wire. Channel_Update lib t a = Some (a', None) \<and>
    Channel_Out a' = Channel_Out a @ wire \<and>
    Channel_Update lib t' (b\<lparr>ep_disp := (ep_disp b)\<lparr>c_readQueue := wire\<rparr>\<rparr>) = Some (b', None) \<and>
    c_stdout (ep_disp b') = c_stdout (ep_disp b) @
      map (\<lambda>i. (ep_seq a + of_nat i, c_writeQueue (ep_disp a) ! i)) [0..<length (c_writeQueue (ep_disp a))]"
proof -
  note lib = library.intro [OF assms(1)]
  let ?h = "next_header a" and ?bs = "c_writeQueue (ep_disp a)"
  let ?b = "b\<lparr>ep_disp := (ep_disp b)\<lparr>c_readQueue := numbered lib ?h ?bs\<rparr>\<rparr>"
  have seq: "ph_seq ?h = ep_seq a" by (rule library.next_header_seq [OF lib assms(2)])
  obtain a' where a': "Channel_Update lib t a = Some (a', None)"
    "c_outQueue (ep_disp a') = c_outQueue (ep_disp a) @ numbered lib ?h ?bs"
    by (rule library.Update_sends_batch [OF lib assms(2-9)])
  have b: "chan_ok ?b" "unat (recv_window ?b) < 32768"
    "ph_seq ?h = latest (ring_buf (ep_recv ?b))" "c_readQueue (ep_disp ?b) = numbered lib ?h ?bs"
    using assms(10-12) seq by simp_all
  obtain b' where "Channel_Update lib t' ?b = Some (b', None)"
    "c_stdout (ep_disp b') = c_stdout (ep_disp ?b) @ map (\<lambda>i. (ph_seq ?h + of_nat i, ?bs ! i)) [0..<length ?bs]"
    by (rule library.Update_prints_batch [OF lib b])
  then show ?thesis using a' seq unfolding Channel_Out_def by fastforce
qed

lemma default_channel_sizes:
  "window_size default_channel = 256" "latest (ring_buf (ep_recv default_channel)) = 0"
  "c_stdout (ep_disp default_channel) = []" "c_writeQueue (ep_disp default_channel) = []"
  by (simp_all add: default_channel_def NewChannel_def NewEndpoint_def buffer_defs ring_New_eq
      NewConfig_def window_size_def)

lemma batch_delivered_in_order_witness:
  "\<exists>a' b' wire. Channel_Update be_lib (Finite 1)
      (default_channel\<lparr>ep_disp := (ep_disp default_channel)\<lparr>c_writeQueue := [[1, 2], [3]]\<rparr>\<rparr>) = Some (a', None) \<and>
    Channel_Out a' = wire \<and> Channel_Update be_lib (Finite 2)
      (default_channel\<lparr>ep_disp := (ep_disp default_channel)\<lparr>c_readQueue := wire\<rparr>\<rparr>) = Some (b', None) \<and>
    c_stdout (ep_disp b') = [(0, [1, 2]), (1, [3])]"
proof -
  let ?a = "default_channel\<lparr>ep_disp := (ep_disp default_channel)\<lparr>c_writeQueue := [[1, 2], [3]]\<rparr>\<rparr>"
  have ws: "window_size ?a = 256" using default_channel_sizes(1) by (simp add: window_size_def)
  show ?thesis
    using batch_delivered_in_order [OF be_lib_ok, of ?a default_channel "Finite 1" "Finite 2"]
      default_channel default_channel_sizes ws
    by (simp add: Channel_Out_def NewConfig_def upt_conv_Cons)
qed

end
