(* ===== verification/ChannelSync.thy ===== *)
theory ChannelSync
  imports ChannelLink
begin

text \<open>
  The window of a channel and the sent buffer of its endpoint are two arrays that the code keeps
  apart: the endpoint marks a packet as acknowledged, the channel removes it from its window. Here
  they are related: in every run the window holds exactly the packets that wait for an
  acknowledgement. The relation is the \<open>track\<close> of a second instance of the dispatcher's contract.
\<close>

section \<open>The relation\<close>

definition synced :: "channel \<Rightarrow> bool" where
  "synced e \<longleftrightarrow> window_size e = length (ring_entries (ep_sent e)) \<and>
     (\<forall>q. stored (c_window (ep_disp e)) q \<longleftrightarrow> unacked e q)"

lemma synced_cong:
  assumes "synced e" and "ring_buf (c_window (ep_disp e')) = ring_buf (c_window (ep_disp e))"
    and "window_size e' = window_size e" and "ep_sent e' = ep_sent e"
  shows "synced e'"
proof -
  have "stored (c_window (ep_disp e')) q = stored (c_window (ep_disp e)) q" for q
    using assms(3) unfolding stored_def slot_def window_size_def assms(2) by simp
  moreover have "unacked e' q = unacked e q" for q
    using assms(4) by (simp add: unacked_def sent_entry_def)
  ultimately show ?thesis using assms by (simp add: synced_def)
qed

lemma slot_synced: "synced e \<Longrightarrow> slot (c_window (ep_disp e)) q = slot (ep_sent e) q"
  by (simp add: synced_def window_size_def slot_def)

lemma unacked_marked:
  assumes "ring_wf (ep_sent e)" and "unacked e s"
  shows "unacked (marked s e) q \<longleftrightarrow> unacked e q \<and> q \<noteq> s"
proof (cases "slot (ep_sent e) q = slot (ep_sent e) s")
  case True
  have "stored (ep_sent e) q \<Longrightarrow> q = s"
    using stored_slot_inj [OF _ _ True] assms(2) by (simp add: unacked_def)
  then show ?thesis using True assms
    by (auto simp: unacked_def marked_def sent_entry_def)
next
  case False
  then show ?thesis using assms(1) by (auto simp: unacked_def marked_def sent_entry_def)
qed

lemma unacked_prepared:
  assumes "ep_ok e"
  shows "unacked (prepared e buf) q \<longleftrightarrow>
    q = ep_seq e \<or> (unacked e q \<and> slot (ep_sent e) q \<noteq> slot (ep_sent e) (ep_seq e))"
proof -
  have wf: "ring_wf (ep_sent e)" and l: "latest (ring_buf (ep_sent e)) = ep_seq e"
    using ep_okD [OF assms] by blast+
  have "stored (ep_sent (prepared e buf)) q \<longleftrightarrow>
      q = ep_seq e \<or> (stored (ep_sent e) q \<and> slot (ep_sent e) q \<noteq> slot (ep_sent e) (ep_seq e))"
    using stored_inserted [OF wf, of "ep_seq e" q] wiped_latest [of "ep_sent e"] l
    by (simp add: prepared_def) (metis entries_inserted stored_write)
  moreover have "slot (ep_sent (prepared e buf)) q = slot (ep_sent e) q"
    by (simp add: prepared_def slot_def)
  then have "sent_entry (prepared e buf) q = (if slot (ep_sent e) q = slot (ep_sent e) (ep_seq e)
      then sent_record e buf else sent_entry e q)"
    using slot_less [OF wf, of q] slot_less [OF wf, of "ep_seq e"]
    unfolding sent_entry_def by (simp add: prepared_def)
  ultimately show ?thesis by (auto simp: unacked_def sent_record_def)
qed

section \<open>Sending\<close>

context library
begin

lemma put_again:
  assumes "ring_wf w" and "latest (ring_buf w) = s + 1" and "stored w s"
  shows "stored (put_packet w s b) q = stored w q"
proof -
  have "\<not> wiped w s i" for i
    using assms(2) seqGreaterThan_asym [of "s + 1" "s + 1"] by (auto simp: wiped_def advanced_def)
  then show ?thesis using stored_put_packet [OF assms(1)] assms(3) stored_slot_inj by metis
qed

lemma transmit_again:
  "chan_inv (ep_disp e) (ep_seq e) \<Longrightarrow> stored (c_window (ep_disp e)) (ep_seq e - 1) \<Longrightarrow>
   transmit_all (Channel_Transmit lib) (ep_seq e - 1) bs e = Some e' \<Longrightarrow>
   ep_sent e' = ep_sent e \<and> window_size e' = window_size e \<and>
   (\<forall>q. stored (c_window (ep_disp e')) q = stored (c_window (ep_disp e)) q)"
proof (induction bs arbitrary: e)
  case Nil
  then show ?case by simp
next
  case (Cons b bs)
  let ?s = "ep_seq e - 1"
  have inv: "chan_inv (ep_disp e) (?s + 1) \<or> chan_inv (ep_disp e) ?s" using Cons.prems(1) by simp
  let ?w = "c_window (ep_disp e)"
  let ?c = "(ep_disp e)\<lparr>c_window := put_packet ?w ?s (copied b (ep_pool e))\<rparr>"
  let ?e = "e\<lparr>ep_disp := ?c, ep_pool := Suc (ep_pool e)\<rparr>"
  note T = Channel_Transmit_eq [OF inv, of b]
  have w: "ring_wf ?w" "latest (ring_buf ?w) = ?s + 1"
    using Cons.prems(1) by (simp_all add: chan_inv_def window_ok_def)
  note put = put_again [OF w Cons.prems(2)]
  have "chan_inv (ep_disp ?e) (ep_seq ?e)" using T(2) by simp
  moreover have "stored (c_window (ep_disp ?e)) (ep_seq ?e - 1)" using Cons.prems(2) put by simp
  moreover have "transmit_all (Channel_Transmit lib) (ep_seq ?e - 1) bs ?e = Some e'"
    using Cons.prems(3) T(1) by simp
  ultimately have "ep_sent e' = ep_sent ?e \<and> window_size e' = window_size ?e \<and>
      (\<forall>q. stored (c_window (ep_disp e')) q = stored (c_window (ep_disp ?e)) q)"
    by (rule Cons.IH)
  then show ?case using put by (simp add: window_size_def put_packet_def)
qed

lemma WritePacket_synced:
  assumes ok: "chan_ok e" and sy: "synced e"
    and W: "WritePacket lib (Channel_Transmit lib) buf e = Some (e', w)"
  shows "chan_ok e'" and "synced e'"
proof -
  have epok: "ep_ok e" and inv: "chan_inv (ep_disp e) (ep_seq e)" using ok by (simp_all add: chan_ok_def)
  show "chan_ok e'" using outgoing.WritePacket_inv [OF epok inv, of buf] W by (auto simp: chan_ok_def)
  show "synced e'"
  proof (cases "length buf \<le> MaxPacketSize (ep_config e)")
    case False
    then show ?thesis using W sy by (simp add: WritePacket_def)
  next
    case True
    let ?p = "prepared e buf" and ?s = "ep_seq e" and ?w = "c_window (ep_disp e)"
    obtain b bs where bs: "packet_datagrams lib e buf = b # bs"
      using packet_datagrams_nonempty by (metis list.exhaust)
    have all: "transmit_all (Channel_Transmit lib) ?s (packet_datagrams lib e buf) ?p = Some e'"
      using W outgoing.WritePacket_eq [OF epok inv True] by (auto simp: Let_def)
    have inv': "chan_inv (ep_disp ?p) (?s + 1) \<or> chan_inv (ep_disp ?p) ?s" using inv by simp
    note T = Channel_Transmit_eq [OF inv', of b]
    let ?c = "(ep_disp ?p)\<lparr>c_window := put_packet ?w ?s (copied b (ep_pool ?p))\<rparr>"
    let ?e1 = "?p\<lparr>ep_disp := ?c, ep_pool := Suc (ep_pool ?p)\<rparr>"
    have rest: "transmit_all (Channel_Transmit lib) (ep_seq ?e1 - 1) bs ?e1 = Some e'"
      using all T(1) bs by simp
    have wf: "ring_wf ?w" and l: "latest (ring_buf ?w) = ?s"
      using inv by (simp_all add: chan_inv_def window_ok_def)
    have put: "stored (put_packet ?w ?s k) q \<longleftrightarrow> q = ?s \<or> (stored ?w q \<and> slot ?w q \<noteq> slot ?w ?s)" for q k
      using stored_put_packet [OF wf] wiped_latest [of ?w] l by simp
    have "chan_inv (ep_disp ?e1) (ep_seq ?e1)" using T(2) by simp
    moreover have "stored (c_window (ep_disp ?e1)) (ep_seq ?e1 - 1)" using put by simp
    ultimately have e': "ep_sent e' = ep_sent ?p" "window_size e' = window_size e"
      "\<And>q. stored (c_window (ep_disp e')) q \<longleftrightarrow> q = ?s \<or> (stored ?w q \<and> slot ?w q \<noteq> slot ?w ?s)"
      using transmit_again [OF _ _ rest] put by (simp_all add: window_size_def put_packet_def)
    have un: "unacked e' q \<longleftrightarrow> unacked ?p q" for q using e'(1) by (simp add: unacked_def sent_entry_def)
    have "length (ring_entries (ep_sent ?p)) = length (ring_entries (ep_sent e))" by (simp add: prepared_def)
    then show ?thesis
      using sy e' un unacked_prepared [OF epok] slot_synced [OF sy] by (simp add: synced_def)
  qed
qed

lemma flush_queue_synced:
  "chan_ok e \<Longrightarrow> synced e \<Longrightarrow> flush_queue lib n e = Some e' \<Longrightarrow> synced e'"
proof (induction n arbitrary: e)
  case (Suc n)
  show ?case
  proof (cases "c_queue (ep_disp e)")
    case (Cons b rest)
    let ?e = "e\<lparr>ep_disp := (ep_disp e)\<lparr>c_queue := rest\<rparr>\<rparr>"
    from Cons Suc.prems(3) obtain e1 w where
      e1: "WritePacket lib (Channel_Transmit lib) (bb_bytes b) ?e = Some (e1, w)" "flush_queue lib n e1 = Some e'"
      by (auto simp: bind_eq_Some_conv)
    have "chan_ok ?e" using Suc.prems(1) by simp
    moreover have "synced ?e" by (rule synced_cong [OF Suc.prems(2)]) (simp_all add: window_size_def)
    ultimately have "chan_ok e1" "synced e1" using WritePacket_synced e1(1) by blast+
    then show ?thesis using Suc.IH e1(2) by blast
  qed (use Suc.prems in simp)
qed simp

end

section \<open>Acknowledging\<close>

lemma window_ok_remove: "window_ok w \<Longrightarrow> window_ok (removed w s)"
  unfolding removed_def by (rule window_ok_removed)

lemma removed_simps [simp]:
  "latest (ring_buf (removed w s)) = latest (ring_buf w)" "ring_entries (removed w s) = ring_entries w"
  by (simp_all add: removed_def)

context library
begin

lemma Channel_ACK_shape:
  assumes ok: "chan_ok e" and st: "stored (c_window (ep_disp e)) s"
  obtains n q where "Channel_ACK lib s e = flush_queue lib n (e\<lparr>ep_disp := (ep_disp e)
    \<lparr>c_window := removed (c_window (ep_disp e)) s, c_oldestUnacked := q\<rparr>\<rparr>)"
proof (cases "c_oldestUnacked (ep_disp e) = s")
  case False
  let ?w = "removed (c_window (ep_disp e)) s"
  have "(ep_disp e)\<lparr>c_window := ?w\<rparr> =
      (ep_disp e)\<lparr>c_window := ?w, c_oldestUnacked := c_oldestUnacked (ep_disp e)\<rparr>"
    by (cases "ep_disp e") simp
  then show ?thesis
    using Channel_ACK_other [OF ok st False]
    by (intro that [of 0 "c_oldestUnacked (ep_disp e)"]) simp
next
  case True
  let ?w = "c_window (ep_disp e)"
  have w: "window_ok ?w" using chan_okD(3) [OF ok] .
  then have wf: "ring_wf ?w" by (simp add: window_ok_def)
  have wf1: "ring_wf (removed ?w s)" using window_ok_remove [OF w] by (simp add: window_ok_def)
  obtain b where b: "bp_buf (ring_entries ?w ! slot ?w s) = Some b"
    using st w by (auto simp: window_ok_def)
  have rd: "ring_read (removed ?w s) (slot ?w s) = Some (ring_entries ?w ! slot ?w s)"
    using slot_less [OF wf, of s] by (simp add: ring_read_def)
  have ops: "PacketBuffer_Find ?w s = Some (Some (slot ?w s))"
    "PacketBuffer_Remove ?w s = Some (removed ?w s)"
    using wf st by (simp_all add: buffer_defs ring_Find_eq ring_Remove_eq removed_def)
  show ?thesis
    by (rule that) (use ops rd b True in \<open>simp add: Channel_ACK_def first_in_window_eq [OF wf1] Let_def\<close>)
qed

text \<open>The packet is marked first; when the channel has removed it, the two agree again.\<close>

lemma Channel_ACK_synced:
  assumes ok: "chan_ok e" and sy: "synced e" and un: "unacked e s"
  obtains e1 n where "Channel_ACK lib s (marked s e) = flush_queue lib n e1" "chan_ok e1" "synced e1"
    "ep_sent e1 = ep_sent (marked s e)" "c_queue (ep_disp e1) = c_queue (ep_disp e)"
    "ep_config e1 = ep_config e" "ep_recv e1 = ep_recv e"
proof -
  let ?m = "marked s e" and ?w = "c_window (ep_disp e)"
  have okm: "chan_ok ?m" using ok by (simp add: chan_ok_def ep_ok_marked)
  have st: "stored ?w s" using sy un by (simp add: synced_def)
  obtain n q where eq: "Channel_ACK lib s ?m = flush_queue lib n (?m\<lparr>ep_disp := (ep_disp ?m)
      \<lparr>c_window := removed (c_window (ep_disp ?m)) s, c_oldestUnacked := q\<rparr>\<rparr>)"
    using Channel_ACK_shape [OF okm, of s] st by auto
  let ?e1 = "?m\<lparr>ep_disp := (ep_disp ?m)
      \<lparr>c_window := removed (c_window (ep_disp ?m)) s, c_oldestUnacked := q\<rparr>\<rparr>"
  have "window_ok (removed ?w s)" by (rule window_ok_remove [OF chan_okD(3) [OF ok]])
  then have "chan_ok ?e1" using okm by (simp add: chan_ok_def chan_inv_def ep_ok_def)
  moreover have "synced ?e1"
  proof -
    have wf: "ring_wf (ep_sent e)" "ring_wf ?w"
      using ok chan_okD(3) [OF ok] by (auto simp: chan_ok_def window_ok_def dest: ep_okD(2))
    have "unacked ?e1 t \<longleftrightarrow> unacked ?m t" for t by (simp add: unacked_def sent_entry_def)
    then show ?thesis
      using sy unacked_marked [OF wf(1) un] stored_removed [OF wf(2) st]
      by (simp add: synced_def window_size_def) (simp add: marked_def)
  qed
  ultimately show ?thesis using that [OF eq] by simp
qed

end

text \<open>A second instance of the dispatcher's contract: everything keeps the two in agreement.\<close>

sublocale library \<subseteq> tracked: dispatching lib "Channel_dispatcher lib" chan_inv
  "\<lambda>e. synced e \<and> c_readQueue (ep_disp e) = rq" for rq
proof
  fix e :: channel and q b
  assume inv: "chan_inv (ep_disp e) (ep_seq e)" and tr: "synced e \<and> c_readQueue (ep_disp e) = rq"
  let ?x = "(ep_disp e)\<lparr>c_stdout := c_stdout (ep_disp e) @ [(q, b)]\<rparr>"
  have "synced (e\<lparr>ep_disp := ?x, ep_pool := ep_pool e\<rparr>)"
    by (rule synced_cong [of e]) (use tr in \<open>simp_all add: window_size_def\<close>)
  then show "\<exists>x k. Process (Channel_dispatcher lib) q b e = Some (e\<lparr>ep_disp := x, ep_pool := k\<rparr>) \<and>
      chan_inv x (ep_seq e) \<and> synced (e\<lparr>ep_disp := x, ep_pool := k\<rparr>) \<and>
      c_readQueue (ep_disp (e\<lparr>ep_disp := x, ep_pool := k\<rparr>)) = rq"
    using inv tr unfolding Channel_dispatcher_simps Channel_Process_def
    by (intro exI [of _ ?x] exI [of _ "ep_pool e"]) (simp add: channel_disp_pool_id)
  show "\<exists>e'. ACK (Channel_dispatcher lib) q (marked q e) = Some e' \<and> ep_ok e' \<and>
      chan_inv (ep_disp e') (ep_seq e') \<and> (synced e' \<and> c_readQueue (ep_disp e') = rq) \<and>
      writes (marked q e) e'" if ok: "ep_ok e" and un: "unacked e q"
  proof -
    obtain e' where e': "Channel_ACK lib q (marked q e) = Some e'" "ep_ok e'"
      "chan_inv (ep_disp e') (ep_seq e')" "writes (marked q e) e'"
      using Channel_ACK_ok [OF ep_ok_marked [OF ok], of q q] inv by auto
    have "chan_ok e" using ok inv by (simp add: chan_ok_def)
    then obtain e1 n where "Channel_ACK lib q (marked q e) = flush_queue lib n e1" "chan_ok e1" "synced e1"
      using Channel_ACK_synced un tr by metis
    then have "synced e'" using flush_queue_synced e'(1) by simp
    moreover have "c_readQueue (ep_disp e') = rq" using Channel_ACK_silent [OF e'(1)] tr by simp
    ultimately show ?thesis using e' by simp
  qed
next
  fix e e' :: channel
  assume "synced e \<and> c_readQueue (ep_disp e) = rq" "ep_disp e' = ep_disp e" "ep_sent e' = ep_sent e"
  then show "synced e' \<and> c_readQueue (ep_disp e') = rq"
    using synced_cong [of e e'] by (simp add: window_size_def)
qed

section \<open>Updating\<close>

context library
begin

lemma drain_reads_synced:
  "chan_ok e \<Longrightarrow> synced e \<Longrightarrow> \<forall>b \<in> set bs. b \<noteq> [] \<and> fits lib (ep_config e) b \<Longrightarrow>
   set (c_readQueue (ep_disp e)) \<subseteq> set bs \<Longrightarrow>
   \<exists>e' err. drain_reads lib bs e = Some (e', err) \<and> chan_ok e' \<and> synced e' \<and> ep_config e' = ep_config e \<and>
     set (c_readQueue (ep_disp e')) \<subseteq> set bs"
proof (induction bs arbitrary: e)
  case Nil
  then show ?case by simp
next
  case (Cons b bs)
  let ?e = "e\<lparr>ep_disp := (ep_disp e)\<lparr>c_readQueue := bs\<rparr>\<rparr>"
  have "synced ?e" by (rule synced_cong [OF Cons.prems(2)]) (simp_all add: window_size_def)
  then have "tracked.good bs ?e" using Cons.prems(1) by (simp add: tracked.good_def chan_ok_def ep_ok_def)
  moreover have "b \<noteq> []" "fits lib (ep_config ?e) b" using Cons.prems(3) by simp_all
  ultimately obtain e1 err where e1: "ReadPacket lib (Channel_dispatcher lib) b ?e = Some (e1, err)"
    "tracked.good bs e1" "ep_config e1 = ep_config ?e"
    using tracked.ReadPacket_ok by blast
  then have ok1: "chan_ok e1" "synced e1" "c_readQueue (ep_disp e1) = bs"
    by (simp_all add: tracked.good_def chan_ok_def)
  show ?case
  proof (cases err)
    case None
    with Cons.IH [OF ok1(1,2)] Cons.prems(3) e1(1,3) ok1(3) show ?thesis by auto
  next
    case (Some x)
    then show ?thesis using e1(1,3) ok1 by auto
  qed
qed

lemma drain_writes_synced:
  "chan_ok e \<Longrightarrow> synced e \<Longrightarrow> drain_writes lib bs e = Some e' \<Longrightarrow> chan_ok e' \<and> synced e'"
proof (induction bs arbitrary: e)
  case Nil
  then show ?case by simp
next
  case (Cons b bs)
  let ?e = "e\<lparr>ep_disp := (ep_disp e)\<lparr>c_writeQueue := bs\<rparr>\<rparr>"
  have e: "chan_ok ?e" "synced ?e"
    using Cons.prems(1) synced_cong [OF Cons.prems(2), of ?e] by (simp_all add: window_size_def)
  show ?case
  proof (cases "c_oldestUnacked (ep_disp ?e) + recv_window ?e = ep_seq ?e")
    case True
    let ?e1 = "e\<lparr>ep_pool := Suc (ep_pool e), ep_disp := (ep_disp e)\<lparr>c_writeQueue := bs,
      c_queue := c_queue (ep_disp e) @ [copied b (ep_pool e)]\<rparr>\<rparr>"
    have "drain_writes lib bs ?e1 = Some e'"
      using Cons.prems(3) True by (simp add: copy_of_eq)
    moreover have "chan_ok ?e1" using Cons.prems(1) by (simp add: chan_ok_def ep_ok_def)
    moreover have "synced ?e1" by (rule synced_cong [OF Cons.prems(2)]) (simp_all add: window_size_def)
    ultimately show ?thesis using Cons.IH by blast
  next
    case False
    with Cons.prems(3) obtain e1 w where "WritePacket lib (Channel_Transmit lib) b ?e = Some (e1, w)"
      "drain_writes lib bs e1 = Some e'" by (auto simp: Let_def bind_eq_Some_conv)
    then show ?thesis using Cons.IH WritePacket_synced [OF e] by blast
  qed
qed

lemma Channel_Update_synced:
  assumes ok: "chan_ok e" and sy: "synced e" and w: "unat (recv_window e) < 32768"
    and bs: "\<forall>b \<in> set (c_readQueue (ep_disp e)). b \<noteq> [] \<and> fits lib (ep_config e) b"
  shows "\<exists>e' err. Channel_Update lib t e = Some (e', err) \<and> chan_ok e' \<and> synced e' \<and>
    ep_config e' = ep_config e \<and> set (c_readQueue (ep_disp e')) \<subseteq> set (c_readQueue (ep_disp e))"
proof -
  obtain e' err where U: "Channel_Update lib t e = Some (e', err)" "chan_ok e'" "ep_config e' = ep_config e"
    using Channel_Update_ok [OF ok w bs] by blast
  obtain e1 where e1: "Update t e = Some e1" "ep_ok e1" "ep_disp e1 = ep_disp e" "ep_seq e1 = ep_seq e"
    "ep_sent e1 = ep_sent e" "ep_config e1 = ep_config e"
    using Update_ok [OF chan_okD(1) [OF ok]] by metis
  have ok1: "chan_ok e1" using ok e1 by (simp add: chan_ok_def)
  have sy1: "synced e1" by (rule synced_cong [OF sy]) (use e1 in \<open>simp_all add: window_size_def\<close>)
  have bs1: "\<forall>b \<in> set (c_readQueue (ep_disp e)). b \<noteq> [] \<and> fits lib (ep_config e1) b"
    "set (c_readQueue (ep_disp e1)) \<subseteq> set (c_readQueue (ep_disp e))" using bs e1 by simp_all
  obtain e2 err2 where e2: "drain_reads lib (c_readQueue (ep_disp e)) e1 = Some (e2, err2)" "chan_ok e2"
    "synced e2" "ep_config e2 = ep_config e1" "set (c_readQueue (ep_disp e2)) \<subseteq> set (c_readQueue (ep_disp e))"
    using drain_reads_synced [OF ok1 sy1 bs1] by blast
  have "synced e' \<and> set (c_readQueue (ep_disp e')) \<subseteq> set (c_readQueue (ep_disp e))"
  proof (cases err2)
    case (Some x)
    then show ?thesis using U(1) e1(1,3) e2 by (simp add: Channel_Update_def)
  next
    case None
    have "unat (recv_window e2) < 32768" using w e1(6) e2(4) by (simp add: recv_window_def)
    from update_tail [OF e2(2) this, of t] obtain e3 c e5 v where
      tail: "drain_writes lib (c_writeQueue (ep_disp e2)) e2 = Some e3"
        "resend_all t (loop_seqs (c_oldestUnacked (ep_disp e3))
           (c_oldestUnacked (ep_disp e3) + recv_window e3)) (ep_disp e3) = Some c"
        "sent_out t (filter (due t (ep_disp e3)) (map (\<lambda>i. c_oldestUnacked (ep_disp e3) + of_nat i)
           [0..<Suc (unat (recv_window e2))])) (ep_disp e3) c"
        "chan_ok (e3\<lparr>ep_disp := c\<rparr>)"
        "WritePacket lib (Channel_Transmit lib) [] (e3\<lparr>ep_disp := c\<rparr>) = Some (e5, v)"
      by metis
    let ?e4 = "e3\<lparr>ep_disp := c\<rparr>"
    have sy3: "synced e3" using drain_writes_synced [OF e2(2,3) tail(1)] by blast
    have sy4: "synced ?e4"
      by (rule synced_cong [OF sy3]) (use tail(3) in \<open>simp_all add: sent_out_def window_size_def\<close>)
    have "synced e5" by (rule WritePacket_synced(2) [OF tail(4) sy4 tail(5)])
    moreover have "seen ?e4 = seen e5" using printing.WritePacket_silent [OF tail(5)] by simp
    moreover have "c_readQueue c = c_readQueue (ep_disp e2)"
      using drain_writes_silent [OF tail(1)] tail(3) by (simp add: sent_out_def)
    moreover have "e' = e5 \<or> e' = ?e4"
      using U(1) e1(1,3) e2(1) tail(1,2,5) None by (auto simp: Channel_Update_def Let_def split: if_splits)
    ultimately show ?thesis using sy4 e2(5) by auto
  qed
  then show ?thesis using U by blast
qed

end

section \<open>Runs\<close>

text \<open>
  What the users of a channel do, in any order: hand in a received datagram, write a packet, update
  at a time. \<^const>\<open>None\<close>: an operation waits for room in a queue (or panics).
\<close>

datatype chan_op = Feed bytes | Send bytes | Tick float64

fun channel_run :: "lib \<Rightarrow> chan_op list \<Rightarrow> channel \<Rightarrow> channel option" where
  "channel_run lib [] e = Some e"
| "channel_run lib (Feed b # ops) e = do { e \<leftarrow> Channel_Read b e; channel_run lib ops e }"
| "channel_run lib (Send b # ops) e = do { e \<leftarrow> Channel_Write b e; channel_run lib ops e }"
| "channel_run lib (Tick t # ops) e = do { (e, _) \<leftarrow> Channel_Update lib t e; channel_run lib ops e }"

context library
begin

lemma channel_run_synced:
  "chan_ok e \<Longrightarrow> synced e \<Longrightarrow> unat (recv_window e) < 32768 \<Longrightarrow>
   \<forall>b \<in> set (c_readQueue (ep_disp e)). b \<noteq> [] \<and> fits lib (ep_config e) b \<Longrightarrow>
   \<forall>b. Feed b \<in> set ops \<longrightarrow> b \<noteq> [] \<and> fits lib (ep_config e) b \<Longrightarrow>
   channel_run lib ops e = Some e' \<Longrightarrow> chan_ok e' \<and> synced e'"
proof (induction ops arbitrary: e)
  case Nil
  then show ?case by simp
next
  case (Cons x ops)
  show ?case
  proof (cases x)
    case (Feed b)
    let ?e = "e\<lparr>ep_disp := (ep_disp e)\<lparr>c_readQueue := c_readQueue (ep_disp e) @ [b]\<rparr>\<rparr>"
    have run: "channel_run lib ops ?e = Some e'"
      using Cons.prems(6) Feed by (auto simp: Channel_Read_def chan_send_def split: if_splits)
    have "chan_ok ?e" using Cons.prems(1) by simp
    moreover have "synced ?e" by (rule synced_cong [OF Cons.prems(2)]) (simp_all add: window_size_def)
    ultimately show ?thesis using Cons.IH [OF _ _ _ _ _ run] Cons.prems(3-5) Feed by simp
  next
    case (Send b)
    let ?e = "e\<lparr>ep_disp := (ep_disp e)\<lparr>c_writeQueue := c_writeQueue (ep_disp e) @ [b]\<rparr>\<rparr>"
    have run: "channel_run lib ops ?e = Some e'"
      using Cons.prems(6) Send by (auto simp: Channel_Write_def chan_send_def split: if_splits)
    have "chan_ok ?e" using Cons.prems(1) by simp
    moreover have "synced ?e" by (rule synced_cong [OF Cons.prems(2)]) (simp_all add: window_size_def)
    ultimately show ?thesis using Cons.IH [OF _ _ _ _ _ run] Cons.prems(3-5) Send by simp
  next
    case (Tick t)
    obtain e1 err where e1: "Channel_Update lib t e = Some (e1, err)" "chan_ok e1" "synced e1"
      "ep_config e1 = ep_config e" "set (c_readQueue (ep_disp e1)) \<subseteq> set (c_readQueue (ep_disp e))"
      using Channel_Update_synced [OF Cons.prems(1-4)] by blast
    have run: "channel_run lib ops e1 = Some e'" using Cons.prems(6) Tick e1(1) by simp
    show ?thesis
      by (rule Cons.IH [OF e1(2,3) _ _ _ run]) (use Cons.prems(3-5) e1(4,5) in \<open>auto simp: recv_window_def\<close>)
  qed
qed

end

lemma NewChannel_sizes:
  "NewChannel c = Some e \<Longrightarrow> window_size e = length (ring_entries (ep_sent e))"
  by (auto simp: NewChannel_def NewEndpoint_def buffer_defs ring_New_eq window_size_def Let_def)

lemma NewChannel_synced:
  assumes "config_ok (case c of None \<Rightarrow> NewConfig | Some c \<Rightarrow> c)" and "NewChannel c = Some e"
  shows "synced e"
proof (rule NewChannel_ok [OF assms(1)])
  fix e' assume "NewChannel c = Some e'" "\<And>s. \<not> stored (c_window (ep_disp e')) s" "\<And>s. \<not> stored (ep_sent e') s"
  then show ?thesis using assms(2) NewChannel_sizes [OF assms(2)] by (simp add: synced_def unacked_def)
qed

section \<open>A datagram that acknowledges\<close>

text \<open>With nothing held back, an acknowledgement writes no packet and only clears the window.\<close>

definition idle_state :: "recv_packet_buffer \<Rightarrow> channel \<Rightarrow> bool" where
  "idle_state rb e \<longleftrightarrow> chan_ok e \<and> synced e \<and> c_queue (ep_disp e) = [] \<and> ep_recv e = rb"

context library
begin

lemma idle_acking: "acking (Channel_ACK lib) (\<lambda>_. idle_state rb)"
proof
  fix e :: channel and s
  assume "idle_state rb e" and un: "unacked e s"
  then have e: "chan_ok e" "synced e" "c_queue (ep_disp e) = []" "ep_recv e = rb"
    by (simp_all add: idle_state_def)
  obtain e1 n where "Channel_ACK lib s (marked s e) = flush_queue lib n e1" "chan_ok e1" "synced e1"
    "ep_sent e1 = ep_sent (marked s e)" "c_queue (ep_disp e1) = []" "ep_recv e1 = rb"
    using Channel_ACK_synced [OF e(1,2) un] e(3,4) by metis
  then show "\<exists>e'. Channel_ACK lib s (marked s e) = Some e' \<and> ep_sent e' = ep_sent (marked s e) \<and>
      idle_state rb e'"
    by (simp add: flush_queue_Nil idle_state_def)
next
  fix e :: channel and x
  assume "idle_state rb e"
  then show "idle_state rb (e\<lparr>ep_rtt := x\<rparr>)"
    using synced_cong [of e "e\<lparr>ep_rtt := x\<rparr>"] by (simp add: idle_state_def chan_ok_def window_size_def)
qed

lemma recv_acknowledging:
  assumes a: "chan_ok a" "synced a" "c_queue (ep_disp a) = []"
    and new: "\<not> ring_IsOutdated (ep_recv a) (ph_seq h)"
  obtains a' where "ReadPacket lib (Channel_dispatcher lib) (PacketHeader_AppendTo lib h [] @ data) a =
      Some (a', None)" "chan_ok a'" "synced a'"
    "\<And>q. stored (c_window (ep_disp a')) q \<longleftrightarrow>
      stored (c_window (ep_disp a)) q \<and> q \<notin> set (named (ph_ack h) (ph_acks h))"
proof -
  let ?s = "ph_seq h"
  have wf: "ring_wf (ep_recv a)" using chan_okD(1) [OF a(1)] by (rule ep_okD)
  have ins: "RecvPacketBuffer_Insert (ep_recv a) ?s =
      Some (inserted (ep_recv a) ?s, Some (slot (ep_recv a) ?s))"
    using ring_Insert_eq [OF wf new] by (simp add: buffer_defs)
  define rec where "rec = \<lparr>rp_time = ep_time a, rp_size = PacketHeaderSize (ep_config a) + length data\<rparr>"
  define rb where "rb = (inserted (ep_recv a) ?s)\<lparr>ring_entries := (ring_entries (ep_recv a))
      [slot (ep_recv a) ?s := rec]\<rparr>"
  define e2 where "e2 = a\<lparr>ep_disp := (ep_disp a)\<lparr>c_stdout := c_stdout (ep_disp a) @ [(?s, data)]\<rparr>,
    ep_recv := rb\<rparr>"
  have "ring_wf rb" using ring_wf_inserted [OF wf, of ?s] by (simp add: ring_wf_def rb_def)
  moreover have "synced e2" by (rule synced_cong [OF a(2)]) (simp_all add: e2_def window_size_def)
  ultimately have "idle_state rb e2"
    using a by (simp add: idle_state_def chan_ok_def ep_ok_def e2_def)
  moreover from this have "ring_wf (ep_sent e2)" by (simp add: idle_state_def chan_ok_def ep_ok_def)
  ultimately obtain e3 where e3: "processACKs (Channel_ACK lib) (ph_ack h) (ph_acks h) e2 = Some e3"
    "marks (set (filter (unacked e2) (named (ph_ack h) (ph_acks h)))) e2 e3" "idle_state rb e3"
    using acking.processACKs_marks_named [OF idle_acking] by blast
  have "recvCompactPacket lib (Channel_dispatcher lib) (PacketHeader_AppendTo lib h [] @ data) a =
      Some (e3, None)"
    using ins e3(1) wf header.decode_encode [of h data]
    by (simp add: recvCompactPacket_def Channel_Process_def ring_read_eq ring_write_eq
        RecvPacket_Reset_def zero_RecvPacket_def rec_def e2_def rb_def)
  moreover have "stored (c_window (ep_disp e3)) q \<longleftrightarrow>
      stored (c_window (ep_disp a)) q \<and> q \<notin> set (named (ph_ack h) (ph_acks h))" for q
  proof -
    have "unacked e2 q = unacked a q" by (simp add: e2_def unacked_def sent_entry_def)
    then show ?thesis
      using marks_unacked [OF e3(2)] a(2) e3(3) by (auto simp: idle_state_def synced_def)
  qed
  ultimately show ?thesis using e3(3) that by (simp add: ReadPacket_compact idle_state_def)
qed

end

section \<open>Claims\<close>

text \<open>
  C6. In every run of a channel, whatever is fed, written and acknowledged, the window from which
  packets are sent again holds exactly the packets that the endpoint has sent, still knows and
  has not seen acknowledged.
\<close>

theorem window_holds_unacknowledged:
  assumes "lib_ok lib" and "config_ok c" and "NewChannel (Some c) = Some e"
    and "\<forall>b. Feed b \<in> set ops \<longrightarrow> b \<noteq> [] \<and> fits lib c b"
    and "channel_run lib ops e = Some e'"
  shows "stored (c_window (ep_disp e')) q \<longleftrightarrow> stored (ep_sent e') q \<and> \<not> sp_acked (sent_entry e' q)"
proof (rule NewChannel_ok [of "Some c"])
  show "config_ok (case Some c of None \<Rightarrow> NewConfig | Some c \<Rightarrow> c)" using assms(2) by simp
  fix e1 assume "NewChannel (Some c) = Some e1" "chan_ok e1" "c_readQueue (ep_disp e1) = []"
    "ep_config e1 = (case Some c of None \<Rightarrow> NewConfig | Some c \<Rightarrow> c)"
  then have e: "chan_ok e" "c_readQueue (ep_disp e) = []" "ep_config e = c" using assms(3) by simp_all
  have "RecvPacketBufferSize c mod 65536 < 32768" using assms(2) by (simp add: config_ok_def)
  then have "unat (recv_window e) < 32768" by (simp add: recv_window_def e(3) unat_of_nat)
  moreover have "synced e" using NewChannel_synced [OF _ assms(3)] assms(2) by simp
  ultimately have "synced e'"
    using library.channel_run_synced [OF library.intro [OF assms(1)] e(1) _ _ _ _ assms(5)] assms(4) e(2,3)
    by simp
  then show ?thesis by (simp add: synced_def unacked_def)
qed

lemma window_holds_unacknowledged_witness:
  "\<exists>e e'. NewChannel (Some NewConfig) = Some e \<and>
    channel_run be_lib [Send [1, 2], Tick (Finite 1)] e = Some e' \<and>
    (\<forall>q. stored (c_window (ep_disp e')) q \<longleftrightarrow> stored (ep_sent e') q \<and> \<not> sp_acked (sent_entry e' q))"
proof -
  obtain e where e: "NewChannel (Some NewConfig) = Some e" "chan_ok e" "ep_config e = NewConfig"
    "c_readQueue (ep_disp e) = []" "c_writeQueue (ep_disp e) = []"
    by (rule NewChannel_ok [of "Some NewConfig"]) (simp_all add: NewConfig_ok)
  let ?e = "e\<lparr>ep_disp := (ep_disp e)\<lparr>c_writeQueue := [[1, 2]]\<rparr>\<rparr>"
  have w: "Channel_Write [1, 2] e = Some ?e"
    by (simp add: Channel_Write_def chan_send_def e(3,5) NewConfig_def)
  have "unat (recv_window ?e) < 32768" by (simp add: recv_window_def e(3) NewConfig_def)
  then obtain e' err where "Channel_Update be_lib (Finite 1) ?e = Some (e', err)"
    using be.Channel_Update_ok [of ?e "Finite 1"] e(2,4) by auto
  then have run: "channel_run be_lib [Send [1, 2], Tick (Finite 1)] e = Some e'" using w by simp
  then show ?thesis
    using window_holds_unacknowledged [OF be_lib_ok NewConfig_ok e(1) _ run] e(1) by auto
qed

text \<open>
  C7. A datagram of a peer that announces what it has received makes a channel that holds nothing back
  forget exactly the packets that the peer has among its last 32, so they are never sent again, and no others.
\<close>

theorem acknowledged_packets_leave_window:
  fixes b :: "'d endpoint"
  assumes "lib_ok lib" and "chan_ok a" and "synced a" and "c_queue (ep_disp a) = []"
    and "ep_ok b" and "\<not> ring_IsOutdated (ep_recv a) (ep_seq b)"
    and "length data \<le> FragmentAbove (ep_config b)" and "packet_datagrams lib b data = [d]"
  shows "\<exists>a'. ReadPacket lib (Channel_dispatcher lib) d a = Some (a', None) \<and> chan_ok a' \<and> synced a' \<and>
    (\<forall>q. stored (c_window (ep_disp a')) q \<longleftrightarrow> stored (c_window (ep_disp a)) q \<and>
      \<not> (stored (ep_recv b) q \<and> unat (latest (ring_buf (ep_recv b)) - 1 - q) < 32))"
proof -
  note lib = library.intro [OF assms(1)]
  have wf: "ring_wf (ep_recv b)" using assms(5) by (rule ep_okD)
  obtain ack acks where n: "NextACK (ep_recv b) = Some (ack, acks)" using NextACK_eq [OF wf] by metis
  then have h: "ph_seq (next_header b) = ep_seq b" "ph_ack (next_header b) = ack" "ph_acks (next_header b) = acks"
    by (simp_all add: next_header_def)
  have d: "d = PacketHeader_AppendTo lib (next_header b) [] @ data"
    using assms(7,8) by (simp add: packet_datagrams_def)
  have "\<not> ring_IsOutdated (ep_recv a) (ph_seq (next_header b))" using assms(6) h(1) by simp
  from library.recv_acknowledging [OF lib assms(2-4) this] obtain a' where
    a': "ReadPacket lib (Channel_dispatcher lib) d a = Some (a', None)" "chan_ok a'" "synced a'"
    "\<And>q. stored (c_window (ep_disp a')) q \<longleftrightarrow> stored (c_window (ep_disp a)) q \<and>
      q \<notin> set (named (ph_ack (next_header b)) (ph_acks (next_header b)))"
    unfolding d by blast
  show ?thesis
    using a' NextACK_named [OF wf n] unfolding h by (auto simp: age_def)
qed

lemma default_channel_synced: "synced default_channel"
proof (rule NewChannel_ok [of None])
  fix e assume e: "NewChannel None = Some e"
  then have "default_channel = e" by (simp add: default_channel_def)
  moreover have "synced e" by (rule NewChannel_synced [OF _ e]) (simp add: NewConfig_ok)
  ultimately show ?thesis by simp
qed (simp add: NewConfig_ok)

lemma acknowledged_packets_leave_window_witness:
  "\<exists>a w a' d. WritePacket be_lib (Channel_Transmit be_lib) [1, 2] default_channel = Some (a, w) \<and>
    stored (c_window (ep_disp a)) 0 \<and> ReadPacket be_lib (Channel_dispatcher be_lib) d a = Some (a', None) \<and>
    \<not> stored (c_window (ep_disp a')) 0"
proof -
  let ?c = default_channel
  have cfg: "length [1, 2 :: u8] \<le> FragmentAbove (ep_config ?c)" "length [1, 2 :: u8] \<le> MaxPacketSize (ep_config ?c)"
    by (simp_all add: default_channel NewConfig_def)
  obtain a w k where a: "WritePacket be_lib (Channel_Transmit be_lib) [1, 2] ?c = Some (a, w)" "chan_ok a"
    "writes ?c a" "ep_disp a = (ep_disp ?c)\<lparr>c_window := put_packet (c_window (ep_disp ?c)) (ep_seq ?c)
      (be.copied (PacketHeader_AppendTo be_lib (next_header ?c) [] @ [1, 2]) k)\<rparr>"
    by (rule be.WritePacket_compact [OF default_channel(1) cfg]) blast
  have sy: "synced a" by (rule be.WritePacket_synced(2) [OF default_channel(1) default_channel_synced a(1)])
  have wf: "ring_wf (c_window (ep_disp ?c))" "ring_wf (ep_recv ?c)"
    using chan_okD(3) [OF default_channel(1)] ep_okD(4) [OF chan_okD(1) [OF default_channel(1)]]
    by (simp_all add: window_ok_def)
  have st: "stored (c_window (ep_disp a)) 0"
    using stored_put_packet [OF wf(1)] by (simp add: a(4) default_channel)
  define b where "b = ?c\<lparr>ep_recv := inserted (ep_recv ?c) 0\<rparr>"
  have "ep_ok b" using chan_okD(1) [OF default_channel(1)] ring_wf_inserted [OF wf(2)]
    by (simp add: b_def ep_ok_def)
  moreover have "\<not> ring_IsOutdated (ep_recv a) (ep_seq b)"
    using not_outdated_latest [OF wf(2)] a(3) default_channel(2) default_channel_sizes(2)
    by (simp add: b_def writes_def)
  moreover have "length [] \<le> FragmentAbove (ep_config b)" by simp
  moreover have "packet_datagrams be_lib b [] = [PacketHeader_AppendTo be_lib (next_header b) []]"
    by (simp add: packet_datagrams_def)
  moreover have "c_queue (ep_disp a) = []" using a(4) default_channel(5) by simp
  ultimately obtain a' where "ReadPacket be_lib (Channel_dispatcher be_lib)
      (PacketHeader_AppendTo be_lib (next_header b) []) a = Some (a', None)"
    "\<forall>q. stored (c_window (ep_disp a')) q \<longleftrightarrow> stored (c_window (ep_disp a)) q \<and>
      \<not> (stored (ep_recv b) q \<and> unat (latest (ring_buf (ep_recv b)) - 1 - q) < 32)"
    using acknowledged_packets_leave_window [OF be_lib_ok a(2) sy, of b "[]"] by blast
  moreover have "stored (ep_recv b) 0" using stored_inserted [OF wf(2)] by (simp add: b_def)
  moreover have "latest (ring_buf (ep_recv b)) = 1"
    using advanced_latest [of "ep_recv ?c"] default_channel_sizes(2) by (simp add: b_def latest_inserted)
  ultimately show ?thesis using a(1) st by auto
qed

end
