(* ===== verification/ChannelStall.thy ===== *)
theory ChannelStall
  imports ChannelSync
begin

text \<open>
  What happens to a channel whose only packet was acknowledged (\<open>channel.go\<close>, the end of \<open>ACK\<close>):
  the oldest unacknowledged number jumps a whole receive window ahead of the next number to be
  sent, and the packets with the numbers in between are outside the range that \<open>Update\<close> sends.
  The theory follows such a channel through every run in which it receives nothing.
\<close>

section \<open>Writing\<close>


section \<open>A channel that has stalled\<close>










section \<open>The claim\<close>



end
