(* ===== verification/WaitQueue.thy ===== *)
theory WaitQueue
  imports Prelude
begin

text \<open>
  The queue of callers that wait for a connection and the cell in which a caller gets its answer
  (\<open>sleepytcp/client_wait.go\<close>). The queue is two Go slices: a consumed prefix of \<open>head\<close> and a
  \<open>tail\<close>; the interface the host client relies on is the locale \<open>fifo\<close>, whose abstraction is
  the list of the elements in the order of \<open>pushBack\<close>.
\<close>

section \<open>The two-stage queue\<close>

text \<open>
  The elements of \<open>head\<close> are pointers, and the consumed ones are set to nil. Both slices are
  used by their lengths only, so sharing the old backing array as the new tail is not visible.
\<close>

record 'w wait_queue =
  q_head :: "'w option list"
  q_headPos :: nat
  q_tail :: "'w option list"

definition empty_queue :: "'w wait_queue" where
  "empty_queue = \<lparr>q_head = [], q_headPos = 0, q_tail = []\<rparr>"

definition queue_len :: "'w wait_queue \<Rightarrow> int" where
  "queue_len q = int (length (q_head q)) - int (q_headPos q) + int (length (q_tail q))"

definition pushBack :: "'w \<Rightarrow> 'w wait_queue \<Rightarrow> 'w wait_queue" where
  "pushBack w q = q\<lparr>q_tail := q_tail q @ [Some w]\<rparr>"

text \<open>The outer option is a panic, the inner one a nil pointer.\<close>

definition popFront :: "'w wait_queue \<Rightarrow> ('w option \<times> 'w wait_queue) option" where
  "popFront q =
     (if q_headPos q \<ge> length (q_head q) \<and> length (q_tail q) = 0 then Some (None, q)
      else do {
        let q = (if q_headPos q \<ge> length (q_head q)
                 then \<lparr>q_head = q_tail q, q_headPos = 0, q_tail = take 0 (q_head q)\<rparr> else q);
        w \<leftarrow> slice_get (q_head q) (q_headPos q);
        h \<leftarrow> slice_set (q_head q) (q_headPos q) None;
        Some (w, q\<lparr>q_head := h, q_headPos := q_headPos q + 1\<rparr>) })"

definition peekFront :: "'w wait_queue \<Rightarrow> 'w option" where
  "peekFront q =
     (if q_headPos q < length (q_head q) then q_head q ! q_headPos q
      else if length (q_tail q) > 0 then q_tail q ! 0 else None)"

text \<open>
  \<open>clearFront\<close> with the test \<open>waiting\<close> as an argument. The loop ends: every iteration removes
  an element.
\<close>

definition queue_size :: "'w wait_queue \<Rightarrow> nat" where
  "queue_size q = length (drop (q_headPos q) (q_head q)) + length (q_tail q)"

lemma popFront_size:
  assumes "popFront q = Some (w, q')" and "queue_size q \<noteq> 0"
  shows "queue_size q' < queue_size q"
  using assms
  by (auto simp: popFront_def queue_size_def Let_def slice_get_def slice_set_def split: if_splits)

lemma peekFront_size: "peekFront q = Some w \<Longrightarrow> queue_size q \<noteq> 0"
  by (auto simp: peekFront_def queue_size_def split: if_splits)

function clearFront_loop :: "('w \<Rightarrow> bool) \<Rightarrow> bool \<Rightarrow> 'w wait_queue \<Rightarrow> (bool \<times> 'w wait_queue) option" where
  "clearFront_loop waiting cleaned q =
     (case peekFront q of None \<Rightarrow> Some (cleaned, q)
      | Some w \<Rightarrow> if waiting w then Some (cleaned, q)
          else (case popFront q of None \<Rightarrow> None | Some (_, q') \<Rightarrow> clearFront_loop waiting True q'))"
  by pat_completeness auto
termination
  by (relation "measure (\<lambda>(_, _, q). queue_size q)")
    (auto dest: popFront_size peekFront_size)

declare clearFront_loop.simps [simp del]

definition clearFront :: "('w \<Rightarrow> bool) \<Rightarrow> 'w wait_queue \<Rightarrow> (bool \<times> 'w wait_queue) option" where
  "clearFront waiting q = clearFront_loop waiting False q"

text \<open>
  The loop of the host client that pops until it finds a caller it wants, over any queue
  operations: \<open>for queue.len() > 0 { if w := queue.popFront(); want(w) { ...; break } }\<close>.
  Testing a nil pointer panics. \<open>n\<close> bounds the iterations; the length of the queue is enough.
\<close>

fun pop_until ::
  "('q \<Rightarrow> ('w option \<times> 'q) option) \<Rightarrow> ('q \<Rightarrow> int) \<Rightarrow> ('w \<Rightarrow> bool) \<Rightarrow> nat \<Rightarrow> 'q \<Rightarrow>
   ('w option \<times> 'q) option" where
  "pop_until pop len want 0 q = Some (None, q)"
| "pop_until pop len want (Suc n) q =
     (if len q > 0 then do {
        (w, q) \<leftarrow> pop q;
        w \<leftarrow> w;
        if want w then Some (Some w, q) else pop_until pop len want n q }
      else Some (None, q))"

definition pop_waiting :: "('w \<Rightarrow> bool) \<Rightarrow> 'w wait_queue \<Rightarrow> ('w option \<times> 'w wait_queue) option" where
  "pop_waiting want q = pop_until popFront queue_len want (nat (queue_len q)) q"

section \<open>The interface\<close>

locale fifo =
  fixes empt :: 'q
    and push :: "'w \<Rightarrow> 'q \<Rightarrow> 'q"
    and pop :: "'q \<Rightarrow> ('w option \<times> 'q) option"
    and peek :: "'q \<Rightarrow> 'w option"
    and len :: "'q \<Rightarrow> int"
    and inv :: "'q \<Rightarrow> bool"
    and abs :: "'q \<Rightarrow> 'w list"
  assumes empt: "inv empt" "abs empt = []"
    and push: "inv q \<Longrightarrow> inv (push w q) \<and> abs (push w q) = abs q @ [w]"
    and pop: "inv q \<Longrightarrow> \<exists>q'. pop q = Some (case abs q of [] \<Rightarrow> None | w # _ \<Rightarrow> Some w, q') \<and>
      inv q' \<and> abs q' = tl (abs q)"
    and peek: "inv q \<Longrightarrow> peek q = (case abs q of [] \<Rightarrow> None | w # _ \<Rightarrow> Some w)"
    and len: "inv q \<Longrightarrow> len q = int (length (abs q))"
begin

lemma pop_cases:
  assumes "inv q"
  obtains (empty) q' where "abs q = []" "pop q = Some (None, q')" "inv q'" "abs q' = []"
  | (elem) w ws q' where "abs q = w # ws" "pop q = Some (Some w, q')" "inv q'" "abs q' = ws"
  using pop [OF assms] by (cases "abs q") auto

lemma len_pos: "inv q \<Longrightarrow> len q > 0 \<longleftrightarrow> abs q \<noteq> []"
  using len by simp

lemma pop_until_eq:
  "inv q \<Longrightarrow> length (abs q) \<le> n \<Longrightarrow>
   \<exists>q'. pop_until pop len want n q =
       Some (case dropWhile (Not \<circ> want) (abs q) of [] \<Rightarrow> None | w # _ \<Rightarrow> Some w, q') \<and>
     inv q' \<and> abs q' = tl (dropWhile (Not \<circ> want) (abs q))"
proof (induction n arbitrary: q)
  case 0
  then show ?case by simp
next
  case (Suc n)
  show ?case
  proof (cases rule: pop_cases [OF Suc.prems(1)])
    case (1 q')
    then show ?thesis using Suc.prems len_pos by auto
  next
    case (2 w ws q')
    then show ?thesis using Suc.prems Suc.IH [of q'] len_pos [of q] by (cases "want w") auto
  qed
qed

end

section \<open>The queue implements the interface\<close>

definition queue_ok :: "'w wait_queue \<Rightarrow> bool" where
  "queue_ok q \<longleftrightarrow> q_headPos q \<le> length (q_head q) \<and>
     None \<notin> set (drop (q_headPos q) (q_head q)) \<and> None \<notin> set (q_tail q)"

definition queue_list :: "'w wait_queue \<Rightarrow> 'w list" where
  "queue_list q = map the (drop (q_headPos q) (q_head q) @ q_tail q)"

lemma popFront_eq:
  assumes "queue_ok q"
  shows "\<exists>q'. popFront q = Some (case queue_list q of [] \<Rightarrow> None | w # _ \<Rightarrow> Some w, q') \<and>
    queue_ok q' \<and> queue_list q' = tl (queue_list q)"
proof (cases "q_headPos q < length (q_head q)")
  case True
  then have d: "drop (q_headPos q) (q_head q) = q_head q ! q_headPos q # drop (Suc (q_headPos q)) (q_head q)"
    by (simp add: Cons_nth_drop_Suc)
  then obtain w where w: "q_head q ! q_headPos q = Some w"
    using assms by (cases "q_head q ! q_headPos q") (auto simp: queue_ok_def)
  let ?q = "q\<lparr>q_head := (q_head q)[q_headPos q := None], q_headPos := q_headPos q + 1\<rparr>"
  have "popFront q = Some (Some w, ?q)" using True w by (simp add: popFront_def)
  moreover have "queue_ok ?q" using assms d True by (simp add: queue_ok_def)
  moreover have "queue_list ?q = tl (queue_list q)" "queue_list q = w # queue_list ?q"
    using d w by (simp_all add: queue_list_def)
  ultimately show ?thesis by simp
next
  case False
  then have pos: "q_headPos q = length (q_head q)" using assms by (simp add: queue_ok_def)
  show ?thesis
  proof (cases "q_tail q")
    case Nil
    then show ?thesis using pos assms by (simp add: popFront_def queue_list_def)
  next
    case (Cons x ws)
    then obtain w where w: "x = Some w" using assms by (cases x) (auto simp: queue_ok_def)
    let ?q = "\<lparr>q_head = None # ws, q_headPos = 1, q_tail = []\<rparr>"
    have "popFront q = Some (Some w, ?q)" using pos Cons w by (simp add: popFront_def)
    moreover have "queue_ok ?q" using assms Cons by (simp add: queue_ok_def)
    moreover have "queue_list ?q = tl (queue_list q)" "queue_list q = w # queue_list ?q"
      using pos Cons w by (simp_all add: queue_list_def)
    ultimately show ?thesis by simp
  qed
qed

lemma queue_len_eq: "queue_ok q \<Longrightarrow> queue_len q = int (length (queue_list q))"
  by (auto simp: queue_ok_def queue_len_def queue_list_def)

lemma peekFront_eq:
  assumes "queue_ok q"
  shows "peekFront q = (case queue_list q of [] \<Rightarrow> None | w # _ \<Rightarrow> Some w)"
proof (cases "q_headPos q < length (q_head q)")
  case True
  then have d: "drop (q_headPos q) (q_head q) = q_head q ! q_headPos q # drop (Suc (q_headPos q)) (q_head q)"
    by (simp add: Cons_nth_drop_Suc)
  then obtain w where "q_head q ! q_headPos q = Some w"
    using assms by (cases "q_head q ! q_headPos q") (auto simp: queue_ok_def)
  with True d show ?thesis by (simp add: peekFront_def queue_list_def)
next
  case False
  then show ?thesis using assms
    by (cases "q_tail q"; cases "hd (q_tail q)") (auto simp: peekFront_def queue_list_def queue_ok_def)
qed

interpretation wq: fifo empty_queue pushBack popFront peekFront queue_len queue_ok queue_list
proof
  fix q :: "'a wait_queue" and w
  show "queue_ok (empty_queue :: 'a wait_queue)" "queue_list (empty_queue :: 'a wait_queue) = []"
    by (simp_all add: empty_queue_def queue_ok_def queue_list_def)
  assume q: "queue_ok q"
  then show "queue_ok (pushBack w q) \<and> queue_list (pushBack w q) = queue_list q @ [w]"
    by (simp add: pushBack_def queue_ok_def queue_list_def)
  show "\<exists>q'. popFront q = Some (case queue_list q of [] \<Rightarrow> None | w # _ \<Rightarrow> Some w, q') \<and>
      queue_ok q' \<and> queue_list q' = tl (queue_list q)"
    using q by (rule popFront_eq)
  show "peekFront q = (case queue_list q of [] \<Rightarrow> None | w # _ \<Rightarrow> Some w)"
    using q by (rule peekFront_eq)
  show "queue_len q = int (length (queue_list q))"
    using q by (rule queue_len_eq)
qed

lemma pop_waiting_eq:
  "queue_ok q \<Longrightarrow> \<exists>q'. pop_waiting want q =
     Some (case dropWhile (Not \<circ> want) (queue_list q) of [] \<Rightarrow> None | w # _ \<Rightarrow> Some w, q') \<and>
   queue_ok q' \<and> queue_list q' = tl (dropWhile (Not \<circ> want) (queue_list q))"
  using wq.pop_until_eq [of q "nat (queue_len q)" want] by (simp add: pop_waiting_def queue_len_eq)

lemma clearFront_loop_eq:
  "queue_ok q \<Longrightarrow> \<exists>q'. clearFront_loop waiting cleaned q =
     Some (cleaned \<or> (\<exists>w ws. queue_list q = w # ws \<and> \<not> waiting w), q') \<and>
     queue_ok q' \<and> queue_list q' = dropWhile (Not \<circ> waiting) (queue_list q)"
proof (induction "length (queue_list q)" arbitrary: q cleaned)
  case 0
  then show ?case by (subst clearFront_loop.simps) (simp add: peekFront_eq)
next
  case (Suc n)
  then obtain w ws where l: "queue_list q = w # ws" by (cases "queue_list q") auto
  from wq.pop_cases [OF Suc.prems] l obtain q' where
    q': "popFront q = Some (Some w, q')" "queue_ok q'" "queue_list q' = ws" by (metis list.distinct(1) list.inject)
  show ?case
  proof (cases "waiting w")
    case True
    then show ?thesis using l Suc.prems by (subst clearFront_loop.simps) (simp add: peekFront_eq)
  next
    case False
    have "n = length (queue_list q')" using Suc.hyps(2) l q'(3) by simp
    from Suc.hyps(1) [OF this q'(2), of True] show ?thesis
      using False l q' Suc.prems by (subst clearFront_loop.simps) (simp add: peekFront_eq)
  qed
qed

section \<open>The answer cell of a caller\<close>

text \<open>
  \<open>w_ready\<close> says whether the channel \<open>ready\<close> was closed; closing a closed channel panics.
  Each operation is one critical section of the caller's mutex.
\<close>

record ('c, 'e) waiting_caller =
  w_ready :: bool
  w_conn :: "'c option"
  w_err :: "'e option"

definition new_caller :: "('c, 'e) waiting_caller" where
  "new_caller = \<lparr>w_ready = False, w_conn = None, w_err = None\<rparr>"

definition caller_waiting :: "('c, 'e) waiting_caller \<Rightarrow> bool" where
  "caller_waiting w \<longleftrightarrow> \<not> w_ready w"

definition close_ready :: "('c, 'e) waiting_caller \<Rightarrow> ('c, 'e) waiting_caller option" where
  "close_ready w = (if w_ready w then None else Some (w\<lparr>w_ready := True\<rparr>))"

definition tryDeliver ::
  "'c option \<Rightarrow> 'e option \<Rightarrow> ('c, 'e) waiting_caller \<Rightarrow> (bool \<times> ('c, 'e) waiting_caller) option" where
  "tryDeliver conn err w =
     (if w_conn w \<noteq> None \<or> w_err w \<noteq> None then Some (False, w)
      else do {
        let w = w\<lparr>w_conn := conn, w_err := err\<rparr>;
        w \<leftarrow> close_ready w;
        Some (True, w) })"

text \<open>The connection in the result is the one \<open>cancel\<close> hands to \<open>tryRecycleClientConn\<close>.\<close>

definition cancel_caller ::
  "'e option \<Rightarrow> ('c, 'e) waiting_caller \<Rightarrow> ('c option \<times> ('c, 'e) waiting_caller) option" where
  "cancel_caller err w = do {
     w \<leftarrow> (if w_conn w = None \<and> w_err w = None then close_ready w else Some w);
     let conn = w_conn w;
     Some (conn, w\<lparr>w_conn := None, w_err := err\<rparr>) }"

text \<open>The channel is closed exactly when there is an answer.\<close>

definition caller_ok :: "('c, 'e) waiting_caller \<Rightarrow> bool" where
  "caller_ok w \<longleftrightarrow> (w_ready w \<longleftrightarrow> w_conn w \<noteq> None \<or> w_err w \<noteq> None)"

lemma new_caller_ok: "caller_ok new_caller" "caller_waiting new_caller"
  by (simp_all add: caller_ok_def caller_waiting_def new_caller_def)

lemma tryDeliver_ok:
  assumes "caller_ok w" and "c \<noteq> None \<or> err \<noteq> None"
  shows "\<exists>w'. tryDeliver c err w = Some (caller_waiting w, w') \<and> caller_ok w' \<and> \<not> caller_waiting w' \<and>
    (if caller_waiting w then w_conn w' = c \<and> w_err w' = err else w' = w)"
  using assms by (auto simp: tryDeliver_def caller_ok_def caller_waiting_def close_ready_def)

lemma cancel_caller_ok:
  assumes "caller_ok w" and "err \<noteq> None"
  shows "\<exists>w'. cancel_caller err w = Some (w_conn w, w') \<and> caller_ok w' \<and> \<not> caller_waiting w' \<and>
    w_conn w' = None \<and> w_err w' = err"
  using assms by (auto simp: cancel_caller_def caller_ok_def caller_waiting_def close_ready_def)

end
