(* ===== verification/NetErrors.thy ===== *)
theory NetErrors
  imports Prelude
begin

text \<open>
  Go errors as trees: the sentinel values of the code and of \<open>io\<close>, \<open>*net.OpError\<close>, errors that
  wrap another one, and errors that are only a text. \<open>errors.Is\<close> and \<open>errors.As\<close> walk the chain
  of wrapped errors; \<open>isEOF\<close> is the helper of \<open>error.go\<close>.
\<close>

datatype net_error =
    EOF
  | ErrConnectionClosed
  | ErrNoFreeConns
  | ErrTimeout
  | ErrDialTimeout
  | ErrNoDNSEntries
  | TextError string
  | OpError string net_error
  | WrapError string net_error

text \<open>
  \<open>Error()\<close>: \<open>OpError\<close> carries the text before the wrapped error, \<open>WrapError\<close> its whole text.
\<close>

fun error_text :: "net_error \<Rightarrow> string" where
  "error_text EOF = ''EOF''"
| "error_text ErrConnectionClosed = ''connection closed''"
| "error_text ErrNoFreeConns = ''no free connections are available''"
| "error_text ErrTimeout = ''timed out''"
| "error_text ErrDialTimeout = ''dialing to the given TCP address timed out''"
| "error_text ErrNoDNSEntries =
     ''couldn't find DNS entries for the given domain. Try using DialDualStack''"
| "error_text (TextError s) = s"
| "error_text (OpError s e) = s @ '': '' @ error_text e"
| "error_text (WrapError s e) = s"

fun errors_Is :: "net_error \<Rightarrow> net_error \<Rightarrow> bool" where
  "errors_Is (OpError s e) target \<longleftrightarrow> OpError s e = target \<or> errors_Is e target"
| "errors_Is (WrapError s e) target \<longleftrightarrow> WrapError s e = target \<or> errors_Is e target"
| "errors_Is e target \<longleftrightarrow> e = target"

text \<open>\<open>errors.As\<close> with a \<open>*net.OpError\<close> target: the wrapped error of the first one.\<close>

fun as_OpError :: "net_error \<Rightarrow> net_error option" where
  "as_OpError (OpError s e) = Some e"
| "as_OpError (WrapError s e) = as_OpError e"
| "as_OpError _ = None"

definition isEOF :: "net_error \<Rightarrow> bool" where
  "isEOF err \<longleftrightarrow>
     (if errors_Is err EOF then True
      else case as_OpError err of
        Some e \<Rightarrow> error_text e = ''use of closed network connection''
      | None \<Rightarrow> False)"

text \<open>The errors under an error, outermost first.\<close>

fun chain :: "net_error \<Rightarrow> net_error list" where
  "chain (OpError s e) = OpError s e # chain e"
| "chain (WrapError s e) = WrapError s e # chain e"
| "chain e = [e]"

lemma errors_Is_chain: "errors_Is e t \<longleftrightarrow> t \<in> set (chain e)"
  by (induction e) auto

end
