(* ===== verification/ObjectPool.thy ===== *)
theory ObjectPool
  imports Prelude "HOL-Library.Multiset"
begin

text \<open>
  \<open>sync.Pool\<close>, as the code uses it: objects are put into it when they are no longer needed, and
  \<open>Get\<close> returns one of them or nil, whichever it likes (the runtime may drop pooled objects at any
  time). Every pool of the code has the same shape: an object is reset before it is put, and a
  new one is made when \<open>Get\<close> returns nil. The locale \<open>recycling\<close> states what such a pair has to
  promise and proves that then every object handed out is as good as a new one.
\<close>

datatype 'a pool_op = Get "'a option" | Put 'a | Forget 'a

text \<open>
  One operation: the pool after it and the object it hands out. \<^const>\<open>None\<close>: \<open>Get\<close> cannot return
  that object.
\<close>

fun pool_do :: "'a \<Rightarrow> ('a \<Rightarrow> 'a) \<Rightarrow> 'a multiset \<Rightarrow> 'a pool_op \<Rightarrow> ('a multiset \<times> 'a list) option" where
  "pool_do fresh reset pool (Get None) = Some (pool, [fresh])"
| "pool_do fresh reset pool (Get (Some x)) =
     (if x \<in># pool then Some (pool - {#x#}, [x]) else None)"
| "pool_do fresh reset pool (Put x) = Some (add_mset (reset x) pool, [])"
| "pool_do fresh reset pool (Forget x) = Some (pool - {#x#}, [])"

fun pool_run ::
  "'a \<Rightarrow> ('a \<Rightarrow> 'a) \<Rightarrow> 'a multiset \<Rightarrow> 'a pool_op list \<Rightarrow> ('a multiset \<times> 'a list) option" where
  "pool_run fresh reset pool [] = Some (pool, [])"
| "pool_run fresh reset pool (c # cs) = do {
     (pool, out) \<leftarrow> pool_do fresh reset pool c;
     (pool, outs) \<leftarrow> pool_run fresh reset pool cs;
     Some (pool, out @ outs) }"

locale recycling =
  fixes fresh :: 'a
    and reset :: "'a \<Rightarrow> 'a"
    and clean :: "'a \<Rightarrow> bool"
  assumes fresh: "clean fresh"
    and reset: "clean (reset x)"
begin

lemma pool_do_clean:
  assumes "pool_do fresh reset pool c = Some (pool', out)" and "\<forall>x\<in>#pool. clean x"
  shows "(\<forall>x\<in>#pool'. clean x) \<and> (\<forall>x\<in>set out. clean x)"
proof (cases c)
  case (Get v)
  then show ?thesis using assms fresh by (cases v) (auto split: if_splits dest: in_diffD)
qed (use assms reset in \<open>auto dest: in_diffD\<close>)

lemma pool_run_clean:
  "pool_run fresh reset pool cs = Some (pool', out) \<Longrightarrow> (\<forall>x\<in>#pool. clean x) \<Longrightarrow>
   (\<forall>x\<in>#pool'. clean x) \<and> (\<forall>x\<in>set out. clean x)"
proof (induction cs arbitrary: pool out)
  case (Cons c cs)
  from Cons.prems(1) obtain pool1 out1 where c: "pool_do fresh reset pool c = Some (pool1, out1)"
    by (cases "pool_do fresh reset pool c") auto
  with Cons.prems(1) obtain out2 where
    cs: "pool_run fresh reset pool1 cs = Some (pool', out2)" and out: "out = out1 @ out2"
    by (cases "pool_run fresh reset pool1 cs") (simp_all split: prod.splits)
  note c' = pool_do_clean [OF c Cons.prems(2)]
  from Cons.IH [OF cs conjunct1 [OF c']] c' show ?case unfolding out set_append by blast
next
  case Nil
  then show ?case by simp
qed

end

end
