(* ===== verification/HostClient.thy ===== *)
theory HostClient
  imports WaitQueue NetErrors ObjectPool
begin

text \<open>
  The client of one host (\<open>sleepytcp/client_host.go\<close>, \<open>client_conn.go\<close>, \<open>dial.go\<close>): a pool of
  connections with a bound, a queue of callers that wait for one, a cleaner of idle connections,
  and the request loop. Every critical section of the client's mutex is one function; theory
  \<open>ConnPool\<close> interleaves them.

  A \<open>*waitingCaller\<close> is a number, and the record of the host client holds the cell of each; a
  \<open>net.Conn\<close> is a number too. Times and durations are integers (nanoseconds).
\<close>

section \<open>Connections and dialing\<close>

record client_conn =
  cc_conn :: nat
  cc_lastUseTime :: int

definition zero_clientConn :: client_conn where
  "zero_clientConn = \<lparr>cc_conn = 0, cc_lastUseTime = 0\<rparr>"

definition releaseClientConn :: "client_conn \<Rightarrow> client_conn" where
  "releaseClientConn cc = zero_clientConn"

definition acquireClientConn :: "nat \<Rightarrow> client_conn" where
  "acquireClientConn conn = zero_clientConn\<lparr>cc_conn := conn\<rparr>"

text \<open>
  A pooled \<open>clientConn\<close> was zeroed when it was released, so \<^const>\<open>acquireClientConn\<close> is what
  \<open>acquireClientConn\<close> returns whether or not the pool had one.
\<close>

interpretation conns: recycling zero_clientConn releaseClientConn "\<lambda>cc. cc = zero_clientConn"
  by unfold_locales (simp_all add: releaseClientConn_def)

lemma acquire_pooled_clientConn:
  "pool_run zero_clientConn releaseClientConn {#} cs = Some (pool, out) \<Longrightarrow> cc \<in> set out \<Longrightarrow>
   cc\<lparr>cc_conn := conn\<rparr> = acquireClientConn conn"
  using conns.pool_run_clean [of "{#}" cs pool out] by (auto simp: acquireClientConn_def)

text \<open>
  \<open>dialAddr\<close> chooses the function to dial with; what it returns is the environment's. A function
  that returns neither a connection nor an error makes it panic.
\<close>

datatype dial_func = CustomDial nat | DefaultDial | DefaultDialDualStack

definition dialAddr ::
  "(dial_func \<Rightarrow> string \<Rightarrow> nat option \<times> net_error option) \<Rightarrow> string \<Rightarrow> dial_func option \<Rightarrow> bool \<Rightarrow>
   (net_error + nat) option" where
  "dialAddr env addr dial dialDualStack = (let
     f = (case dial of Some f \<Rightarrow> f
          | None \<Rightarrow> if dialDualStack then DefaultDialDualStack else DefaultDial);
     (conn, err) = env f addr
   in case err of Some e \<Rightarrow> Some (Inl e)
      | None \<Rightarrow> (case conn of None \<Rightarrow> None | Some c \<Rightarrow> Some (Inr c)))"

section \<open>State\<close>

definition DefaultMaxConnsPerHost :: int where "DefaultMaxConnsPerHost = 512"
definition DefaultMaxIdleConnDuration :: int where "DefaultMaxIdleConnDuration = 10 * 1000000000"
definition DefaultMaxIdempotentCallAttempts :: int where "DefaultMaxIdempotentCallAttempts = 5"
definition DefaultReadBufferSize :: int where "DefaultReadBufferSize = 4096"
definition DefaultWriteBufferSize :: int where "DefaultWriteBufferSize = 4096"

record host_config =
  hc_Addr :: string
  hc_Dial :: "dial_func option"
  hc_DialDualStack :: bool
  hc_MaxConns :: int
  hc_MaxConnWaitTimeout :: int
  hc_MaxIdleConnDuration :: int
  hc_MaxIdempotentCallAttempts :: int
  hc_ReadBufferSize :: int
  hc_WriteBufferSize :: int
  hc_ReadTimeout :: int
  hc_WriteTimeout :: int
  hc_MaxResponseBodySize :: int

type_synonym caller = "(client_conn, net_error) waiting_caller"

record host_client =
  h_config :: host_config
  h_conns :: "client_conn list"
  h_count :: int
  h_queue :: "nat wait_queue option"
  h_cleanerRunning :: bool
  h_callers :: "nat \<Rightarrow> caller"

definition new_host_client :: "host_config \<Rightarrow> host_client" where
  "new_host_client c = \<lparr>h_config = c, h_conns = [], h_count = 0, h_queue = None,
     h_cleanerRunning = False, h_callers = (\<lambda>_. new_caller)\<rparr>"

definition max_conns :: "host_config \<Rightarrow> int" where
  "max_conns c = (if hc_MaxConns c \<le> 0 then DefaultMaxConnsPerHost else hc_MaxConns c)"

definition waiting_in :: "host_client \<Rightarrow> nat \<Rightarrow> bool" where
  "waiting_in h k \<longleftrightarrow> caller_waiting (h_callers h k)"

section \<open>Acquiring\<close>

text \<open>
  The first critical section of \<open>tryAcquireClientConn\<close>: an idle connection, or else whether to
  create one and whether to start the cleaner.
\<close>

definition acquire_section ::
  "host_client \<Rightarrow> (client_conn option \<times> bool \<times> bool) \<times> host_client" where
  "acquire_section h = (let n = length (h_conns h) in
     if n = 0 then
       if h_count h < max_conns (h_config h) then let
         h = h\<lparr>h_count := h_count h + 1\<rparr>;
         startCleaner = (\<not> h_cleanerRunning h);
         h = (if startCleaner then h\<lparr>h_cleanerRunning := True\<rparr> else h)
       in ((None, True, startCleaner), h)
       else ((None, False, False), h)
     else ((Some (h_conns h ! (n - 1)), False, False), h\<lparr>h_conns := take (n - 1) (h_conns h)\<rparr>))"

text \<open>
  How long to wait when there is neither, and whether the request's own timeout ends the wait.
  \<^const>\<open>None\<close>: do not wait, return \<open>ErrNoFreeConns\<close>.
\<close>

definition wait_duration :: "host_config \<Rightarrow> int \<Rightarrow> (int \<times> bool) option" where
  "wait_duration c timeout = (let waitDuration = hc_MaxConnWaitTimeout c in
     if waitDuration \<le> 0 then None
     else let overridden = (timeout > 0 \<and> timeout < waitDuration) in
       Some (if overridden then timeout else waitDuration, overridden))"

definition wait_error :: "bool \<Rightarrow> net_error" where
  "wait_error overridden = (if overridden then ErrTimeout else ErrNoFreeConns)"

text \<open>\<open>queueWaitingCaller\<close> for the new caller \<open>k\<close>.\<close>

definition queueWaitingCaller :: "nat \<Rightarrow> host_client \<Rightarrow> host_client option" where
  "queueWaitingCaller k h = do {
     let h = h\<lparr>h_callers := (h_callers h)(k := new_caller)\<rparr>;
     let q = (case h_queue h of None \<Rightarrow> empty_queue | Some q \<Rightarrow> q);
     (_, q) \<leftarrow> clearFront (waiting_in h) q;
     Some (h\<lparr>h_queue := Some (pushBack k q)\<rparr>) }"

section \<open>Returning\<close>

text \<open>The next caller that still waits, if there is a queue and it is not empty.\<close>

definition next_waiting :: "host_client \<Rightarrow> (nat option \<times> host_client) option" where
  "next_waiting h = (case h_queue h of
     None \<Rightarrow> Some (None, h)
   | Some q \<Rightarrow>
       if queue_len q > 0 then do {
         (w, q) \<leftarrow> pop_waiting (waiting_in h) q;
         Some (w, h\<lparr>h_queue := Some q\<rparr>) }
       else Some (None, h))"

text \<open>
  The end of \<open>tryRecycleClientConn\<close>: the delivery to the caller that was found, and the list of
  idle connections if there is none or it has an answer by now.
\<close>

definition recycle_deliver :: "client_conn \<Rightarrow> nat option \<Rightarrow> host_client \<Rightarrow> host_client option" where
  "recycle_deliver cc w h = do {
     (delivered, h) \<leftarrow> (case w of
         None \<Rightarrow> Some (False, h)
       | Some k \<Rightarrow> do {
           (b, w) \<leftarrow> tryDeliver (Some cc) None (h_callers h k);
           Some (b, h\<lparr>h_callers := (h_callers h)(k := w)\<rparr>) });
     Some (if \<not> delivered then h\<lparr>h_conns := h_conns h @ [cc]\<rparr> else h) }"

definition tryRecycleClientConn :: "int \<Rightarrow> client_conn \<Rightarrow> host_client \<Rightarrow> host_client option" where
  "tryRecycleClientConn now cc h = (let cc = cc\<lparr>cc_lastUseTime := now\<rparr> in
     if hc_MaxConnWaitTimeout (h_config h) \<le> 0 then Some (h\<lparr>h_conns := h_conns h @ [cc]\<rparr>)
     else do {
       (w, h) \<leftarrow> next_waiting h;
       recycle_deliver cc w h })"

text \<open>The result names the caller for whom a goroutine starts to dial, if one does.\<close>

definition decrementCountOrTryDialForWaitingCaller ::
  "host_client \<Rightarrow> (nat option \<times> host_client) option" where
  "decrementCountOrTryDialForWaitingCaller h =
     (if hc_MaxConnWaitTimeout (h_config h) \<le> 0 then Some (None, h\<lparr>h_count := h_count h - 1\<rparr>)
      else do {
        (w, h) \<leftarrow> next_waiting h;
        case w of Some k \<Rightarrow> Some (Some k, h)
        | None \<Rightarrow> Some (None, h\<lparr>h_count := h_count h - 1\<rparr>) })"

text \<open>What \<open>tryDialForWaitingCaller\<close> does with the outcome of \<open>dialAddr\<close>.\<close>

definition tryDialForWaitingCaller ::
  "int \<Rightarrow> nat \<Rightarrow> net_error + nat \<Rightarrow> host_client \<Rightarrow> (nat option \<times> host_client) option" where
  "tryDialForWaitingCaller now k dialed h = (case dialed of
     Inl err \<Rightarrow> do {
       (_, w) \<leftarrow> tryDeliver None (Some err) (h_callers h k);
       decrementCountOrTryDialForWaitingCaller (h\<lparr>h_callers := (h_callers h)(k := w)\<rparr>) }
   | Inr conn \<Rightarrow> do {
       let cc = acquireClientConn conn;
       (delivered, w) \<leftarrow> tryDeliver (Some cc) None (h_callers h k);
       let h = h\<lparr>h_callers := (h_callers h)(k := w)\<rparr>;
       h \<leftarrow> (if \<not> delivered then tryRecycleClientConn now cc h else Some h);
       Some (None, h) })"

text \<open>\<open>destroyClientConn\<close>; the connection is then closed and its record released.\<close>

definition destroyClientConn :: "client_conn \<Rightarrow> host_client \<Rightarrow> (nat option \<times> host_client) option" where
  "destroyClientConn cc h = decrementCountOrTryDialForWaitingCaller h"

text \<open>\<open>caller.cancel(c, err)\<close>.\<close>

definition cancel :: "int \<Rightarrow> nat \<Rightarrow> net_error option \<Rightarrow> host_client \<Rightarrow> host_client option" where
  "cancel now k err h = do {
     (conn, w) \<leftarrow> cancel_caller err (h_callers h k);
     let h = h\<lparr>h_callers := (h_callers h)(k := w)\<rparr>;
     case conn of Some cc \<Rightarrow> tryRecycleClientConn now cc h | None \<Rightarrow> Some h }"

section \<open>The cleaner of idle connections\<close>

definition max_idle :: "host_config \<Rightarrow> int" where
  "max_idle c = (if hc_MaxIdleConnDuration c \<le> 0 then DefaultMaxIdleConnDuration
     else hc_MaxIdleConnDuration c)"

text \<open>The loop that counts the connections at the front that have been idle for too long.\<close>

fun idle_prefix :: "int \<Rightarrow> int \<Rightarrow> client_conn list \<Rightarrow> nat" where
  "idle_prefix now limit [] = 0"
| "idle_prefix now limit (cc # ccs) =
     (if now - cc_lastUseTime cc > limit then Suc (idle_prefix now limit ccs) else 0)"

text \<open>
  One iteration of \<open>cleanupIdleConnections\<close> up to the unlock: the connections to destroy, the
  time to sleep and the client without them.
\<close>

definition cleanup_section :: "int \<Rightarrow> host_client \<Rightarrow> client_conn list \<times> int \<times> host_client" where
  "cleanup_section now h = (let
     limit = max_idle (h_config h);
     conns = h_conns h;
     n = length conns;
     i = idle_prefix now limit conns;
     duration = (if i < n then limit - (now - cc_lastUseTime (conns ! i)) + 1 else limit);
     scratch = take i conns;
     h = (if i > 0 then h\<lparr>h_conns := drop i conns\<rparr> else h)
   in (scratch, duration, h))"

text \<open>
  The end of an iteration: the count is read in a critical section, but the flag is reset after
  it, so other goroutines may run in between.
\<close>

definition cleanup_mustStop :: "host_client \<Rightarrow> bool" where
  "cleanup_mustStop h \<longleftrightarrow> h_count h = 0"

definition cleanup_exit :: "host_client \<Rightarrow> host_client" where
  "cleanup_exit h = h\<lparr>h_cleanerRunning := False\<rparr>"

section \<open>Requests\<close>

text \<open>
  What the environment answers to one call of \<open>do\<close>: the acquired connection or an error, and the
  errors of the calls on it, in order.
\<close>

record do_env =
  e_acquired :: "net_error + client_conn"
  e_setWriteDeadline :: "net_error option"
  e_write :: "net_error option"
  e_flush :: "net_error option"
  e_setReadDeadline :: "net_error option"

datatype release = NoConn | Destroyed client_conn | Recycled client_conn

text \<open>
  \<open>do\<close>: whether the request may be retried, its error and what happens to the connection. No
  response is read: the source leaves that open.
\<close>

definition do_request :: "host_config \<Rightarrow> do_env \<Rightarrow> bool \<times> net_error option \<times> release" where
  "do_request c env = (case e_acquired env of
     Inl err \<Rightarrow> (False, Some err, NoConn)
   | Inr cc \<Rightarrow>
       if hc_WriteTimeout c > 0 \<and> e_setWriteDeadline env \<noteq> None
       then (True, e_setWriteDeadline env, Destroyed cc)
       else let err = (case e_write env of None \<Rightarrow> e_flush env | Some e \<Rightarrow> Some e) in
         if err \<noteq> None then (True, err, Destroyed cc)
         else if hc_ReadTimeout c > 0 \<and> e_setReadDeadline env \<noteq> None
         then (True, e_setReadDeadline env, Destroyed cc)
         else (False, None, Recycled cc))"

text \<open>
  The loop of \<open>Do\<close>. \<open>attempts\<close> stays 0 and \<open>maxAttempts\<close>, a 64-bit integer, is incremented; the
  loop ends when a call succeeds, when the error must not be retried, or when \<open>maxAttempts\<close>
  overflows. \<open>outcome i\<close> is the result of the \<open>i\<close>-th call of \<open>do\<close>; the value is the number of
  calls made and the last error.
\<close>

function do_loop ::
  "bool \<Rightarrow> (nat \<Rightarrow> bool \<times> net_error option) \<Rightarrow> 64 word \<Rightarrow> nat \<Rightarrow> net_error option \<Rightarrow>
   nat \<times> net_error option" where
  "do_loop idempotent outcome maxAttempts i err =
     (if 0 <s maxAttempts then
        (let (retry, err) = outcome i in
         case err of None \<Rightarrow> (Suc i, err)
         | Some e \<Rightarrow>
             if \<not> retry then (Suc i, err)
             else if \<not> idempotent \<and> errors_Is e EOF then (Suc i, err)
             else do_loop idempotent outcome (maxAttempts + 1) (Suc i) err)
      else (i, err))"
  by pat_completeness auto

lemma sint_Suc_64:
  assumes "0 <s (a :: 64 word)"
  shows "sint (a + 1) = (if sint a = 2 ^ 63 - 1 then - (2 ^ 63) else sint a + 1)"
proof (cases "sint a = 2 ^ 63 - 1")
  case True
  have "a = word_of_int (2 ^ 63 - 1)" unfolding True [symmetric] by simp
  then show ?thesis using True by simp
next
  case False
  have "0 < sint a" using assms by (simp add: word_sless_alt)
  moreover have "sint a < 2 ^ 63 - 1" using False sint_lt [of a] by simp
  ultimately show ?thesis using False
    by (simp add: sint_word_ariths signed_take_bit_int_eq_self)
qed

termination do_loop
proof (relation "measure (\<lambda>(_, _, a, _, _). if 0 <s a then nat (2 ^ 63 - sint a) else 0)")
qed (use sint_lt [where 'a = 64] in \<open>auto simp: sint_Suc_64 word_sless_alt\<close>)

declare do_loop.simps [simp del]

text \<open>
  \<open>Do\<close>. \<open>env i\<close> answers the \<open>i\<close>-th call of \<open>do\<close>. The result: the number of calls, the error and
  the number of pending requests, \<open>pending\<close> being that number before.
\<close>

definition HostClient_Do ::
  "host_config \<Rightarrow> bool \<Rightarrow> (nat \<Rightarrow> do_env) \<Rightarrow> 32 word \<Rightarrow> nat \<times> net_error option \<times> 32 word" where
  "HostClient_Do c idempotent env pending = (let
     maxAttempts = (if hc_MaxIdempotentCallAttempts c \<le> 0 then DefaultMaxIdempotentCallAttempts
                    else hc_MaxIdempotentCallAttempts c);
     pending = pending + 1;
     (calls, err) = do_loop idempotent
       (\<lambda>i. let (retry, err, _) = do_request c (env i) in (retry, err)) (word_of_int maxAttempts) 0 None;
     pending = pending - 1;
     err = (case err of Some e \<Rightarrow> if errors_Is e EOF then Some ErrConnectionClosed else err
            | None \<Rightarrow> None)
   in (calls, err, pending))"

text \<open>A buffered writer or reader for a connection: its size when the pool has none to reuse.\<close>

definition acquireWriter_size :: "host_config \<Rightarrow> int option \<Rightarrow> int" where
  "acquireWriter_size c pooled = (case pooled of Some n \<Rightarrow> n
     | None \<Rightarrow> if hc_WriteBufferSize c \<le> 0 then DefaultWriteBufferSize else hc_WriteBufferSize c)"

definition acquireReader_size :: "host_config \<Rightarrow> int option \<Rightarrow> int" where
  "acquireReader_size c pooled = (case pooled of Some n \<Rightarrow> n
     | None \<Rightarrow> if hc_ReadBufferSize c \<le> 0 then DefaultReadBufferSize else hc_ReadBufferSize c)"

end
