(* ===== verification/HostQueue.thy ===== *)
theory HostQueue
  imports HostClient
begin

text \<open>
  What the critical sections of the host client do to its queue: seen from outside, the queue is
  the list of the callers that still wait, in the order in which they were queued. Every section
  that looks for a caller takes the first of that list.
\<close>

section \<open>The abstract queue\<close>

definition queue_of :: "host_client \<Rightarrow> nat list" where
  "queue_of h = (case h_queue h of None \<Rightarrow> [] | Some q \<Rightarrow> queue_list q)"

definition waiters :: "host_client \<Rightarrow> nat list" where
  "waiters h = filter (waiting_in h) (queue_of h)"

definition first_waiter :: "host_client \<Rightarrow> nat option" where
  "first_waiter h = (case waiters h of [] \<Rightarrow> None | k # _ \<Rightarrow> Some k)"

text \<open>Callers have the numbers below \<open>n\<close>.\<close>

definition host_ok :: "nat \<Rightarrow> host_client \<Rightarrow> bool" where
  "host_ok n h \<longleftrightarrow> (\<forall>k<n. caller_ok (h_callers h k)) \<and> (\<forall>q. h_queue h = Some q \<longrightarrow> queue_ok q) \<and>
     (\<forall>k\<in>set (queue_of h). k < n) \<and> distinct (queue_of h)"

lemma host_okD:
  assumes "host_ok n h"
  shows "k < n \<Longrightarrow> caller_ok (h_callers h k)" and "h_queue h = Some q \<Longrightarrow> queue_ok q"
    and "k \<in> set (queue_of h) \<Longrightarrow> k < n" and "distinct (queue_of h)"
  using assms by (auto simp: host_ok_def)

lemma waiting_in_simps [simp]:
  "waiting_in (h\<lparr>h_conns := c\<rparr>) = waiting_in h" "waiting_in (h\<lparr>h_count := n\<rparr>) = waiting_in h"
  "waiting_in (h\<lparr>h_queue := q\<rparr>) = waiting_in h" "waiting_in (h\<lparr>h_cleanerRunning := b\<rparr>) = waiting_in h"
  by (simp_all add: fun_eq_iff waiting_in_def)

lemma waiters_simps [simp]:
  "waiters (h\<lparr>h_conns := c\<rparr>) = waiters h" "waiters (h\<lparr>h_count := n\<rparr>) = waiters h"
  "waiters (h\<lparr>h_cleanerRunning := b\<rparr>) = waiters h"
  by (simp_all add: waiters_def queue_of_def)

lemma queue_of_simps [simp]:
  "queue_of (h\<lparr>h_conns := c\<rparr>) = queue_of h" "queue_of (h\<lparr>h_count := n\<rparr>) = queue_of h"
  "queue_of (h\<lparr>h_cleanerRunning := b\<rparr>) = queue_of h" "queue_of (h\<lparr>h_callers := f\<rparr>) = queue_of h"
  by (simp_all add: queue_of_def)

lemma host_ok_simps [simp]:
  "host_ok n (h\<lparr>h_conns := c\<rparr>) = host_ok n h" "host_ok n (h\<lparr>h_count := i\<rparr>) = host_ok n h"
  "host_ok n (h\<lparr>h_cleanerRunning := b\<rparr>) = host_ok n h"
  by (simp_all add: host_ok_def)

lemma host_ok_caller:
  "host_ok n h \<Longrightarrow> caller_ok w \<Longrightarrow> host_ok n (h\<lparr>h_callers := (h_callers h)(k := w)\<rparr>)"
  by (simp add: host_ok_def)

text \<open>An answered caller is no waiter any more.\<close>

lemma waiters_answered:
  "\<not> caller_waiting w \<Longrightarrow>
   waiters (h\<lparr>h_callers := (h_callers h)(k := w)\<rparr>) = filter (\<lambda>i. i \<noteq> k) (waiters h)"
  by (simp add: waiters_def) (rule filter_cong, auto simp: waiting_in_def)

lemma filter_dropWhile_Not: "filter P (dropWhile (Not \<circ> P) xs) = filter P xs"
  by (induction xs) auto

lemma dropWhile_filter_cases:
  "(case dropWhile (Not \<circ> P) xs of [] \<Rightarrow> None | x # _ \<Rightarrow> Some x) =
     (case filter P xs of [] \<Rightarrow> None | x # _ \<Rightarrow> Some x)"
  "filter P (tl (dropWhile (Not \<circ> P) xs)) = tl (filter P xs)"
  by (induction xs) auto

lemma set_tl_dropWhile: "x \<in> set (tl (dropWhile P xs)) \<Longrightarrow> x \<in> set xs"
  by (metis list.sel(2) list.set_sel(2) set_dropWhileD)

section \<open>The sections\<close>

lemma next_waiting_eq:
  assumes "host_ok n h"
  shows "\<exists>q. next_waiting h = Some (first_waiter h, h\<lparr>h_queue := q\<rparr>) \<and>
    host_ok n (h\<lparr>h_queue := q\<rparr>) \<and> waiters (h\<lparr>h_queue := q\<rparr>) = tl (waiters h)"
proof (cases "h_queue h")
  case None
  then have "next_waiting h = Some (first_waiter h, h\<lparr>h_queue := None\<rparr>)"
    by (simp add: next_waiting_def first_waiter_def waiters_def queue_of_def)
  with None assms show ?thesis
    by (intro exI [of _ None]) (simp add: host_ok_def waiters_def queue_of_def)
next
  case (Some q)
  then have q: "queue_ok q" using assms by (simp add: host_ok_def)
  show ?thesis
  proof (cases "queue_len q > 0")
    case True
    from pop_waiting_eq [OF q, of "waiting_in h"] obtain q' where
      q': "pop_waiting (waiting_in h) q =
        Some (case dropWhile (Not \<circ> waiting_in h) (queue_list q) of [] \<Rightarrow> None | w # _ \<Rightarrow> Some w, q')"
      "queue_ok q'" "queue_list q' = tl (dropWhile (Not \<circ> waiting_in h) (queue_list q))" by blast
    have "next_waiting h = Some (first_waiter h, h\<lparr>h_queue := Some q'\<rparr>)"
      using True Some q'(1)
      by (simp add: next_waiting_def first_waiter_def waiters_def queue_of_def dropWhile_filter_cases)
    moreover have "host_ok n (h\<lparr>h_queue := Some q'\<rparr>)"
      using assms Some q' set_tl_dropWhile
      by (fastforce simp: host_ok_def queue_of_def intro: distinct_tl distinct_dropWhile)
    moreover have "waiters (h\<lparr>h_queue := Some q'\<rparr>) = tl (waiters h)"
      using Some q'(3) by (simp add: waiters_def queue_of_def dropWhile_filter_cases)
    ultimately show ?thesis by blast
  next
    case False
    then have "queue_list q = []" using queue_len_eq [OF q] by simp
    then have "next_waiting h = Some (first_waiter h, h\<lparr>h_queue := Some q\<rparr>)"
      "waiters (h\<lparr>h_queue := Some q\<rparr>) = tl (waiters h)"
      using Some False by (simp_all add: next_waiting_def first_waiter_def waiters_def queue_of_def)
    with assms Some show ?thesis by (metis host_client.surjective host_client.update_convs(4))
  qed
qed

lemma first_waiterD:
  assumes "host_ok n h" and "first_waiter h = Some k"
  shows "k < n" "waiting_in h k" "caller_ok (h_callers h k)"
    "\<exists>ks. waiters h = k # ks \<and> k \<notin> set ks"
proof -
  obtain ks where w: "waiters h = k # ks" using assms(2) by (auto simp: first_waiter_def split: list.splits)
  then have "k \<in> set (waiters h)" by simp
  then show "k < n" "waiting_in h k" "caller_ok (h_callers h k)"
    using assms(1) by (auto simp: waiters_def host_ok_def)
  have "distinct (waiters h)" using assms(1) by (simp add: waiters_def host_ok_def)
  then show "\<exists>ks. waiters h = k # ks \<and> k \<notin> set ks" using w by simp
qed

lemma queueWaitingCaller_eq:
  assumes "host_ok n h"
  shows "\<exists>q. queueWaitingCaller n h =
      Some (h\<lparr>h_callers := (h_callers h)(n := new_caller), h_queue := Some q\<rparr>) \<and>
    host_ok (Suc n) (h\<lparr>h_callers := (h_callers h)(n := new_caller), h_queue := Some q\<rparr>) \<and>
    waiters (h\<lparr>h_callers := (h_callers h)(n := new_caller), h_queue := Some q\<rparr>) = waiters h @ [n]"
proof -
  let ?h = "h\<lparr>h_callers := (h_callers h)(n := new_caller)\<rparr>"
  define q where "q = (case h_queue h of None \<Rightarrow> empty_queue | Some q \<Rightarrow> q)"
  have q: "queue_ok q" "queue_list q = queue_of h"
    using assms wq.empt by (auto simp: q_def queue_of_def host_ok_def split: option.splits)
  have n: "n \<notin> set (queue_of h)" using assms by (auto simp: host_ok_def)
  have wait: "filter (waiting_in ?h) xs = filter (waiting_in h) xs" if "n \<notin> set xs" for xs
    using that by (intro filter_cong) (auto simp: waiting_in_def)
  from clearFront_loop_eq [OF q(1), of "waiting_in ?h" False] obtain b q' where
    q': "clearFront (waiting_in ?h) q = Some (b, q')" "queue_ok q'"
      "queue_list q' = dropWhile (Not \<circ> waiting_in ?h) (queue_of h)"
    unfolding clearFront_def q(2) by blast
  have push: "queue_ok (pushBack n q')" "queue_list (pushBack n q') = queue_list q' @ [n]"
    using wq.push [OF q'(2)] by auto
  have sub: "x \<in> set (queue_list q') \<Longrightarrow> x \<in> set (queue_of h)" for x
    using q'(3) set_dropWhileD by metis
  have dist: "distinct (queue_list q')" using assms q'(3) by (simp add: host_ok_def)
  have all: "queue_of (?h\<lparr>h_queue := Some (pushBack n q')\<rparr>) = queue_list q' @ [n]"
    using push(2) by (simp add: queue_of_def)
  have 1: "queueWaitingCaller n h = Some (?h\<lparr>h_queue := Some (pushBack n q')\<rparr>)"
    using q'(1) by (simp add: queueWaitingCaller_def q_def)
  have 2: "host_ok (Suc n) (?h\<lparr>h_queue := Some (pushBack n q')\<rparr>)"
    unfolding host_ok_def
  proof (intro conjI)
    show "\<forall>k<Suc n. caller_ok (h_callers (?h\<lparr>h_queue := Some (pushBack n q')\<rparr>) k)"
      using assms by (simp add: host_ok_def less_Suc_eq new_caller_ok)
    show "distinct (queue_of (?h\<lparr>h_queue := Some (pushBack n q')\<rparr>))"
      using all dist n sub by auto
    show "\<forall>k\<in>set (queue_of (?h\<lparr>h_queue := Some (pushBack n q')\<rparr>)). k < Suc n"
      using assms all sub by (fastforce simp: host_ok_def less_Suc_eq)
  qed (use push(1) in simp)
  have "waiting_in ?h n" by (simp add: waiting_in_def new_caller_ok)
  then have 3: "waiters (?h\<lparr>h_queue := Some (pushBack n q')\<rparr>) = waiters h @ [n]"
    using push(2) q'(3) wait [OF n] filter_dropWhile_Not [of "waiting_in ?h" "queue_of h"]
    by (simp add: waiters_def queue_of_def)
  from 1 2 3 show ?thesis by blast
qed

text \<open>The cell of a caller that was given a connection or an error.\<close>

definition answered :: "client_conn option \<Rightarrow> net_error option \<Rightarrow> caller" where
  "answered conn err = \<lparr>w_ready = True, w_conn = conn, w_err = err\<rparr>"

lemma answered_ok [simp]:
  "\<not> caller_waiting (answered conn err)"
  "caller_ok (answered conn err) \<longleftrightarrow> conn \<noteq> None \<or> err \<noteq> None"
  "w_conn (answered conn err) = conn" "w_err (answered conn err) = err" "w_ready (answered conn err)"
  by (simp_all add: answered_def caller_waiting_def caller_ok_def)

lemma tryDeliver_eq:
  "caller_ok w \<Longrightarrow> c \<noteq> None \<or> err \<noteq> None \<Longrightarrow>
   tryDeliver c err w = Some (if caller_waiting w then (True, answered c err) else (False, w))"
  by (cases w) (auto simp: tryDeliver_def caller_ok_def caller_waiting_def close_ready_def answered_def)

lemma cancel_caller_eq:
  "caller_ok w \<Longrightarrow> cancel_caller err w = Some (w_conn w, answered None err)"
  by (cases w) (auto simp: cancel_caller_def caller_ok_def caller_waiting_def close_ready_def answered_def)

lemma recycle_deliver_eq:
  assumes "\<And>k. w = Some k \<Longrightarrow> caller_ok (h_callers h k)"
  shows "recycle_deliver cc w h = Some
    (case w of Some k \<Rightarrow>
       if waiting_in h k then h\<lparr>h_callers := (h_callers h)(k := answered (Some cc) None)\<rparr>
       else h\<lparr>h_conns := h_conns h @ [cc]\<rparr>
     | None \<Rightarrow> h\<lparr>h_conns := h_conns h @ [cc]\<rparr>)"
proof (cases w)
  case None
  then show ?thesis by (simp add: recycle_deliver_def)
next
  case (Some k)
  show ?thesis
    using tryDeliver_eq [OF assms [OF Some], of "Some cc" None] Some
    by (simp add: recycle_deliver_def waiting_in_def)
qed

text \<open>
  The two ways of giving a connection or a place back. \<open>serves h\<close> is the caller that gets it.
\<close>

definition serves :: "host_client \<Rightarrow> nat option" where
  "serves h = (if hc_MaxConnWaitTimeout (h_config h) \<le> 0 then None else first_waiter h)"

lemma tryRecycleClientConn_eq:
  assumes "host_ok n h"
  shows "\<exists>q. tryRecycleClientConn now cc h = Some (case serves h of
        None \<Rightarrow> h\<lparr>h_queue := q, h_conns := h_conns h @ [cc\<lparr>cc_lastUseTime := now\<rparr>]\<rparr>
      | Some k \<Rightarrow> h\<lparr>h_queue := q,
          h_callers := (h_callers h)(k := answered (Some (cc\<lparr>cc_lastUseTime := now\<rparr>)) None)\<rparr>) \<and>
    host_ok n (h\<lparr>h_queue := q\<rparr>) \<and>
    (hc_MaxConnWaitTimeout (h_config h) > 0 \<longrightarrow> waiters (h\<lparr>h_queue := q\<rparr>) = tl (waiters h))"
proof (cases "hc_MaxConnWaitTimeout (h_config h) \<le> 0")
  case True
  then show ?thesis using assms
    by (intro exI [of _ "h_queue h"]) (simp add: tryRecycleClientConn_def serves_def)
next
  case False
  from next_waiting_eq [OF assms] obtain q where
    q: "next_waiting h = Some (first_waiter h, h\<lparr>h_queue := q\<rparr>)"
      "host_ok n (h\<lparr>h_queue := q\<rparr>)" "waiters (h\<lparr>h_queue := q\<rparr>) = tl (waiters h)" by blast
  have "recycle_deliver cc' (first_waiter h) (h\<lparr>h_queue := q\<rparr>) = Some (case first_waiter h of
        None \<Rightarrow> h\<lparr>h_queue := q, h_conns := h_conns h @ [cc']\<rparr>
      | Some k \<Rightarrow> h\<lparr>h_queue := q, h_callers := (h_callers h)(k := answered (Some cc') None)\<rparr>)" for cc'
  proof (cases "first_waiter h")
    case None
    then show ?thesis by (simp add: recycle_deliver_def)
  next
    case (Some k)
    from first_waiterD [OF assms Some] show ?thesis
      using Some by (subst recycle_deliver_eq) auto
  qed
  then show ?thesis using False q by (intro exI [of _ q]) (simp add: tryRecycleClientConn_def serves_def Let_def)
qed

lemma decrement_eq:
  assumes "host_ok n h"
  shows "\<exists>q. decrementCountOrTryDialForWaitingCaller h = Some (serves h, case serves h of
        None \<Rightarrow> h\<lparr>h_queue := q, h_count := h_count h - 1\<rparr> | Some k \<Rightarrow> h\<lparr>h_queue := q\<rparr>) \<and>
    host_ok n (h\<lparr>h_queue := q\<rparr>) \<and>
    (hc_MaxConnWaitTimeout (h_config h) > 0 \<longrightarrow> waiters (h\<lparr>h_queue := q\<rparr>) = tl (waiters h))"
proof (cases "hc_MaxConnWaitTimeout (h_config h) \<le> 0")
  case True
  then show ?thesis using assms
    by (intro exI [of _ "h_queue h"]) (simp add: decrementCountOrTryDialForWaitingCaller_def serves_def)
next
  case False
  from next_waiting_eq [OF assms] obtain q where
    q: "next_waiting h = Some (first_waiter h, h\<lparr>h_queue := q\<rparr>)"
      "host_ok n (h\<lparr>h_queue := q\<rparr>)" "waiters (h\<lparr>h_queue := q\<rparr>) = tl (waiters h)" by blast
  then show ?thesis using False
    by (intro exI [of _ q])
      (cases "first_waiter h"; simp add: decrementCountOrTryDialForWaitingCaller_def serves_def)
qed

lemma servesD:
  assumes "host_ok n h" and "serves h = Some k"
  shows "k < n" "waiting_in h k" "caller_ok (h_callers h k)"
    "\<exists>ks. waiters h = k # ks \<and> k \<notin> set ks"
proof -
  have k: "first_waiter h = Some k" using assms(2) by (simp add: serves_def split: if_splits)
  show "k < n" "waiting_in h k" "caller_ok (h_callers h k)" "\<exists>ks. waiters h = k # ks \<and> k \<notin> set ks"
    using first_waiterD [OF assms(1) k] by auto
qed

end
