(* ===== verification/ConnPool.thy ===== *)
theory ConnPool
  imports HostQueue "HOL-Library.Multiset"
begin

text \<open>
  All goroutines that use one host client (\<open>sleepytcp/client_host.go\<close>), as a step relation. A
  step is one critical section, one call of the dialer that returns, or one step of the cleaner;
  everything a goroutine keeps between two sections is part of the state:
  \<open>p_owned\<close> the connections held by requests (or taken back by a cancelled caller), \<open>p_enqueue\<close>
  the requests that found neither a connection nor a place and are about to queue, \<open>p_active\<close> the
  callers that wait in the \<open>select\<close>, \<open>p_dials\<close> the requests that dial, \<open>p_dialing\<close> the callers
  for whom \<open>tryDialForWaitingCaller\<close> dials, \<open>p_release\<close> the failed dials that have not given
  their place back, \<open>p_cleaner\<close> where \<open>cleanupIdleConnections\<close> is. A dialed connection has a
  new number.
\<close>

section \<open>State\<close>

datatype cleaner = CleanerOff | CleanerScan | CleanerDestroy "client_conn list" | CleanerExit

fun scratch :: "cleaner \<Rightarrow> client_conn list" where
  "scratch (CleanerDestroy ccs) = ccs"
| "scratch _ = []"

record pool =
  p_host :: host_client
  p_owned :: "client_conn multiset"
  p_enqueue :: nat
  p_active :: "nat set"
  p_dials :: nat
  p_dialing :: "nat multiset"
  p_release :: nat
  p_cleaner :: cleaner
  p_nextConn :: nat
  p_nextCaller :: nat

definition start_pool :: "host_config \<Rightarrow> pool" where
  "start_pool c = \<lparr>p_host = new_host_client c, p_owned = {#}, p_enqueue = 0, p_active = {},
     p_dials = 0, p_dialing = {#}, p_release = 0, p_cleaner = CleanerOff, p_nextConn = 0,
     p_nextCaller = 0\<rparr>"

fun mset_option :: "'a option \<Rightarrow> 'a multiset" where
  "mset_option None = {#}"
| "mset_option (Some x) = {#x#}"

definition set_caller :: "nat \<Rightarrow> caller \<Rightarrow> host_client \<Rightarrow> host_client" where
  "set_caller k w h = h\<lparr>h_callers := (h_callers h)(k := w)\<rparr>"

section \<open>Steps\<close>

text \<open>
  The steps that begin a request (\<open>pool_request\<close>) and those of the goroutines that are under way
  (\<open>pool_work\<close>). A caller leaves the \<open>select\<close> with the connection it was given (\<open>served\<close>), or it cancels,
  because of its timer or of the error it was given. \<open>recycle_race\<close> is a recycling where the
  caller cancels between \<open>waiting\<close> and \<open>tryDeliver\<close>: the two hold the caller's lock separately.
\<close>

inductive pool_request :: "pool \<Rightarrow> pool \<Rightarrow> bool" where
  acquire_idle: "acquire_section (p_host P) = ((Some cc, create, start), h) \<Longrightarrow>
    pool_request P (P\<lparr>p_host := h, p_owned := add_mset cc (p_owned P)\<rparr>)"
| acquire_create: "acquire_section (p_host P) = ((None, True, start), h) \<Longrightarrow>
    pool_request P (P\<lparr>p_host := h, p_dials := Suc (p_dials P),
      p_cleaner := (if start then CleanerScan else p_cleaner P)\<rparr>)"
| acquire_full: "acquire_section (p_host P) = ((None, False, start), h) \<Longrightarrow>
    wait_duration (h_config h) timeout = Some d \<Longrightarrow>
    pool_request P (P\<lparr>p_host := h, p_enqueue := Suc (p_enqueue P)\<rparr>)"

inductive pool_work :: "pool \<Rightarrow> pool \<Rightarrow> bool" where
  enqueue: "p_enqueue P = Suc n \<Longrightarrow> queueWaitingCaller (p_nextCaller P) (p_host P) = Some h \<Longrightarrow>
    pool_work P (P\<lparr>p_host := h, p_enqueue := n, p_active := insert (p_nextCaller P) (p_active P),
      p_nextCaller := Suc (p_nextCaller P)\<rparr>)"
| served: "k \<in> p_active P \<Longrightarrow> w_ready (h_callers (p_host P) k) \<Longrightarrow>
    w_conn (h_callers (p_host P) k) = Some cc \<Longrightarrow> w_err (h_callers (p_host P) k) = None \<Longrightarrow>
    pool_work P (P\<lparr>p_owned := add_mset cc (p_owned P), p_active := p_active P - {k}\<rparr>)"
| cancel: "k \<in> p_active P \<Longrightarrow>
    err = wait_error overridden \<or> w_err (h_callers (p_host P) k) = Some err \<Longrightarrow>
    cancel_caller (Some err) (h_callers (p_host P) k) = Some (conn, w) \<Longrightarrow>
    pool_work P (P\<lparr>p_host := set_caller k w (p_host P), p_owned := mset_option conn + p_owned P,
      p_active := p_active P - {k}\<rparr>)"
| dialed: "p_dials P = Suc n \<Longrightarrow>
    pool_work P (P\<lparr>p_owned := add_mset (acquireClientConn (p_nextConn P)) (p_owned P),
      p_dials := n, p_nextConn := Suc (p_nextConn P)\<rparr>)"
| dial_failed: "p_dials P = Suc n \<Longrightarrow>
    pool_work P (P\<lparr>p_dials := n, p_release := Suc (p_release P)\<rparr>)"
| release: "p_release P = Suc n \<Longrightarrow>
    decrementCountOrTryDialForWaitingCaller (p_host P) = Some (d, h) \<Longrightarrow>
    pool_work P (P\<lparr>p_host := h, p_dialing := mset_option d + p_dialing P, p_release := n\<rparr>)"
| recycle: "cc \<in># p_owned P \<Longrightarrow> tryRecycleClientConn now cc (p_host P) = Some h \<Longrightarrow>
    pool_work P (P\<lparr>p_host := h, p_owned := p_owned P - {#cc#}\<rparr>)"
| recycle_race: "cc \<in># p_owned P \<Longrightarrow> hc_MaxConnWaitTimeout (h_config (p_host P)) > 0 \<Longrightarrow>
    next_waiting (p_host P) = Some (Some k, h) \<Longrightarrow> k \<in> p_active P \<Longrightarrow>
    cancel_caller (Some (wait_error overridden)) (h_callers h k) = Some (conn, w) \<Longrightarrow>
    recycle_deliver (cc\<lparr>cc_lastUseTime := now\<rparr>) (Some k) (set_caller k w h) = Some h' \<Longrightarrow>
    pool_work P (P\<lparr>p_host := h', p_owned := mset_option conn + (p_owned P - {#cc#}),
      p_active := p_active P - {k}\<rparr>)"
| destroy: "cc \<in># p_owned P \<Longrightarrow> destroyClientConn cc (p_host P) = Some (d, h) \<Longrightarrow>
    pool_work P (P\<lparr>p_host := h, p_owned := p_owned P - {#cc#},
      p_dialing := mset_option d + p_dialing P\<rparr>)"
| dialed_for: "k \<in># p_dialing P \<Longrightarrow>
    tryDeliver (Some (acquireClientConn (p_nextConn P))) None (h_callers (p_host P) k) =
      Some (delivered, w) \<Longrightarrow>
    pool_work P (P\<lparr>p_host := set_caller k w (p_host P),
      p_owned := (if delivered then p_owned P
                  else add_mset (acquireClientConn (p_nextConn P)) (p_owned P)),
      p_dialing := p_dialing P - {#k#}, p_nextConn := Suc (p_nextConn P)\<rparr>)"
| dial_for_failed: "k \<in># p_dialing P \<Longrightarrow>
    tryDeliver None (Some err) (h_callers (p_host P) k) = Some (delivered, w) \<Longrightarrow>
    pool_work P (P\<lparr>p_host := set_caller k w (p_host P), p_dialing := p_dialing P - {#k#},
      p_release := Suc (p_release P)\<rparr>)"
| clean_scan: "p_cleaner P = CleanerScan \<Longrightarrow>
    cleanup_section now (p_host P) = (ccs, duration, h) \<Longrightarrow>
    pool_work P (P\<lparr>p_host := h, p_cleaner := CleanerDestroy ccs\<rparr>)"
| clean_destroy: "p_cleaner P = CleanerDestroy (cc # ccs) \<Longrightarrow>
    destroyClientConn cc (p_host P) = Some (d, h) \<Longrightarrow>
    pool_work P (P\<lparr>p_host := h, p_dialing := mset_option d + p_dialing P,
      p_cleaner := CleanerDestroy ccs\<rparr>)"
| clean_check: "p_cleaner P = CleanerDestroy [] \<Longrightarrow>
    pool_work P (P\<lparr>p_cleaner := (if cleanup_mustStop (p_host P) then CleanerExit else CleanerScan)\<rparr>)"
| clean_exit: "p_cleaner P = CleanerExit \<Longrightarrow>
    pool_work P (P\<lparr>p_host := cleanup_exit (p_host P), p_cleaner := CleanerOff\<rparr>)"

inductive pool_step :: "pool \<Rightarrow> pool \<Rightarrow> bool" where
  request: "pool_request P P' \<Longrightarrow> pool_step P P'"
| work: "pool_work P P' \<Longrightarrow> pool_step P P'"

inductive_cases pool_stepE: "pool_step P P'"

inductive pool_reachable :: "host_config \<Rightarrow> pool \<Rightarrow> bool" for c where
  start: "pool_reachable c (start_pool c)"
| step: "pool_reachable c P \<Longrightarrow> pool_step P P' \<Longrightarrow> pool_reachable c P'"

section \<open>The connections\<close>

text \<open>Every connection that was dialed and is not destroyed, with all places where it is.\<close>

definition cells :: "(nat \<Rightarrow> caller) \<Rightarrow> nat set \<Rightarrow> client_conn multiset" where
  "cells f A = (\<Sum>k\<in>A. mset_option (w_conn (f k)))"

definition live_conns :: "pool \<Rightarrow> client_conn multiset" where
  "live_conns P = mset (h_conns (p_host P)) + p_owned P + mset (scratch (p_cleaner P)) +
     cells (h_callers (p_host P)) (p_active P)"

definition conn_ids :: "pool \<Rightarrow> nat multiset" where
  "conn_ids P = image_mset cc_conn (live_conns P)"

text \<open>The places that are taken: by a connection or by someone who dials or gives the place back.\<close>

definition places :: "pool \<Rightarrow> nat" where
  "places P = size (live_conns P) + p_dials P + size (p_dialing P) + p_release P"

definition pool_inv :: "host_config \<Rightarrow> pool \<Rightarrow> bool" where
  "pool_inv c P \<longleftrightarrow> h_config (p_host P) = c \<and>
     host_ok (p_nextCaller P) (p_host P) \<and> finite (p_active P) \<and> (\<forall>k\<in>p_active P. k < p_nextCaller P) \<and>
     (\<forall>k<p_nextCaller P. waiting_in (p_host P) k \<longrightarrow> k \<in> p_active P) \<and>
     (\<forall>k\<in>#p_dialing P. k < p_nextCaller P) \<and>
     (\<forall>i. count (conn_ids P) i \<le> 1) \<and> (\<forall>i\<in>#conn_ids P. i < p_nextConn P) \<and>
     h_count (p_host P) = int (places P) \<and> h_count (p_host P) \<le> max_conns c \<and>
     (h_cleanerRunning (p_host P) \<longleftrightarrow> p_cleaner P \<noteq> CleanerOff)"

lemma cells_remove:
  "finite A \<Longrightarrow> k \<in> A \<Longrightarrow> cells f A = mset_option (w_conn (f k)) + cells f (A - {k})"
  by (simp add: cells_def sum.remove)

lemma cells_other: "k \<notin> A \<Longrightarrow> cells (f(k := w)) A = cells f A"
  by (auto simp: cells_def intro: sum.cong)

lemma cells_update:
  "finite A \<Longrightarrow> k \<in> A \<Longrightarrow> cells (f(k := w)) A = mset_option (w_conn w) + cells f (A - {k})"
  by (simp add: cells_remove [of A k] cells_other)

lemma cells_insert:
  "finite A \<Longrightarrow> k \<notin> A \<Longrightarrow> cells f (insert k A) = mset_option (w_conn (f k)) + cells f A"
  by (simp add: cells_def)

section \<open>The sections on the pool\<close>

lemma decrement_pool:
  assumes "host_ok n h" and "decrementCountOrTryDialForWaitingCaller h = Some (d, h')"
  shows "h_config h' = h_config h" "host_ok n h'" "h_conns h' = h_conns h"
    "h_callers h' = h_callers h" "h_cleanerRunning h' = h_cleanerRunning h"
    "h_count h' = h_count h - 1 + int (size (mset_option d))" "k \<in># mset_option d \<Longrightarrow> k < n"
    "waiting_in h' = waiting_in h"
proof -
  from decrement_eq [OF assms(1)] obtain q where
    "d = serves h" "h' = (case serves h of
        None \<Rightarrow> h\<lparr>h_queue := q, h_count := h_count h - 1\<rparr> | Some k \<Rightarrow> h\<lparr>h_queue := q\<rparr>)"
    "host_ok n (h\<lparr>h_queue := q\<rparr>)" using assms(2) by auto
  then show "h_config h' = h_config h" "host_ok n h'" "h_conns h' = h_conns h"
    "h_callers h' = h_callers h" "h_cleanerRunning h' = h_cleanerRunning h"
    "h_count h' = h_count h - 1 + int (size (mset_option d))" "k \<in># mset_option d \<Longrightarrow> k < n"
    "waiting_in h' = waiting_in h"
    using servesD [OF assms(1)] by (auto split: option.splits)
qed

lemma recycle_pool:
  assumes "host_ok n h" and "tryRecycleClientConn now cc h = Some h'"
  shows "h_config h' = h_config h" "host_ok n h'" "h_count h' = h_count h"
    "h_cleanerRunning h' = h_cleanerRunning h"
    "h_conns h' = h_conns h @ [cc\<lparr>cc_lastUseTime := now\<rparr>] \<and> h_callers h' = h_callers h \<or>
     (\<exists>k<n. waiting_in h k \<and> h_conns h' = h_conns h \<and>
        h_callers h' = (h_callers h)(k := answered (Some (cc\<lparr>cc_lastUseTime := now\<rparr>)) None))"
proof -
  let ?cc = "cc\<lparr>cc_lastUseTime := now\<rparr>"
  from tryRecycleClientConn_eq [OF assms(1), of now cc] obtain q where
    q: "h' = (case serves h of None \<Rightarrow> h\<lparr>h_queue := q, h_conns := h_conns h @ [?cc]\<rparr>
        | Some k \<Rightarrow> h\<lparr>h_queue := q, h_callers := (h_callers h)(k := answered (Some ?cc) None)\<rparr>)"
    "host_ok n (h\<lparr>h_queue := q\<rparr>)" using assms(2) by auto
  show "h_config h' = h_config h" "h_count h' = h_count h" "h_cleanerRunning h' = h_cleanerRunning h"
    using q(1) by (auto split: option.splits)
  show "host_ok n h'"
    using q host_ok_caller [OF q(2)] by (auto split: option.splits)
  show "h_conns h' = h_conns h @ [?cc] \<and> h_callers h' = h_callers h \<or>
     (\<exists>k<n. waiting_in h k \<and> h_conns h' = h_conns h \<and>
        h_callers h' = (h_callers h)(k := answered (Some ?cc) None))"
    using q(1) servesD [OF assms(1)] by (auto split: option.splits)
qed

lemma set_caller_simps [simp]:
  "h_config (set_caller k w h) = h_config h" "h_conns (set_caller k w h) = h_conns h"
  "h_count (set_caller k w h) = h_count h" "h_queue (set_caller k w h) = h_queue h"
  "h_cleanerRunning (set_caller k w h) = h_cleanerRunning h"
  "h_callers (set_caller k w h) = (h_callers h)(k := w)"
  by (simp_all add: set_caller_def)

lemma host_ok_set_caller: "host_ok n h \<Longrightarrow> caller_ok w \<Longrightarrow> host_ok n (set_caller k w h)"
  by (simp add: set_caller_def host_ok_caller)

lemma waiting_not_conn:
  "host_ok n h \<Longrightarrow> k < n \<Longrightarrow> waiting_in h k \<Longrightarrow> mset_option (w_conn (h_callers h k)) = {#}"
  using host_okD(1) [of n h k] by (auto simp: caller_ok_def waiting_in_def caller_waiting_def)

lemma pool_invD:
  assumes "pool_inv c P"
  shows "h_config (p_host P) = c" "host_ok (p_nextCaller P) (p_host P)" "finite (p_active P)"
    "k \<in> p_active P \<Longrightarrow> k < p_nextCaller P"
    "k < p_nextCaller P \<Longrightarrow> waiting_in (p_host P) k \<Longrightarrow> k \<in> p_active P"
    "k \<in># p_dialing P \<Longrightarrow> k < p_nextCaller P"
    "h_count (p_host P) = int (places P)" "h_count (p_host P) \<le> max_conns c"
  using assms by (auto simp: pool_inv_def)

text \<open>
  How a step changes the connections: it keeps them (up to the time of last use), drops one or
  adds a new one. The rest of the invariant is then about the parts that the step writes.
\<close>

lemma pool_inv_frame:
  assumes "pool_inv c P" and "h_config (p_host P') = c"
    and "host_ok (p_nextCaller P') (p_host P')" and "finite (p_active P')"
    and "\<And>k. k \<in> p_active P' \<Longrightarrow> k < p_nextCaller P'"
    and "\<And>k. k < p_nextCaller P' \<Longrightarrow> waiting_in (p_host P') k \<Longrightarrow> k \<in> p_active P'"
    and "\<And>k. k \<in># p_dialing P' \<Longrightarrow> k < p_nextCaller P'"
    and "conn_ids P' \<subseteq># conn_ids P \<and> p_nextConn P \<le> p_nextConn P' \<or>
      conn_ids P' = add_mset (p_nextConn P) (conn_ids P) \<and> p_nextConn P < p_nextConn P'"
    and "h_count (p_host P') = int (places P')" and "h_count (p_host P') \<le> max_conns c"
    and "h_cleanerRunning (p_host P') \<longleftrightarrow> p_cleaner P' \<noteq> CleanerOff"
  shows "pool_inv c P'"
proof -
  have ids: "count (conn_ids P) i \<le> 1" "i \<in># conn_ids P \<Longrightarrow> i < p_nextConn P" for i
    using assms(1) by (auto simp: pool_inv_def)
  have "count (conn_ids P') i \<le> 1 \<and> (i \<in># conn_ids P' \<longrightarrow> i < p_nextConn P')" for i
    using assms(8)
  proof (elim disjE conjE)
    assume a: "conn_ids P' \<subseteq># conn_ids P" "p_nextConn P \<le> p_nextConn P'"
    have "count (conn_ids P') i \<le> count (conn_ids P) i" by (rule mset_subset_eq_count [OF a(1)])
    moreover have "i \<in># conn_ids P' \<Longrightarrow> i \<in># conn_ids P" by (rule mset_subset_eqD [OF a(1)])
    ultimately show ?thesis using ids [of i] a(2) by fastforce
  next
    assume a: "conn_ids P' = add_mset (p_nextConn P) (conn_ids P)" "p_nextConn P < p_nextConn P'"
    have "count (conn_ids P) (p_nextConn P) = 0"
      using ids(2) [of "p_nextConn P"] by (meson less_irrefl not_in_iff)
    then show ?thesis using ids [of i] a by (cases "i = p_nextConn P") (auto simp: less_trans)
  qed
  then show ?thesis using assms(2-7,9-11) unfolding pool_inv_def by simp
qed

section \<open>Every step keeps the invariant\<close>

named_theorems pool_simps

lemmas [pool_simps] = conn_ids_def live_conns_def places_def

lemma inv_acquire_idle:
  assumes "pool_inv c P" and "acquire_section (p_host P) = ((Some cc, create, start), h)"
  shows "pool_inv c (P\<lparr>p_host := h, p_owned := add_mset cc (p_owned P)\<rparr>)"
proof -
  let ?cs = "h_conns (p_host P)"
  have ne: "?cs \<noteq> []" and h: "h = (p_host P)\<lparr>h_conns := butlast ?cs\<rparr>" and cc: "cc = last ?cs"
    using assms(2) by (auto simp: acquire_section_def Let_def last_conv_nth butlast_conv_take split: if_splits)
  have "mset ?cs = add_mset cc (mset (butlast ?cs))" using ne cc by (metis append_butlast_last_id mset_append
    mset_single_iff_right union_mset_add_mset_right mset.simps add.right_neutral)
  then have l: "live_conns (P\<lparr>p_host := h, p_owned := add_mset cc (p_owned P)\<rparr>) = live_conns P"
    by (simp add: live_conns_def h)
  then show ?thesis
    using assms(1) by (auto simp: pool_inv_def h conn_ids_def places_def)
qed

lemma inv_acquire_create:
  assumes "pool_inv c P" and "acquire_section (p_host P) = ((None, True, start), h)"
  shows "pool_inv c (P\<lparr>p_host := h, p_dials := Suc (p_dials P),
      p_cleaner := (if start then CleanerScan else p_cleaner P)\<rparr>)"
proof -
  have h: "h_count (p_host P) < max_conns (h_config (p_host P))" "start \<longleftrightarrow> \<not> h_cleanerRunning (p_host P)"
    "h = (if start then (p_host P)\<lparr>h_count := h_count (p_host P) + 1, h_cleanerRunning := True\<rparr>
          else (p_host P)\<lparr>h_count := h_count (p_host P) + 1\<rparr>)"
    using assms(2) by (auto simp: acquire_section_def Let_def split: if_splits)
  have s: "scratch (p_cleaner P) = []" if start using that h(2) assms(1) by (auto simp: pool_inv_def)
  show ?thesis
    using assms(1) h s by (cases start) (simp_all add: pool_inv_def pool_simps)
qed

lemma inv_acquire_full:
  assumes "pool_inv c P" and "acquire_section (p_host P) = ((None, False, start), h)"
  shows "pool_inv c (P\<lparr>p_host := h, p_enqueue := n\<rparr>)"
  using assms by (auto simp: acquire_section_def Let_def pool_inv_def pool_simps split: if_splits)

lemma inv_enqueue:
  assumes "pool_inv c P" and "queueWaitingCaller (p_nextCaller P) (p_host P) = Some h"
  shows "pool_inv c (P\<lparr>p_host := h, p_enqueue := n, p_active := insert (p_nextCaller P) (p_active P),
      p_nextCaller := Suc (p_nextCaller P)\<rparr>)"
proof -
  note inv = pool_invD [OF assms(1)]
  from queueWaitingCaller_eq [OF inv(2)] obtain q where
    h: "h = (p_host P)\<lparr>h_callers := (h_callers (p_host P))(p_nextCaller P := new_caller), h_queue := Some q\<rparr>"
      "host_ok (Suc (p_nextCaller P)) h" using assms(2) by auto
  have new: "p_nextCaller P \<notin> p_active P" using inv(4) by blast
  have "live_conns (P\<lparr>p_host := h, p_enqueue := n, p_active := insert (p_nextCaller P) (p_active P),
      p_nextCaller := Suc (p_nextCaller P)\<rparr>) = live_conns P"
    using h(1) new inv(3) by (simp add: live_conns_def cells_insert cells_other new_caller_def)
  then show ?thesis
    using assms(1) h by (auto simp: pool_inv_def conn_ids_def places_def waiting_in_def less_Suc_eq)
qed

lemma inv_served:
  assumes "pool_inv c P" and "k \<in> p_active P" and "w_ready (h_callers (p_host P) k)"
    and "w_conn (h_callers (p_host P) k) = Some cc"
  shows "pool_inv c (P\<lparr>p_owned := add_mset cc (p_owned P), p_active := p_active P - {k}\<rparr>)"
proof -
  have "live_conns (P\<lparr>p_owned := add_mset cc (p_owned P), p_active := p_active P - {k}\<rparr>) = live_conns P"
    using cells_remove [OF pool_invD(3) [OF assms(1)] assms(2), of "h_callers (p_host P)"] assms(4)
    by (simp add: live_conns_def)
  then show ?thesis
    using assms by (auto simp: pool_inv_def conn_ids_def places_def waiting_in_def caller_waiting_def)
qed

lemma inv_cancel:
  assumes "pool_inv c P" and "k \<in> p_active P"
    and "cancel_caller (Some err) (h_callers (p_host P) k) = Some (conn, w)"
  shows "pool_inv c (P\<lparr>p_host := set_caller k w (p_host P),
      p_owned := mset_option conn + p_owned P, p_active := p_active P - {k}\<rparr>)"
proof -
  note inv = pool_invD [OF assms(1)]
  have ok: "caller_ok (h_callers (p_host P) k)" using host_okD(1) [OF inv(2)] inv(4) assms(2) by blast
  have cw: "conn = w_conn (h_callers (p_host P) k)" "w = answered None (Some err)"
    using assms(3) cancel_caller_eq [OF ok, of "Some err"] by simp_all
  have "live_conns (P\<lparr>p_host := set_caller k w (p_host P), p_owned := mset_option conn + p_owned P,
      p_active := p_active P - {k}\<rparr>) = live_conns P"
    using cells_remove [OF inv(3) assms(2), of "h_callers (p_host P)"]
    by (simp add: live_conns_def cells_other cw(1))
  then show ?thesis
    using assms(1) host_ok_set_caller [OF inv(2), of w k] cw(2)
    by (auto simp: pool_inv_def conn_ids_def places_def waiting_in_def)
qed

lemma inv_dialed:
  assumes "pool_inv c P" and "p_dials P = Suc n"
  shows "pool_inv c (P\<lparr>p_owned := add_mset (acquireClientConn (p_nextConn P)) (p_owned P),
      p_dials := n, p_nextConn := Suc (p_nextConn P)\<rparr>)"
  using assms
  by (intro pool_inv_frame [OF assms(1)])
    (auto simp: pool_inv_def pool_simps acquireClientConn_def)

lemma inv_dial_failed:
  assumes "pool_inv c P" and "p_dials P = Suc n"
  shows "pool_inv c (P\<lparr>p_dials := n, p_release := Suc (p_release P)\<rparr>)"
  using assms by (auto simp: pool_inv_def pool_simps)

lemma inv_release:
  assumes "pool_inv c P" and "p_release P = Suc n"
    and "decrementCountOrTryDialForWaitingCaller (p_host P) = Some (d, h)"
  shows "pool_inv c (P\<lparr>p_host := h, p_dialing := mset_option d + p_dialing P, p_release := n\<rparr>)"
proof -
  note h = decrement_pool [OF pool_invD(2) [OF assms(1)] assms(3)]
  from assms(1,2) h show ?thesis
    by (cases d) (auto simp: pool_inv_def pool_simps)
qed

lemma inv_destroy:
  assumes "pool_inv c P" and "cc \<in># p_owned P" and "destroyClientConn cc (p_host P) = Some (d, h)"
  shows "pool_inv c (P\<lparr>p_host := h, p_owned := p_owned P - {#cc#},
      p_dialing := mset_option d + p_dialing P\<rparr>)"
proof -
  note inv = pool_invD [OF assms(1)]
  note h = decrement_pool [OF inv(2) assms(3) [unfolded destroyClientConn_def]]
  obtain M where M: "p_owned P = add_mset cc M" using multi_member_split [OF assms(2)] by blast
  have le: "h_count h \<le> h_count (p_host P)" using h(6) by (cases d) auto
  show ?thesis
    using assms(1) h le inv(8) M
    by (intro pool_inv_frame [OF assms(1)])
      (auto simp: pool_inv_def pool_simps)
qed

lemma inv_clean_destroy:
  assumes "pool_inv c P" and "p_cleaner P = CleanerDestroy (cc # ccs)"
    and "destroyClientConn cc (p_host P) = Some (d, h)"
  shows "pool_inv c (P\<lparr>p_host := h, p_dialing := mset_option d + p_dialing P,
      p_cleaner := CleanerDestroy ccs\<rparr>)"
proof -
  note inv = pool_invD [OF assms(1)]
  note h = decrement_pool [OF inv(2) assms(3) [unfolded destroyClientConn_def]]
  have le: "h_count h \<le> h_count (p_host P)" using h(6) by (cases d) auto
  show ?thesis
    using assms(1,2) h le inv(8)
    by (intro pool_inv_frame [OF assms(1)])
      (auto simp: pool_inv_def pool_simps)
qed

lemma inv_recycle:
  assumes "pool_inv c P" and "cc \<in># p_owned P" and "tryRecycleClientConn now cc (p_host P) = Some h"
  shows "pool_inv c (P\<lparr>p_host := h, p_owned := p_owned P - {#cc#}\<rparr>)"
proof -
  note inv = pool_invD [OF assms(1)]
  note h = recycle_pool [OF inv(2) assms(3)]
  obtain M where M: "p_owned P = add_mset cc M" using multi_member_split [OF assms(2)] by blast
  let ?P = "P\<lparr>p_host := h, p_owned := p_owned P - {#cc#}\<rparr>"
  have wait: "waiting_in h i \<Longrightarrow> waiting_in (p_host P) i" for i
    using h(5) by (auto simp: waiting_in_def split: if_splits)
  have ids: "conn_ids ?P = conn_ids P"
    using h(5)
  proof (elim disjE exE conjE, goal_cases)
    case 1
    then show ?case by (simp add: conn_ids_def live_conns_def M)
  next
    case (2 k)
    then have "k \<in> p_active P" using inv(5) by blast
    then show ?case
      using 2 cells_remove [OF inv(3), of k "h_callers (p_host P)"] waiting_not_conn [OF inv(2)]
      by (simp add: conn_ids_def live_conns_def M cells_update [OF inv(3)])
  qed
  have "size (live_conns ?P) = size (live_conns P)"
    using arg_cong [OF ids, of size] by (simp add: conn_ids_def)
  then show ?thesis
    using assms(1) h(1-4) wait ids by (auto simp: pool_inv_def places_def)
qed

lemma inv_recycle_race:
  assumes "pool_inv c P" and "cc \<in># p_owned P" and "hc_MaxConnWaitTimeout (h_config (p_host P)) > 0"
    and "next_waiting (p_host P) = Some (Some k, h)" and "k \<in> p_active P"
    and "cancel_caller (Some err) (h_callers h k) = Some (conn, w)"
    and "recycle_deliver (cc\<lparr>cc_lastUseTime := now\<rparr>) (Some k) (set_caller k w h) = Some h'"
  shows "pool_inv c (P\<lparr>p_host := h', p_owned := mset_option conn + (p_owned P - {#cc#}),
      p_active := p_active P - {k}\<rparr>)"
proof -
  note inv = pool_invD [OF assms(1)]
  obtain M where M: "p_owned P = add_mset cc M" using multi_member_split [OF assms(2)] by blast
  from next_waiting_eq [OF inv(2)] obtain q where
    h: "h = (p_host P)\<lparr>h_queue := q\<rparr>" "host_ok (p_nextCaller P) h"
      "first_waiter (p_host P) = Some k" using assms(4) by auto
  note k = first_waiterD [OF inv(2) h(3)]
  have w: "conn = w_conn (h_callers (p_host P) k)" "w = answered None (Some err)"
    using assms(6) h(1) cancel_caller_eq [OF k(3)] by auto
  have conn: "mset_option conn = {#}" using waiting_not_conn [OF inv(2) k(1,2)] w(1) by simp
  have "recycle_deliver (cc\<lparr>cc_lastUseTime := now\<rparr>) (Some k) (set_caller k w h) =
      Some ((set_caller k w h)\<lparr>h_conns := h_conns h @ [cc\<lparr>cc_lastUseTime := now\<rparr>]\<rparr>)"
    by (subst recycle_deliver_eq) (auto simp: w(2) waiting_in_def)
  then have h': "h' = (set_caller k w h)\<lparr>h_conns := h_conns h @ [cc\<lparr>cc_lastUseTime := now\<rparr>]\<rparr>"
    using assms(7) by simp
  let ?P = "P\<lparr>p_host := h', p_owned := mset_option conn + (p_owned P - {#cc#}), p_active := p_active P - {k}\<rparr>"
  have ids: "conn_ids ?P = conn_ids P"
    using cells_remove [OF inv(3) assms(5), of "h_callers (p_host P)"] conn w(1)
    by (simp add: conn_ids_def live_conns_def h' h(1) M cells_other)
  have "size (live_conns ?P) = size (live_conns P)"
    using arg_cong [OF ids, of size] by (simp add: conn_ids_def)
  moreover have "host_ok (p_nextCaller P) h'"
    using host_ok_set_caller [OF h(2), of w k] w(2) by (simp add: h')
  ultimately show ?thesis
    using assms(1) ids w(2) by (auto simp: pool_inv_def places_def h' h(1) waiting_in_def)
qed

lemma inv_dialed_for:
  assumes "pool_inv c P" and "k \<in># p_dialing P"
    and "tryDeliver (Some (acquireClientConn (p_nextConn P))) None (h_callers (p_host P) k) =
      Some (delivered, w)"
  shows "pool_inv c (P\<lparr>p_host := set_caller k w (p_host P),
      p_owned := (if delivered then p_owned P
                  else add_mset (acquireClientConn (p_nextConn P)) (p_owned P)),
      p_dialing := p_dialing P - {#k#}, p_nextConn := Suc (p_nextConn P)\<rparr>)"
proof -
  note inv = pool_invD [OF assms(1)]
  let ?cc = "acquireClientConn (p_nextConn P)"
  obtain M where M: "p_dialing P = add_mset k M" using multi_member_split [OF assms(2)] by blast
  have k: "k < p_nextCaller P" using inv(6) assms(2) by blast
  have ok: "caller_ok (h_callers (p_host P) k)" using host_okD(1) [OF inv(2) k] .
  from tryDeliver_eq [OF ok, of "Some ?cc" None] assms(3) have
    w: "delivered \<longleftrightarrow> waiting_in (p_host P) k"
      "w = (if waiting_in (p_host P) k then answered (Some ?cc) None else h_callers (p_host P) k)"
    by (auto simp: waiting_in_def split: if_splits)
  have wok: "caller_ok w" using ok w(2) by simp
  have cc: "cc_conn ?cc = p_nextConn P" by (simp add: acquireClientConn_def)
  let ?P = "P\<lparr>p_host := set_caller k w (p_host P),
      p_owned := (if delivered then p_owned P else add_mset ?cc (p_owned P)),
      p_dialing := p_dialing P - {#k#}, p_nextConn := Suc (p_nextConn P)\<rparr>"
  have live: "live_conns ?P = add_mset ?cc (live_conns P)"
  proof (cases delivered)
    case True
    with w k inv(5) have "k \<in> p_active P" by blast
    then show ?thesis
      using True w cells_remove [OF inv(3), of k "h_callers (p_host P)"] waiting_not_conn [OF inv(2) k]
      by (simp add: live_conns_def cells_update [OF inv(3)])
  next
    case False
    then show ?thesis using w by (simp add: live_conns_def)
  qed
  have wait: "waiting_in (p_host ?P) i \<Longrightarrow> waiting_in (p_host P) i" for i
    using w(2) by (auto simp: waiting_in_def split: if_splits)
  show ?thesis
  proof (rule pool_inv_frame [OF assms(1)])
    show "host_ok (p_nextCaller ?P) (p_host ?P)" using host_ok_set_caller [OF inv(2) wok] by simp
    show "conn_ids ?P \<subseteq># conn_ids P \<and> p_nextConn P \<le> p_nextConn ?P \<or>
      conn_ids ?P = add_mset (p_nextConn P) (conn_ids P) \<and> p_nextConn P < p_nextConn ?P"
      using cc unfolding conn_ids_def live by simp
    show "h_count (p_host ?P) = int (places ?P)"
      using inv(7) M unfolding places_def live by simp
  qed (use assms(1) inv wait M in \<open>auto simp: pool_inv_def\<close>)
qed

lemma inv_dial_for_failed:
  assumes "pool_inv c P" and "k \<in># p_dialing P"
    and "tryDeliver None (Some err) (h_callers (p_host P) k) = Some (delivered, w)"
  shows "pool_inv c (P\<lparr>p_host := set_caller k w (p_host P), p_dialing := p_dialing P - {#k#},
      p_release := Suc (p_release P)\<rparr>)"
proof -
  note inv = pool_invD [OF assms(1)]
  obtain M where M: "p_dialing P = add_mset k M" using multi_member_split [OF assms(2)] by blast
  have k: "k < p_nextCaller P" using inv(6) assms(2) by blast
  have ok: "caller_ok (h_callers (p_host P) k)" using host_okD(1) [OF inv(2) k] .
  from tryDeliver_eq [OF ok, of None "Some err"] assms(3) have
    w: "w = (if waiting_in (p_host P) k then answered None (Some err) else h_callers (p_host P) k)"
    by (auto simp: waiting_in_def split: if_splits)
  have wok: "caller_ok w" using ok w by simp
  let ?P = "P\<lparr>p_host := set_caller k w (p_host P), p_dialing := p_dialing P - {#k#},
      p_release := Suc (p_release P)\<rparr>"
  have "mset_option (w_conn w) = mset_option (w_conn (h_callers (p_host P) k))"
    using w waiting_not_conn [OF inv(2) k] by auto
  then have live: "live_conns ?P = live_conns P"
    using cells_remove [OF inv(3), of k "h_callers (p_host P)"]
    by (cases "k \<in> p_active P") (simp_all add: live_conns_def cells_update [OF inv(3)] cells_other)
  have wait: "waiting_in (set_caller k w (p_host P)) i \<Longrightarrow> waiting_in (p_host P) i" for i
    using w by (auto simp: waiting_in_def split: if_splits)
  show ?thesis
    using assms(1) live wait host_ok_set_caller [OF inv(2) wok] M
    by (auto simp: pool_inv_def conn_ids_def places_def)
qed

lemma idle_prefix_le: "idle_prefix now limit ccs \<le> length ccs"
  by (induction ccs) auto

lemma cleanup_section_eq:
  "cleanup_section now h = (ccs, d, h') \<Longrightarrow>
   h' = h\<lparr>h_conns := drop (idle_prefix now (max_idle (h_config h)) (h_conns h)) (h_conns h)\<rparr> \<and>
   ccs = take (idle_prefix now (max_idle (h_config h)) (h_conns h)) (h_conns h)"
  by (auto simp: cleanup_section_def Let_def)

lemma inv_clean_scan:
  assumes "pool_inv c P" and "p_cleaner P = CleanerScan"
    and "cleanup_section now (p_host P) = (ccs, duration, h)"
  shows "pool_inv c (P\<lparr>p_host := h, p_cleaner := CleanerDestroy ccs\<rparr>)"
proof -
  let ?i = "idle_prefix now (max_idle (h_config (p_host P))) (h_conns (p_host P))"
  note h = cleanup_section_eq [OF assms(3)]
  have "mset (h_conns (p_host P)) = mset (drop ?i (h_conns (p_host P))) + mset (take ?i (h_conns (p_host P)))"
    by (metis append_take_drop_id mset_append union_commute)
  then have live: "live_conns (P\<lparr>p_host := h, p_cleaner := CleanerDestroy ccs\<rparr>) = live_conns P"
    using h assms(2) by (simp add: live_conns_def)
  then show ?thesis
    using assms(1,2) h by (auto simp: pool_inv_def conn_ids_def places_def)
qed

lemma inv_clean_check:
  assumes "pool_inv c P" and "p_cleaner P = CleanerDestroy []" and "cl \<in> {CleanerExit, CleanerScan}"
  shows "pool_inv c (P\<lparr>p_cleaner := cl\<rparr>)"
  using assms by (auto simp: pool_inv_def pool_simps)

lemma inv_clean_exit:
  assumes "pool_inv c P" and "p_cleaner P = CleanerExit"
  shows "pool_inv c (P\<lparr>p_host := cleanup_exit (p_host P), p_cleaner := CleanerOff\<rparr>)"
  using assms by (auto simp: pool_inv_def pool_simps cleanup_exit_def)

lemma inv_start: "pool_inv c (start_pool c)"
  by (auto simp: pool_inv_def start_pool_def new_host_client_def host_ok_def queue_of_def
    pool_simps cells_def max_conns_def DefaultMaxConnsPerHost_def waiting_in_def)

lemma pool_request_inv:
  assumes "pool_request P P'" and "pool_inv c P"
  shows "pool_inv c P'"
  using assms(1)
proof cases
  case (acquire_full start h timeout d)
  then show ?thesis using inv_acquire_full [OF assms(2)] by simp
qed (simp_all add: inv_acquire_idle [OF assms(2)] inv_acquire_create [OF assms(2)] split del: if_split)

lemma pool_work_inv:
  assumes "pool_work P P'" and "pool_inv c P"
  shows "pool_inv c P'"
  using assms(1)
proof cases
  case (recycle_race cc k h overridden conn w now h')
  show ?thesis
    unfolding recycle_race(1) by (rule inv_recycle_race [OF assms(2) recycle_race(2-7)])
next
  case clean_check
  then show ?thesis using inv_clean_check [OF assms(2)] by simp
qed (simp_all add: inv_enqueue [OF assms(2)]
    inv_served [OF assms(2)] inv_cancel [OF assms(2)] inv_dialed [OF assms(2)] inv_dial_failed [OF assms(2)]
    inv_release [OF assms(2)] inv_recycle [OF assms(2)]
    inv_destroy [OF assms(2)] inv_dialed_for [OF assms(2)] inv_dial_for_failed [OF assms(2)]
    inv_clean_scan [OF assms(2)] inv_clean_destroy [OF assms(2)] inv_clean_exit [OF assms(2)]
    split del: if_split)

lemma pool_step_inv: "pool_step P P' \<Longrightarrow> pool_inv c P \<Longrightarrow> pool_inv c P'"
  by (auto elim: pool_stepE intro: pool_request_inv pool_work_inv)

lemma reach_request: "pool_reachable c P \<Longrightarrow> pool_request P P' \<Longrightarrow> pool_reachable c P'"
  by (rule pool_reachable.step [OF _ pool_step.request])

lemma reach_work: "pool_reachable c P \<Longrightarrow> pool_work P P' \<Longrightarrow> pool_reachable c P'"
  by (rule pool_reachable.step [OF _ pool_step.work])

lemma pool_reachable_inv: "pool_reachable c P \<Longrightarrow> pool_inv c P"
  by (induction rule: pool_reachable.induct) (auto intro: inv_start pool_step_inv)

end
