(* ===== verification/HostProperties.thy ===== *)
theory HostProperties
  imports ConnPool
begin

text \<open>
  The properties of the host client: of its connection pool under every interleaving, of its
  queue, of the cleaner and of the request loop.
\<close>

section \<open>Two runs with one connection\<close>

definition one_conn :: host_config where
  "one_conn = \<lparr>hc_Addr = ''a:1'', hc_Dial = None, hc_DialDualStack = False, hc_MaxConns = 1,
     hc_MaxConnWaitTimeout = 100, hc_MaxIdleConnDuration = 0, hc_MaxIdempotentCallAttempts = 0,
     hc_ReadBufferSize = 0, hc_WriteBufferSize = 0, hc_ReadTimeout = 0, hc_WriteTimeout = 0,
     hc_MaxResponseBodySize = 0\<rparr>"

lemmas run_simps = one_conn_def start_pool_def new_host_client_def acquire_section_def max_conns_def
  acquireClientConn_def zero_clientConn_def tryRecycleClientConn_def next_waiting_def
  recycle_deliver_def wait_duration_def queueWaitingCaller_def clearFront_def
  clearFront_loop.simps peekFront_def empty_queue_def pushBack_def decrementCountOrTryDialForWaitingCaller_def
  cleanup_section_def cleanup_mustStop_def cleanup_exit_def queue_len_def Let_def

abbreviation "conn0 \<equiv> \<lparr>cc_conn = 0, cc_lastUseTime = 0\<rparr>"

abbreviation "host_state conns n q r f \<equiv> \<lparr>h_config = one_conn, h_conns = conns, h_count = n,
  h_queue = q, h_cleanerRunning = r, h_callers = f\<rparr>"

abbreviation "pool_state h ow e a d r cl nc nk \<equiv> \<lparr>p_host = h, p_owned = ow, p_enqueue = e,
  p_active = a, p_dials = d, p_dialing = {#}, p_release = r, p_cleaner = cl, p_nextConn = nc,
  p_nextCaller = nk\<rparr>"

lemma run_start:
  "pool_reachable one_conn (pool_state (host_state [] 1 None True (\<lambda>_. new_caller)) {#} 0 {} 1 0 CleanerScan 0 0)"
  using reach_request [OF pool_reachable.start pool_request.acquire_create [where start = True]]
  by (simp add: run_simps)

text \<open>A request queues after the only connection was given back.\<close>

lemma run_lost_wakeup:
  "pool_reachable one_conn (pool_state
     (host_state [conn0] 1 (Some \<lparr>q_head = [], q_headPos = 0, q_tail = [Some 0]\<rparr>) True
       ((\<lambda>_. new_caller)(0 := new_caller))) {#} 0 {0} 0 0 CleanerScan 1 1)"
proof -
  have 1: "pool_reachable one_conn
      (pool_state (host_state [] 1 None True (\<lambda>_. new_caller)) {#conn0#} 0 {} 0 0 CleanerScan 1 0)"
    using reach_work [OF run_start pool_work.dialed] by (simp add: run_simps)
  have 2: "pool_reachable one_conn
      (pool_state (host_state [] 1 None True (\<lambda>_. new_caller)) {#conn0#} 1 {} 0 0 CleanerScan 1 0)"
    using reach_request [OF 1 pool_request.acquire_full [where timeout = 0 and start = False]] by (simp add: run_simps)
  have 3: "pool_reachable one_conn
      (pool_state (host_state [conn0] 1 None True (\<lambda>_. new_caller)) {#} 1 {} 0 0 CleanerScan 1 0)"
    using reach_work [OF 2 pool_work.recycle [where now = 0 and cc = conn0]] by (simp add: run_simps)
  show ?thesis
    using reach_work [OF 3 pool_work.enqueue] by (simp add: run_simps)
qed

text \<open>The connection is given to the request that waits for it.\<close>

lemma run_answered:
  "pool_reachable one_conn (pool_state
     (host_state [] 1 (Some \<lparr>q_head = [None], q_headPos = 1, q_tail = []\<rparr>) True
       ((\<lambda>_. new_caller)(0 := new_caller, 0 := answered (Some conn0) None))) {#} 0 {0} 0 0 CleanerScan 1 1)"
proof -
  have 1: "pool_reachable one_conn
      (pool_state (host_state [] 1 None True (\<lambda>_. new_caller)) {#conn0#} 0 {} 0 0 CleanerScan 1 0)"
    using reach_work [OF run_start pool_work.dialed] by (simp add: run_simps)
  have 2: "pool_reachable one_conn
      (pool_state (host_state [] 1 None True (\<lambda>_. new_caller)) {#conn0#} 1 {} 0 0 CleanerScan 1 0)"
    using reach_request [OF 1 pool_request.acquire_full [where timeout = 0 and start = False]]
    by (simp add: run_simps)
  have 3: "pool_reachable one_conn (pool_state
     (host_state [] 1 (Some \<lparr>q_head = [], q_headPos = 0, q_tail = [Some 0]\<rparr>) True
       ((\<lambda>_. new_caller)(0 := new_caller))) {#conn0#} 0 {0} 0 0 CleanerScan 1 1)"
    using reach_work [OF 2 pool_work.enqueue] by (simp add: run_simps)
  show ?thesis
    using reach_work [OF 3 pool_work.recycle [where now = 0 and cc = conn0]]
    by (simp add: run_simps pop_waiting_def popFront_def slice_get_def slice_set_def waiting_in_def
      new_caller_ok new_caller_def caller_waiting_def tryDeliver_def close_ready_def answered_def fun_upd_def)
qed

text \<open>A request starts to dial after the cleaner has seen that there are no connections.\<close>

lemma run_no_cleaner:
  "pool_reachable one_conn
     (pool_state (host_state [conn0] 1 None False (\<lambda>_. new_caller)) {#} 0 {} 0 0 CleanerOff 1 0)"
proof -
  have 1: "pool_reachable one_conn
      (pool_state (host_state [] 1 None True (\<lambda>_. new_caller)) {#} 0 {} 0 1 CleanerScan 0 0)"
    using reach_work [OF run_start pool_work.dial_failed] by (simp add: run_simps)
  have 2: "pool_reachable one_conn
      (pool_state (host_state [] 0 None True (\<lambda>_. new_caller)) {#} 0 {} 0 0 CleanerScan 0 0)"
    using reach_work [OF 1 pool_work.release] by (simp add: run_simps)
  have 3: "pool_reachable one_conn
      (pool_state (host_state [] 0 None True (\<lambda>_. new_caller)) {#} 0 {} 0 0 (CleanerDestroy []) 0 0)"
    using reach_work [OF 2 pool_work.clean_scan [where now = 0]] by (simp add: run_simps)
  have 4: "pool_reachable one_conn
      (pool_state (host_state [] 0 None True (\<lambda>_. new_caller)) {#} 0 {} 0 0 CleanerExit 0 0)"
    using reach_work [OF 3 pool_work.clean_check] by (simp add: run_simps)
  have 5: "pool_reachable one_conn
      (pool_state (host_state [] 1 None True (\<lambda>_. new_caller)) {#} 0 {} 1 0 CleanerExit 0 0)"
    using reach_request [OF 4 pool_request.acquire_create [where start = False]] by (simp add: run_simps)
  have 6: "pool_reachable one_conn
      (pool_state (host_state [] 1 None False (\<lambda>_. new_caller)) {#} 0 {} 1 0 CleanerOff 0 0)"
    using reach_work [OF 5 pool_work.clean_exit] by (simp add: run_simps)
  have 7: "pool_reachable one_conn
      (pool_state (host_state [] 1 None False (\<lambda>_. new_caller)) {#conn0#} 0 {} 0 0 CleanerOff 1 0)"
    using reach_work [OF 6 pool_work.dialed] by (simp add: run_simps)
  show ?thesis
    using reach_work [OF 7 pool_work.recycle [where now = 0 and cc = conn0]] by (simp add: run_simps)
qed

section \<open>The pool\<close>

text \<open>
  C9. In every reachable state of a host client and its goroutines, each live connection is in
  exactly one place (the idle list, one request, one waiting caller's cell or the cleaner's
  scratch list), \<open>count\<close> is the number of live connections plus the dials in progress and the
  places about to be given back, and it is between 0 and \<open>MaxConns\<close>.
\<close>

theorem pool_exclusive_bounded:
  assumes "pool_reachable c P"
  shows "count (conn_ids P) i \<le> 1 \<and> h_count (p_host P) = int (places P) \<and>
    h_count (p_host P) \<le> max_conns c"
  using pool_reachable_inv [OF assms] by (simp_all add: pool_inv_def)

lemma pool_exclusive_bounded_witness:
  "\<exists>P. count (conn_ids P) 0 = 1 \<and> h_count (p_host P) = int (places P) \<and> h_count (p_host P) \<le> 1"
  using pool_exclusive_bounded [OF run_lost_wakeup, of 0]
  by (intro exI [of _ "pool_state
     (host_state [conn0] 1 (Some \<lparr>q_head = [], q_headPos = 0, q_tail = [Some 0]\<rparr>) True
       ((\<lambda>_. new_caller)(0 := new_caller))) {#} 0 {0} 0 0 CleanerScan 1 1"])
    (simp add: max_conns_def one_conn_def conn_ids_def live_conns_def cells_def new_caller_def)

text \<open>
  C10. In every reachable state no section of the host client panics: giving a connection or a
  place back, queueing a caller, cancelling a waiting one and delivering to one that a goroutine
  dials for all return. So the channel \<open>ready\<close> of a caller is never closed twice, and no nil
  caller leaves the queue.
\<close>

theorem pool_never_panics:
  assumes "pool_reachable c P"
  shows "tryRecycleClientConn now cc (p_host P) \<noteq> None \<and>
    decrementCountOrTryDialForWaitingCaller (p_host P) \<noteq> None \<and>
    queueWaitingCaller (p_nextCaller P) (p_host P) \<noteq> None \<and>
    (\<forall>k\<in>p_active P. cancel now k (Some err) (p_host P) \<noteq> None) \<and>
    (\<forall>k\<in>#p_dialing P. tryDialForWaitingCaller now k outcome (p_host P) \<noteq> None)"
proof (intro conjI ballI)
  note inv = pool_invD [OF pool_reachable_inv [OF assms]]
  have r: "\<exists>h'. tryRecycleClientConn now cc h = Some h'" if "host_ok (p_nextCaller P) h" for cc h
    using tryRecycleClientConn_eq [OF that, of now cc] by auto
  have d: "\<exists>r. decrementCountOrTryDialForWaitingCaller h = Some r" if "host_ok (p_nextCaller P) h" for h
    using decrement_eq [OF that] by auto
  show "tryRecycleClientConn now cc (p_host P) \<noteq> None" using r [OF inv(2)] by simp
  show "decrementCountOrTryDialForWaitingCaller (p_host P) \<noteq> None" using d [OF inv(2)] by simp
  show "queueWaitingCaller (p_nextCaller P) (p_host P) \<noteq> None"
    using queueWaitingCaller_eq [OF inv(2)] by auto
  show "cancel now k (Some err) (p_host P) \<noteq> None" if "k \<in> p_active P" for k
  proof -
    have "caller_ok (h_callers (p_host P) k)" using host_okD(1) [OF inv(2)] inv(4) that by blast
    then show ?thesis
      using r [OF host_ok_caller [OF inv(2), of "answered None (Some err)" k]]
      by (simp add: cancel_def cancel_caller_eq Let_def split: option.split)
  qed
  show "tryDialForWaitingCaller now k outcome (p_host P) \<noteq> None" if "k \<in># p_dialing P" for k
  proof -
    have ok: "caller_ok (h_callers (p_host P) k)" using host_okD(1) [OF inv(2)] inv(6) that by blast
    show ?thesis
    proof (cases outcome)
      case (Inl e)
      then show ?thesis
        using ok d [OF host_ok_caller [OF inv(2), of "answered None (Some e)" k]] d [OF inv(2)]
        by (auto simp: tryDialForWaitingCaller_def tryDeliver_eq)
    next
      case (Inr conn)
      from r [OF inv(2), of "acquireClientConn conn"] obtain h' where
        "tryRecycleClientConn now (acquireClientConn conn) (p_host P) = Some h'" by blast
      then show ?thesis
        using ok Inr by (simp add: tryDialForWaitingCaller_def tryDeliver_eq Let_def)
    qed
  qed
qed

lemma pool_never_panics_witness:
  "tryRecycleClientConn 5 \<lparr>cc_conn = 3, cc_lastUseTime = 0\<rparr> (host_state [conn0] 1
     (Some \<lparr>q_head = [], q_headPos = 0, q_tail = [Some 0]\<rparr>) True ((\<lambda>_. new_caller)(0 := new_caller))) \<noteq> None"
  using pool_never_panics [OF run_lost_wakeup, of 5 "\<lparr>cc_conn = 3, cc_lastUseTime = 0\<rparr>"] by simp

text \<open>
  The caller cancels: it leaves the \<open>select\<close>, its cell keeps the error only, and the connection
  that the cell held is taken back, to be recycled.
\<close>

definition cancelled :: "nat \<Rightarrow> pool \<Rightarrow> pool \<Rightarrow> bool" where
  "cancelled k P P' \<longleftrightarrow> k \<in> p_active P \<and> p_active P' = p_active P - {k} \<and>
     (\<exists>err. p_host P' = set_caller k (answered None (Some err)) (p_host P)) \<and>
     p_owned P' = mset_option (w_conn (h_callers (p_host P) k)) + p_owned P"

lemma answer_kept:
  assumes "pool_inv c P" and "pool_work P P'" and "k < p_nextCaller P"
    and "w_ready (h_callers (p_host P) k)"
  shows "h_callers (p_host P') k = h_callers (p_host P) k \<or> cancelled k P P'"
proof -
  note inv = pool_invD [OF assms(1)]
  have k: "\<not> waiting_in (p_host P) k" "k \<noteq> p_nextCaller P"
    using assms(3,4) by (auto simp: waiting_in_def caller_waiting_def)
  from assms(2) show ?thesis
  proof cases
    case (enqueue n h)
    then show ?thesis using queueWaitingCaller_eq [OF inv(2)] k(2) by auto
  next
    case (cancel i err overridden conn w)
    then have "caller_ok (h_callers (p_host P) i)" using host_okD(1) [OF inv(2) inv(4)] by blast
    then have "conn = w_conn (h_callers (p_host P) i)" "w = answered None (Some err)"
      using cancel(4) by (simp_all add: cancel_caller_eq)
    then show ?thesis using cancel by (cases "i = k") (auto simp: cancelled_def)
  next
    case (release n d h)
    then show ?thesis using decrement_pool(4) [OF inv(2)] by simp
  next
    case (recycle cc now h)
    then show ?thesis using recycle_pool(5) [OF inv(2) recycle(3)] k(1) by auto
  next
    case (recycle_race cc i h overridden conn w now h')
    then have h: "first_waiter (p_host P) = Some i" "\<exists>q. h = (p_host P)\<lparr>h_queue := q\<rparr>"
      using next_waiting_eq [OF inv(2)] by auto
    then have "waiting_in (p_host P) i"
      using first_waiterD(2) [OF inv(2)] by simp
    then have "i \<noteq> k" "\<exists>q. h = (p_host P)\<lparr>h_queue := q\<rparr>" using k(1) h(2) by auto
    then show ?thesis
      using recycle_race by (auto simp: recycle_deliver_def split: bind_splits if_splits)
  next
    case (destroy cc d h)
    then show ?thesis using decrement_pool(4) [OF inv(2)] by (simp add: destroyClientConn_def)
  next
    case (clean_destroy cc ccs d h)
    then show ?thesis using decrement_pool(4) [OF inv(2)] by (simp add: destroyClientConn_def)
  next
    case (dialed_for i delivered w)
    then show ?thesis
      using tryDeliver_eq [OF host_okD(1) [OF inv(2) inv(6) [OF dialed_for(2)]], of _ None] k(1)
      by (auto simp: waiting_in_def split: if_splits)
  next
    case (dial_for_failed i err delivered w)
    then show ?thesis
      using tryDeliver_eq [OF host_okD(1) [OF inv(2) inv(6) [OF dial_for_failed(2)]], of None "Some err"] k(1)
      by (auto simp: waiting_in_def split: if_splits)
  next
    case (clean_scan now ccs duration h)
    then show ?thesis using cleanup_section_eq by fastforce
  qed (auto simp: cleanup_exit_def split: if_splits)
qed

text \<open>
  C12. A caller is answered once. When it has an answer, no step of any goroutine changes it,
  neither while the caller is there nor after it has left, but for one: the caller's own
  cancellation. That step takes the caller out of the \<open>select\<close> and hands the connection it was
  given back to the goroutine, which recycles it, so it is neither lost nor given to two.
\<close>

theorem answer_is_final:
  assumes "pool_reachable c P" and "pool_step P P'" and "k < p_nextCaller P"
    and "w_ready (h_callers (p_host P) k)"
  shows "h_callers (p_host P') k = h_callers (p_host P) k \<or>
    k \<in> p_active P \<and> p_active P' = p_active P - {k} \<and>
    (\<exists>err. p_host P' = set_caller k (answered None (Some err)) (p_host P)) \<and>
    p_owned P' = mset_option (w_conn (h_callers (p_host P) k)) + p_owned P"
proof -
  from assms(2) consider "pool_request P P'" | (work) "pool_work P P'" by (auto elim: pool_stepE)
  then show ?thesis
  proof cases
    case 1
    then show ?thesis
      by cases (auto simp: acquire_section_def Let_def split: if_splits)
  next
    case work
    then show ?thesis
      using answer_kept [OF pool_reachable_inv [OF assms(1)] _ assms(3,4)] by (simp add: cancelled_def)
  qed
qed

text \<open>A caller that was given a connection, and its timer that ends at the same moment.\<close>

lemma answer_is_final_witness:
  "\<exists>P P'. pool_step P P' \<and> w_conn (h_callers (p_host P) 0) = Some conn0 \<and>
    w_conn (h_callers (p_host P') 0) = None \<and> p_active P' = {} \<and> p_owned P' = {#conn0#}"
proof (intro exI conjI)
  let ?h = "host_state [] 1 (Some \<lparr>q_head = [None], q_headPos = 1, q_tail = []\<rparr>) True
    ((\<lambda>_. new_caller)(0 := new_caller, 0 := answered (Some conn0) None))"
  let ?P = "pool_state ?h {#} 0 {0} 0 0 CleanerScan 1 1"
  let ?P' = "?P\<lparr>p_host := set_caller 0 (answered None (Some ErrNoFreeConns)) ?h,
    p_owned := mset_option (Some conn0) + {#}, p_active := {0} - {0}\<rparr>"
  show step: "pool_step ?P ?P'"
    using pool_step.work [OF pool_work.cancel [of 0 ?P ErrNoFreeConns False "Some conn0"
      "answered None (Some ErrNoFreeConns)"]]
    by (simp add: wait_error_def cancel_caller_eq)
  have "h_callers (p_host ?P') 0 = h_callers (p_host ?P) 0 \<or>
    0 \<in> p_active ?P \<and> p_active ?P' = p_active ?P - {0} \<and>
    (\<exists>err. p_host ?P' = set_caller 0 (answered None (Some err)) (p_host ?P)) \<and>
    p_owned ?P' = mset_option (w_conn (h_callers (p_host ?P) 0)) + p_owned ?P"
    by (rule answer_is_final [OF run_answered step]) simp_all
  moreover have "h_callers (p_host ?P') 0 \<noteq> h_callers (p_host ?P) 0" by (simp add: answered_def)
  ultimately have "p_active ?P' = p_active ?P - {0}"
    "\<exists>err. p_host ?P' = set_caller 0 (answered None (Some err)) (p_host ?P)"
    "p_owned ?P' = mset_option (w_conn (h_callers (p_host ?P) 0)) + p_owned ?P" by blast+
  then show "w_conn (h_callers (p_host ?P') 0) = None" "p_active ?P' = {}" "p_owned ?P' = {#conn0#}"
    by auto
  show "w_conn (h_callers (p_host ?P) 0) = Some conn0" by simp
qed

text \<open>
  C11. In every reachable state, giving a connection back serves the callers in the order in which
  they queued: if the host client lets callers wait and some still wait, the first of them gets
  the connection, the others keep their order, and the idle list does not change; otherwise the
  connection goes to the end of the idle list and no caller is touched. In both cases it carries
  the current time.
\<close>

theorem recycle_serves_first_waiter:
  assumes "pool_reachable c P"
  shows "\<exists>h'. tryRecycleClientConn now cc (p_host P) = Some h' \<and> h_count h' = h_count (p_host P) \<and>
    (case (if hc_MaxConnWaitTimeout c > 0 then waiters (p_host P) else []) of
       k # ks \<Rightarrow> waiters h' = ks \<and> h_conns h' = h_conns (p_host P) \<and>
         h_callers h' = (h_callers (p_host P))(k := answered (Some (cc\<lparr>cc_lastUseTime := now\<rparr>)) None)
     | [] \<Rightarrow> h_conns h' = h_conns (p_host P) @ [cc\<lparr>cc_lastUseTime := now\<rparr>] \<and>
         h_callers h' = h_callers (p_host P))"
proof -
  note inv = pool_invD [OF pool_reachable_inv [OF assms]]
  from tryRecycleClientConn_eq [OF inv(2), of now cc] obtain q where
    q: "tryRecycleClientConn now cc (p_host P) = Some (case serves (p_host P) of
        None \<Rightarrow> (p_host P)\<lparr>h_queue := q, h_conns := h_conns (p_host P) @ [cc\<lparr>cc_lastUseTime := now\<rparr>]\<rparr>
      | Some k \<Rightarrow> (p_host P)\<lparr>h_queue := q,
          h_callers := (h_callers (p_host P))(k := answered (Some (cc\<lparr>cc_lastUseTime := now\<rparr>)) None)\<rparr>)"
    and w: "hc_MaxConnWaitTimeout c > 0 \<longrightarrow> waiters ((p_host P)\<lparr>h_queue := q\<rparr>) = tl (waiters (p_host P))"
    unfolding inv(1) by blast
  show ?thesis
  proof (cases "serves (p_host P)")
    case None
    then have "(if hc_MaxConnWaitTimeout c > 0 then waiters (p_host P) else []) = []"
      using inv(1) by (auto simp: serves_def first_waiter_def split: list.splits if_splits)
    then show ?thesis using None q by simp
  next
    case (Some k)
    obtain ks where ks: "waiters (p_host P) = k # ks" "k \<notin> set ks"
      using servesD(4) [OF inv(2) Some] by blast
    have pos: "hc_MaxConnWaitTimeout c > 0" using Some inv(1) by (simp add: serves_def split: if_splits)
    have "waiters ((p_host P)\<lparr>h_queue := q,
        h_callers := (h_callers (p_host P))(k := answered (Some (cc\<lparr>cc_lastUseTime := now\<rparr>)) None)\<rparr>) = ks"
      using waiters_answered [of "answered (Some (cc\<lparr>cc_lastUseTime := now\<rparr>)) None" "(p_host P)\<lparr>h_queue := q\<rparr>" k]
        w pos ks filter_True [of ks "\<lambda>i. i \<noteq> k"] by fastforce
    then show ?thesis using Some q pos ks by simp
  qed
qed

lemma recycle_serves_first_waiter_witness:
  "\<exists>h'. tryRecycleClientConn 7 \<lparr>cc_conn = 3, cc_lastUseTime = 0\<rparr> (host_state [conn0] 1
     (Some \<lparr>q_head = [], q_headPos = 0, q_tail = [Some 0]\<rparr>) True ((\<lambda>_. new_caller)(0 := new_caller))) = Some h' \<and>
   h_conns h' = [conn0] \<and> w_conn (h_callers h' 0) = Some \<lparr>cc_conn = 3, cc_lastUseTime = 7\<rparr>"
  using recycle_serves_first_waiter [OF run_lost_wakeup, of 7 "\<lparr>cc_conn = 3, cc_lastUseTime = 0\<rparr>"]
  by (auto simp: waiters_def queue_of_def queue_list_def waiting_in_def new_caller_ok one_conn_def)

text \<open>
  C29. In every reachable state, a place that is given back (a destroyed connection or a failed
  dial) goes to the first caller that still waits: a goroutine dials for it and \<open>count\<close> stays;
  without such a caller \<open>count\<close> goes down by one.
\<close>

theorem place_goes_to_first_waiter:
  assumes "pool_reachable c P"
  shows "\<exists>d h'. decrementCountOrTryDialForWaitingCaller (p_host P) = Some (d, h') \<and>
    h_callers h' = h_callers (p_host P) \<and> h_conns h' = h_conns (p_host P) \<and>
    (case (if hc_MaxConnWaitTimeout c > 0 then waiters (p_host P) else []) of
       k # ks \<Rightarrow> d = Some k \<and> waiters h' = ks \<and> h_count h' = h_count (p_host P)
     | [] \<Rightarrow> d = None \<and> h_count h' = h_count (p_host P) - 1)"
proof -
  note inv = pool_invD [OF pool_reachable_inv [OF assms]]
  from decrement_eq [OF inv(2)] obtain q where
    q: "decrementCountOrTryDialForWaitingCaller (p_host P) = Some (serves (p_host P), case serves (p_host P) of
        None \<Rightarrow> (p_host P)\<lparr>h_queue := q, h_count := h_count (p_host P) - 1\<rparr>
      | Some k \<Rightarrow> (p_host P)\<lparr>h_queue := q\<rparr>)"
    and w: "hc_MaxConnWaitTimeout c > 0 \<longrightarrow> waiters ((p_host P)\<lparr>h_queue := q\<rparr>) = tl (waiters (p_host P))"
    unfolding inv(1) by blast
  show ?thesis
    using q w inv(1) by (auto simp: serves_def first_waiter_def split: list.splits)
qed

lemma place_goes_to_first_waiter_witness:
  "\<exists>h'. decrementCountOrTryDialForWaitingCaller (host_state [conn0] 1
     (Some \<lparr>q_head = [], q_headPos = 0, q_tail = [Some 0]\<rparr>) True ((\<lambda>_. new_caller)(0 := new_caller))) =
     Some (Some 0, h') \<and> h_count h' = 1"
  using place_goes_to_first_waiter [OF run_lost_wakeup]
  by (auto simp: waiters_def queue_of_def queue_list_def waiting_in_def new_caller_ok one_conn_def)

text \<open>
  C35. A request that finds neither an idle connection nor a place queues in a second critical
  section. If the last connection is given back in between, the request waits although a
  connection is idle: nobody holds or dials one, so only its timer ends the wait.
\<close>

theorem waits_beside_idle_connection:
  "\<exists>P. pool_reachable one_conn P \<and> waiters (p_host P) = [0] \<and> p_active P = {0} \<and>
     length (h_conns (p_host P)) = 1 \<and> p_owned P = {#} \<and> p_enqueue P = 0 \<and> p_dials P = 0 \<and>
     p_dialing P = {#} \<and> p_release P = 0"
  by (intro exI, intro conjI, rule run_lost_wakeup) (simp_all add: waiters_def queue_of_def queue_list_def waiting_in_def new_caller_ok)

text \<open>
  C36. The cleaner reads \<open>count\<close> in a critical section and resets \<open>cleanerRunning\<close> after it. A
  request that creates a connection in between starts no cleaner, so a connection stays idle
  with no cleaner running.
\<close>

theorem idle_connection_without_cleaner:
  "\<exists>P. pool_reachable one_conn P \<and> length (h_conns (p_host P)) = 1 \<and> h_count (p_host P) = 1 \<and>
     p_cleaner P = CleanerOff \<and> \<not> h_cleanerRunning (p_host P) \<and> p_owned P = {#} \<and> p_dials P = 0"
  by (intro exI, intro conjI, rule run_no_cleaner) simp_all

section \<open>The cleaner\<close>

lemma max_idle_pos: "0 < max_idle c"
  by (simp add: max_idle_def DefaultMaxIdleConnDuration_def)

lemma idle_prefix_filter:
  assumes "sorted (map cc_lastUseTime ccs)"
  shows "take (idle_prefix now limit ccs) ccs = filter (\<lambda>cc. now - cc_lastUseTime cc > limit) ccs \<and>
    drop (idle_prefix now limit ccs) ccs = filter (\<lambda>cc. now - cc_lastUseTime cc \<le> limit) ccs"
  using assms
proof (induction ccs)
  case (Cons cc ccs)
  show ?case
  proof (cases "now - cc_lastUseTime cc > limit")
    case False
    then have "\<forall>x\<in>set ccs. now - cc_lastUseTime x \<le> limit" using Cons.prems by fastforce
    then have "filter (\<lambda>cc. now - cc_lastUseTime cc > limit) ccs = []"
      "filter (\<lambda>cc. now - cc_lastUseTime cc \<le> limit) ccs = ccs"
      by (auto simp: filter_empty_conv filter_id_conv)
    then show ?thesis using False by simp
  qed (use Cons in auto)
qed simp

text \<open>
  C30. When the idle connections are in the order of their last use, a round of the cleaner takes
  exactly those that have been idle for longer than the limit, leaves the others in their order
  and changes nothing else. It then sleeps for a positive time, after which the first of the
  others has passed the limit by one nanosecond.
\<close>

theorem cleanup_takes_idle:
  assumes "sorted (map cc_lastUseTime (h_conns h))"
  shows "\<exists>ccs d h'. cleanup_section now h = (ccs, d, h') \<and>
    ccs = filter (\<lambda>cc. now - cc_lastUseTime cc > max_idle (h_config h)) (h_conns h) \<and>
    h' = h\<lparr>h_conns := filter (\<lambda>cc. now - cc_lastUseTime cc \<le> max_idle (h_config h)) (h_conns h)\<rparr> \<and>
    0 < d \<and> (h_conns h' = [] \<longrightarrow> d = max_idle (h_config h)) \<and>
    (h_conns h' \<noteq> [] \<longrightarrow> (now + d) - cc_lastUseTime (hd (h_conns h')) = max_idle (h_config h) + 1)"
proof -
  let ?l = "max_idle (h_config h)" and ?cs = "h_conns h"
  define i where "i = idle_prefix now ?l ?cs"
  note f = idle_prefix_filter [OF assms, of now ?l, folded i_def]
  have h': "(if i > 0 then h\<lparr>h_conns := drop i ?cs\<rparr> else h) = h\<lparr>h_conns := drop i ?cs\<rparr>" by simp
  have d: "i < length ?cs \<longleftrightarrow> drop i ?cs \<noteq> []" by (simp add: not_le)
  have hd: "hd (drop i ?cs) = ?cs ! i" if "i < length ?cs" using that by (simp add: hd_drop_conv_nth)
  have le: "now - cc_lastUseTime (?cs ! i) \<le> ?l" if "i < length ?cs"
  proof -
    have "?cs ! i \<in> set (drop i ?cs)" using hd [OF that] that by (metis d hd_in_set)
    then show ?thesis using f by auto
  qed
  show ?thesis
    unfolding cleanup_section_def Let_def i_def [symmetric] h' f [THEN conjunct1, symmetric]
      f [THEN conjunct2, symmetric]
    using le hd d max_idle_pos [of "h_config h"] by auto
qed

lemma cleanup_takes_idle_witness:
  "\<exists>d h'. cleanup_section 20000000000 (host_state [conn0, \<lparr>cc_conn = 1, cc_lastUseTime = 15000000000\<rparr>] 2
      None True (\<lambda>_. new_caller)) = ([conn0], d, h') \<and>
    h_conns h' = [\<lparr>cc_conn = 1, cc_lastUseTime = 15000000000\<rparr>] \<and> d = 5000000001"
  using cleanup_takes_idle [of "host_state [conn0, \<lparr>cc_conn = 1, cc_lastUseTime = 15000000000\<rparr>] 2
      None True (\<lambda>_. new_caller)" 20000000000]
  by (auto simp: max_idle_def one_conn_def DefaultMaxIdleConnDuration_def)

section \<open>The request loop\<close>

definition do_final :: "bool \<Rightarrow> bool \<times> net_error option \<Rightarrow> bool" where
  "do_final idempotent r \<longleftrightarrow> (case snd r of None \<Rightarrow> True
     | Some e \<Rightarrow> \<not> fst r \<or> (\<not> idempotent \<and> errors_Is e EOF))"

lemma do_loop_step:
  "0 <s a \<Longrightarrow> do_loop idem out a i err =
     (if do_final idem (out i) then (Suc i, snd (out i)) else do_loop idem out (a + 1) (Suc i) (snd (out i)))"
  by (subst do_loop.simps) (auto simp: do_final_def split: prod.splits option.splits)

lemma do_loop_final:
  assumes "0 < sint a" and "int k < 2 ^ 63 - sint a" and "do_final idem (out (i + k))"
    and "\<And>j. j < k \<Longrightarrow> \<not> do_final idem (out (i + j))"
  shows "do_loop idem out a i err = (Suc (i + k), snd (out (i + k)))"
  using assms
proof (induction k arbitrary: a i err)
  case 0
  then show ?case by (simp add: do_loop_step word_sless_alt)
next
  case (Suc k)
  have a: "0 <s a" using Suc.prems(1) by (simp add: word_sless_alt)
  have a': "sint (a + 1) = sint a + 1" using sint_Suc_64 [OF a] Suc.prems(2) by simp
  have "do_loop idem out (a + 1) (Suc i) (snd (out i)) = (Suc (Suc i + k), snd (out (Suc i + k)))"
    using Suc.prems a' Suc.prems(4) [of "Suc _"] by (intro Suc.IH) auto
  then show ?case using Suc.prems(4) [of 0] by (simp add: do_loop_step [OF a])
qed

lemma do_loop_exhausts:
  assumes "0 < sint a" and "2 ^ 63 - sint a = 1 + int k"
    and "\<And>j. j \<le> k \<Longrightarrow> \<not> do_final idem (out (i + j))"
  shows "do_loop idem out a i err = (Suc (i + k), snd (out (i + k)))"
  using assms
proof (induction k arbitrary: a i err)
  case 0
  have a: "0 <s a" using 0(1) by (simp add: word_sless_alt)
  have "sint (a + 1) < 0" using 0(2) by (simp add: sint_Suc_64 [OF a])
  then have "\<not> 0 <s a + 1" by (simp add: word_sless_alt)
  then have "do_loop idem out (a + 1) (Suc i) (snd (out i)) = (Suc i, snd (out i))"
    by (simp add: do_loop.simps)
  then show ?case using 0(3) [of 0] by (simp add: do_loop_step [OF a])
next
  case (Suc k)
  have a: "0 <s a" using Suc.prems(1) by (simp add: word_sless_alt)
  have a': "sint (a + 1) = sint a + 1" using sint_Suc_64 [OF a] Suc.prems(2) by simp
  have "do_loop idem out (a + 1) (Suc i) (snd (out i)) = (Suc (Suc i + k), snd (out (Suc i + k)))"
    using Suc.prems a' Suc.prems(3) [of "Suc _"] by (intro Suc.IH) auto
  then show ?case using Suc.prems(3) [of 0] by (simp add: do_loop_step [OF a])
qed

text \<open>The bound that \<open>Do\<close> is documented to keep, and what one call of \<open>do\<close> gives its loop.\<close>

definition max_attempts :: "host_config \<Rightarrow> int" where
  "max_attempts c = (if hc_MaxIdempotentCallAttempts c \<le> 0 then DefaultMaxIdempotentCallAttempts
     else hc_MaxIdempotentCallAttempts c)"

definition do_outcome :: "host_config \<Rightarrow> do_env \<Rightarrow> bool \<times> net_error option" where
  "do_outcome c env = (let (retry, err, _) = do_request c env in (retry, err))"

definition Do_error :: "net_error option \<Rightarrow> net_error option" where
  "Do_error err = (case err of Some e \<Rightarrow> if errors_Is e EOF then Some ErrConnectionClosed else err
     | None \<Rightarrow> None)"

lemma HostClient_Do_eq:
  "HostClient_Do c idem env pending = (let (calls, err) =
     do_loop idem (\<lambda>i. do_outcome c (env i)) (word_of_int (max_attempts c)) 0 None
   in (calls, Do_error err, pending))"
  by (simp add: HostClient_Do_def Let_def max_attempts_def do_outcome_def Do_error_def cong: prod.case_cong)

lemma sint_max_attempts:
  "hc_MaxIdempotentCallAttempts c < 2 ^ 63 \<Longrightarrow>
   sint (word_of_int (max_attempts c) :: 64 word) = max_attempts c \<and> 0 < max_attempts c"
  by (simp add: max_attempts_def DefaultMaxIdempotentCallAttempts_def sint_sbintrunc'
    signed_take_bit_int_eq_self)

text \<open>
  The loop of \<open>Do\<close> ends with the first call of \<open>do\<close> that succeeds, must not be retried, or fails
  with \<open>io.EOF\<close> for a request that is not idempotent, whatever \<open>MaxIdempotentCallAttempts\<close> is:
  the calls are counted against \<open>2 ^ 63\<close>.
\<close>

lemma Do_ends:
  assumes "hc_MaxIdempotentCallAttempts c < 2 ^ 63" and "int k < 2 ^ 63 - max_attempts c"
    and "do_final idem (do_outcome c (env k))" and "\<forall>j<k. \<not> do_final idem (do_outcome c (env j))"
  shows "HostClient_Do c idem env pending = (Suc k, Do_error (snd (do_outcome c (env k))), pending)"
  using do_loop_final [of "word_of_int (max_attempts c)" k idem "\<lambda>i. do_outcome c (env i)" 0 None]
    sint_max_attempts [OF assms(1)] assms(2-4)
  by (simp add: HostClient_Do_eq)

text \<open>
  C31. As documented, \<open>Do\<close> repeats an idempotent request while its calls fail with an error that
  may be retried: if the call number \<open>k\<close>, one of the first \<open>MaxIdempotentCallAttempts\<close>, is the
  first that succeeds or must not be retried, \<open>Do\<close> makes the calls up to it and returns what it
  returned, with \<open>io.EOF\<close> as \<open>ErrConnectionClosed\<close>. The number of pending requests is what it was.
  The setting is below \<open>2 ^ 62\<close>.
\<close>

theorem Do_first_final_call:
  assumes "hc_MaxIdempotentCallAttempts c < 2 ^ 62" and "int k < max_attempts c"
    and "snd (do_outcome c (env k)) = None \<or> \<not> fst (do_outcome c (env k))"
    and "\<forall>j<k. snd (do_outcome c (env j)) \<noteq> None \<and> fst (do_outcome c (env j))"
  shows "HostClient_Do c True env pending = (Suc k,
    (case snd (do_outcome c (env k)) of None \<Rightarrow> None
     | Some e \<Rightarrow> Some (if errors_Is e EOF then ErrConnectionClosed else e)), pending)"
proof -
  have "max_attempts c < 2 ^ 62"
    using assms(1) by (simp add: max_attempts_def DefaultMaxIdempotentCallAttempts_def)
  then have "HostClient_Do c True env pending = (Suc k, Do_error (snd (do_outcome c (env k))), pending)"
    using assms by (intro Do_ends) (auto simp: do_final_def split: prod.splits option.splits)
  then show ?thesis by (simp add: Do_error_def split: option.split)
qed

text \<open>
  Other requests do not get what the comment in \<open>Do\<close> promises, a retry if the request is idempotent
  or its connection was closed: one that is not idempotent is given up when its connection was
  closed (\<open>io.EOF\<close>), and repeated after any other error of its connection, such as one of the write.
\<close>

lemma Do_not_idempotent:
  assumes "hc_MaxIdempotentCallAttempts c < 2 ^ 62" and "env 0 = call\<lparr>e_acquired := Inr cc, e_write := Some e\<rparr>"
    and "hc_WriteTimeout c \<le> 0"
  shows "errors_Is e EOF \<Longrightarrow> HostClient_Do c False env pending = (1, Some ErrConnectionClosed, pending)"
    and "\<not> errors_Is e EOF \<Longrightarrow> e_acquired (env 1) = Inl e1 \<Longrightarrow>
      HostClient_Do c False env pending = (2, Do_error (Some e1), pending)"
proof -
  have 0: "do_outcome c (env 0) = (True, Some e)"
    using assms(2,3) by (simp add: do_outcome_def do_request_def)
  have m: "max_attempts c < 2 ^ 62"
    using assms(1) by (simp add: max_attempts_def DefaultMaxIdempotentCallAttempts_def)
  show "errors_Is e EOF \<Longrightarrow> HostClient_Do c False env pending = (1, Some ErrConnectionClosed, pending)"
    using Do_ends [of c 0 False env pending] 0 m assms(1) by (simp add: do_final_def Do_error_def)
  assume e: "\<not> errors_Is e EOF" "e_acquired (env 1) = Inl e1"
  have "do_outcome c (env 1) = (False, Some e1)" using e(2) by (simp add: do_outcome_def do_request_def)
  then show "HostClient_Do c False env pending = (2, Do_error (Some e1), pending)"
    using Do_ends [of c 1 False env pending] 0 m assms(1) e(1) by (simp add: do_final_def)
qed

abbreviation "call_ok \<equiv> \<lparr>e_acquired = Inr conn0, e_setWriteDeadline = None, e_write = None,
  e_flush = None, e_setReadDeadline = None\<rparr>"

lemmas do_simps = do_final_def do_outcome_def do_request_def max_attempts_def one_conn_def
  DefaultMaxIdempotentCallAttempts_def Do_error_def

text \<open>Four calls with a broken connection and a bound of five, the default.\<close>

lemma Do_first_final_call_witness:
  "HostClient_Do one_conn True
     (\<lambda>i. if i < 4 then call_ok\<lparr>e_write := Some (TextError ''reset'')\<rparr> else call_ok) 0 = (5, None, 0)"
  using Do_first_final_call [of one_conn 4
      "\<lambda>i. if i < 4 then call_ok\<lparr>e_write := Some (TextError ''reset'')\<rparr> else call_ok" 0]
  by (simp add: do_simps)

text \<open>
  C32. The loop of \<open>Do\<close> increments its bound instead of its counter. A request all of whose calls
  fail with an error that may be retried is tried until the 64-bit bound overflows, instead of
  \<open>MaxIdempotentCallAttempts\<close> times.
\<close>

theorem Do_ignores_attempt_bound:
  assumes "hc_MaxIdempotentCallAttempts c < 2 ^ 63" and "\<forall>j. \<not> do_final idem (do_outcome c (env j))"
  shows "fst (HostClient_Do c idem env pending) = nat (2 ^ 63 - max_attempts c)"
proof -
  have m: "sint (word_of_int (max_attempts c) :: 64 word) = max_attempts c" "0 < max_attempts c"
    "max_attempts c < 2 ^ 63"
    using sint_max_attempts [OF assms(1)] assms(1)
    by (auto simp: max_attempts_def DefaultMaxIdempotentCallAttempts_def)
  define k where "k = nat (2 ^ 63 - max_attempts c) - 1"
  have k: "2 ^ 63 - max_attempts c = 1 + int k" using m(3) by (simp add: k_def)
  have "do_loop idem (\<lambda>i. do_outcome c (env i)) (word_of_int (max_attempts c)) 0 None =
      (Suc (0 + k), snd (do_outcome c (env (0 + k))))"
    using k m assms(2) by (intro do_loop_exhausts) simp_all
  then show ?thesis using k by (simp add: HostClient_Do_eq)
qed

lemma Do_ignores_attempt_bound_witness:
  "fst (HostClient_Do one_conn True (\<lambda>_. call_ok\<lparr>e_write := Some (TextError ''reset'')\<rparr>) 0) =
     9223372036854775803"
  using Do_ignores_attempt_bound [of one_conn True "\<lambda>_. call_ok\<lparr>e_write := Some (TextError ''reset'')\<rparr>" 0]
  by (simp add: do_simps)

text \<open>
  One call of \<open>do\<close> never loses the connection it acquired: it is destroyed when a deadline, the
  write or the flush fails, and then the request may be retried; otherwise it is recycled and
  there is no error. A call that acquires no connection reports why and is not retried.
\<close>

theorem do_request_returns_connection:
  "case do_request c env of (retry, err, rel) \<Rightarrow>
     (case e_acquired env of
        Inl e \<Rightarrow> \<not> retry \<and> err = Some e \<and> rel = NoConn
      | Inr cc \<Rightarrow> (retry \<longleftrightarrow> err \<noteq> None) \<and> rel = (if err = None then Recycled cc else Destroyed cc) \<and>
          (err = None \<longleftrightarrow> e_write env = None \<and> e_flush env = None \<and>
             \<not> (hc_WriteTimeout c > 0 \<and> e_setWriteDeadline env \<noteq> None) \<and>
             \<not> (hc_ReadTimeout c > 0 \<and> e_setReadDeadline env \<noteq> None)))"
  by (cases "e_acquired env"; cases "e_write env"; cases "e_flush env"; cases "e_setWriteDeadline env";
      cases "e_setReadDeadline env") (simp_all add: do_request_def)

end
