(* ===== verification/ClientMap.thy ===== *)
theory ClientMap
  imports ConnPool
begin

text \<open>
  The client of \<open>sleepytcp/client.go\<close>: one host client per address, made on demand, and a cleaner
  that drops the host clients without connections. The map is an association list; a host client
  is a number, because requests keep the pointer after the map has dropped it.
\<close>

section \<open>The code\<close>

record client_config =
  cl_Dial :: "dial_func option"
  cl_DialDualStack :: bool
  cl_MaxConnsPerHost :: int
  cl_MaxConnWaitTimeout :: int
  cl_MaxIdleConnDuration :: int
  cl_MaxIdempotentCallAttempts :: int
  cl_ReadBufferSize :: int
  cl_WriteBufferSize :: int
  cl_ReadTimeout :: int
  cl_WriteTimeout :: int
  cl_MaxResponseBodySize :: int

text \<open>The literal \<open>&HostClient{...}\<close> names no \<open>MaxIdleConnDuration\<close>, so it is zero.\<close>

definition host_config_of :: "client_config \<Rightarrow> string \<Rightarrow> host_config" where
  "host_config_of c addr = \<lparr>
     hc_Addr = addr,
     hc_Dial = cl_Dial c,
     hc_DialDualStack = cl_DialDualStack c,
     hc_MaxConns = cl_MaxConnsPerHost c,
     hc_MaxConnWaitTimeout = cl_MaxConnWaitTimeout c,
     hc_MaxIdleConnDuration = 0,
     hc_MaxIdempotentCallAttempts = cl_MaxIdempotentCallAttempts c,
     hc_ReadBufferSize = cl_ReadBufferSize c,
     hc_WriteBufferSize = cl_WriteBufferSize c,
     hc_ReadTimeout = cl_ReadTimeout c,
     hc_WriteTimeout = cl_WriteTimeout c,
     hc_MaxResponseBodySize = cl_MaxResponseBodySize c\<rparr>"

text \<open>
  The critical section of \<open>Do\<close>; \<open>clients\<close> is \<^const>\<open>None\<close> for the nil map, \<open>new\<close> the host client that
  is made if there is none. The result: the host client, whether the cleaner starts, the map.
\<close>

definition Client_lookup ::
  "string \<Rightarrow> nat \<Rightarrow> (string \<times> nat) list option \<Rightarrow> nat \<times> bool \<times> (string \<times> nat) list" where
  "Client_lookup addr new clients = (let
     clients = (case clients of None \<Rightarrow> [] | Some m \<Rightarrow> m)
   in case map_of clients addr of
        Some client \<Rightarrow> (client, False, clients)
      | None \<Rightarrow> let
          clients = (addr, new) # clients;
          startCleaner = (length clients = 1)
        in (new, startCleaner, clients))"

text \<open>The body of the loop of \<open>cleanupIdleClients\<close> for one host; \<open>n\<close> is its client's count.\<close>

definition cleanup_host :: "string \<Rightarrow> int \<Rightarrow> (string \<times> nat) list \<Rightarrow> (string \<times> nat) list" where
  "cleanup_host host n clients = (let idle = (n = 0) in
     if idle then filter (\<lambda>(h, _). h \<noteq> host) clients else clients)"

definition cleanup_stops :: "(string \<times> nat) list \<Rightarrow> bool" where
  "cleanup_stops clients \<longleftrightarrow> length clients = 0"

section \<open>All requests and the cleaner\<close>

text \<open>
  The cleaner holds the client's lock while it goes through the map, in any order, but the lock
  of a host only while it reads its count, so the host clients move on meanwhile. \<open>w_requests\<close>
  are the calls of \<open>Do\<close> in progress, by the host client they hold; only they begin requests.
\<close>

datatype map_cleaner = MapOff | MapSleep | MapScan "string list"

record client_world =
  w_config :: client_config
  w_clients :: "(string \<times> nat) list option"
  w_hosts :: "nat \<Rightarrow> pool"
  w_addr :: "nat \<Rightarrow> string"
  w_next :: nat
  w_requests :: "nat multiset"
  w_cleaner :: map_cleaner

definition start_world :: "client_config \<Rightarrow> client_world" where
  "start_world c = \<lparr>w_config = c, w_clients = None, w_hosts = (\<lambda>_. start_pool (host_config_of c [])),
     w_addr = (\<lambda>_. []), w_next = 0, w_requests = {#}, w_cleaner = MapOff\<rparr>"

fun scanning :: "map_cleaner \<Rightarrow> bool" where
  "scanning (MapScan hs) = True"
| "scanning _ = False"

inductive world_step :: "client_world \<Rightarrow> client_world \<Rightarrow> bool" where
  found: "\<not> scanning (w_cleaner W) \<Longrightarrow> Client_lookup addr (w_next W) (w_clients W) = (i, start, m) \<Longrightarrow>
    i \<noteq> w_next W \<Longrightarrow>
    world_step W (W\<lparr>w_clients := Some m, w_requests := add_mset i (w_requests W),
      w_cleaner := (if start then MapSleep else w_cleaner W)\<rparr>)"
| created: "\<not> scanning (w_cleaner W) \<Longrightarrow> Client_lookup addr (w_next W) (w_clients W) = (w_next W, start, m) \<Longrightarrow>
    world_step W (W\<lparr>w_clients := Some m,
      w_hosts := (w_hosts W)(w_next W := start_pool (host_config_of (w_config W) addr)),
      w_addr := (w_addr W)(w_next W := addr), w_next := Suc (w_next W),
      w_requests := add_mset (w_next W) (w_requests W),
      w_cleaner := (if start then MapSleep else w_cleaner W)\<rparr>)"
| request: "i \<in># w_requests W \<Longrightarrow> pool_request (w_hosts W i) P \<Longrightarrow>
    world_step W (W\<lparr>w_hosts := (w_hosts W)(i := P)\<rparr>)"
| work: "i < w_next W \<Longrightarrow> pool_work (w_hosts W i) P \<Longrightarrow>
    world_step W (W\<lparr>w_hosts := (w_hosts W)(i := P)\<rparr>)"
| return: "i \<in># w_requests W \<Longrightarrow> world_step W (W\<lparr>w_requests := w_requests W - {#i#}\<rparr>)"
| scan_start: "w_cleaner W = MapSleep \<Longrightarrow> w_clients W = Some m \<Longrightarrow> mset hs = mset (map fst m) \<Longrightarrow>
    world_step W (W\<lparr>w_cleaner := MapScan hs\<rparr>)"
| scan_host: "w_cleaner W = MapScan (h # hs) \<Longrightarrow> w_clients W = Some m \<Longrightarrow> map_of m h = Some i \<Longrightarrow>
    world_step W (W\<lparr>w_clients := Some (cleanup_host h (h_count (p_host (w_hosts W i))) m),
      w_cleaner := MapScan hs\<rparr>)"
| scan_end: "w_cleaner W = MapScan [] \<Longrightarrow> w_clients W = Some m \<Longrightarrow>
    world_step W (W\<lparr>w_cleaner := (if cleanup_stops m then MapOff else MapSleep)\<rparr>)"

inductive world_reachable :: "client_config \<Rightarrow> client_world \<Rightarrow> bool" for c where
  start: "world_reachable c (start_world c)"
| step: "world_reachable c W \<Longrightarrow> world_step W W' \<Longrightarrow> world_reachable c W'"

section \<open>The invariant\<close>

definition the_map :: "client_world \<Rightarrow> (string \<times> nat) list" where
  "the_map W = (case w_clients W of None \<Rightarrow> [] | Some m \<Rightarrow> m)"

text \<open>What holds of the map and the cleaner: \<open>cleaner_ok\<close> counts the hosts still to be visited.\<close>

fun cleaner_ok :: "map_cleaner \<Rightarrow> (string \<times> nat) list \<Rightarrow> bool" where
  "cleaner_ok MapOff m \<longleftrightarrow> m = []"
| "cleaner_ok MapSleep m \<longleftrightarrow> m \<noteq> []"
| "cleaner_ok (MapScan hs) m \<longleftrightarrow> distinct hs \<and> set hs \<subseteq> fst ` set m"

definition world_inv :: "client_config \<Rightarrow> client_world \<Rightarrow> bool" where
  "world_inv c W \<longleftrightarrow> w_config W = c \<and> distinct (map fst (the_map W)) \<and>
     (\<forall>(a, i)\<in>set (the_map W). i < w_next W \<and> w_addr W i = a) \<and>
     (\<forall>i<w_next W. pool_reachable (host_config_of c (w_addr W i)) (w_hosts W i)) \<and>
     (\<forall>i\<in>#w_requests W. i < w_next W) \<and> cleaner_ok (w_cleaner W) (the_map W) \<and>
     (scanning (w_cleaner W) \<longrightarrow> w_clients W \<noteq> None)"

lemma Client_lookup_found:
  "map_of m addr = Some i \<Longrightarrow> Client_lookup addr new (Some m) = (i, False, m)"
  by (simp add: Client_lookup_def)

lemma Client_lookup_eq:
  "Client_lookup addr new (w_clients W) = (case map_of (the_map W) addr of
     Some i \<Rightarrow> (i, False, the_map W)
   | None \<Rightarrow> (new, the_map W = [], (addr, new) # the_map W))"
  by (simp add: Client_lookup_def the_map_def Let_def split: option.splits)

lemma world_invD:
  assumes "world_inv c W"
  shows "w_config W = c" "distinct (map fst (the_map W))"
    "map_of (the_map W) a = Some i \<Longrightarrow> i < w_next W \<and> w_addr W i = a"
    "i < w_next W \<Longrightarrow> pool_reachable (host_config_of c (w_addr W i)) (w_hosts W i)"
    "i \<in># w_requests W \<Longrightarrow> i < w_next W" "cleaner_ok (w_cleaner W) (the_map W)"
  using assms by (auto simp: world_inv_def dest: map_of_SomeD)

lemma world_inv_pool:
  assumes "world_inv c W" and "i < w_next W" and "pool_step (w_hosts W i) P"
  shows "world_inv c (W\<lparr>w_hosts := (w_hosts W)(i := P)\<rparr>)"
  using assms pool_reachable.step [OF world_invD(4) [OF assms(1,2)] assms(3)]
  by (auto simp: world_inv_def the_map_def)

lemma world_inv_created:
  assumes "world_inv c W" and "\<not> scanning (w_cleaner W)" and "map_of (the_map W) addr = None"
  shows "world_inv c (W\<lparr>w_clients := Some ((addr, w_next W) # the_map W),
      w_hosts := (w_hosts W)(w_next W := start_pool (host_config_of (w_config W) addr)),
      w_addr := (w_addr W)(w_next W := addr), w_next := Suc (w_next W),
      w_requests := add_mset (w_next W) (w_requests W),
      w_cleaner := (if the_map W = [] then MapSleep else w_cleaner W)\<rparr>)"
proof -
  have "addr \<notin> fst ` set (the_map W)" using assms(3) by (simp add: map_of_eq_None_iff)
  moreover have "w_cleaner W = MapSleep" if "the_map W \<noteq> []"
    using that assms(2) world_invD(6) [OF assms(1)] by (cases "w_cleaner W") auto
  ultimately show ?thesis
    using assms(1) by (auto simp: world_inv_def the_map_def less_Suc_eq intro: pool_reachable.start)
qed

lemma world_step_inv:
  assumes "world_step W W'" and "world_inv c W"
  shows "world_inv c W'"
  using assms(1)
proof cases
  case (found addr i start m)
  then have "map_of (the_map W) addr = Some i" "m = the_map W" "\<not> start"
    by (auto simp: Client_lookup_eq split: option.splits)
  then show ?thesis
    using found(1,2) assms(2) world_invD(3) [OF assms(2)] by (auto simp: world_inv_def the_map_def)
next
  case (created addr start m)
  have "map_of (the_map W) addr \<noteq> Some (w_next W)" using world_invD(3) [OF assms(2)] by blast
  then have "map_of (the_map W) addr = None" "start \<longleftrightarrow> the_map W = []" "m = (addr, w_next W) # the_map W"
    using created(3) by (auto simp: Client_lookup_eq split: option.splits)
  then show ?thesis using created(1,2) world_inv_created [OF assms(2)] by simp
next
  case (request i P)
  then show ?thesis
    using world_inv_pool [OF assms(2) world_invD(5) [OF assms(2)]] pool_step.request by blast
next
  case (work i P)
  then show ?thesis using world_inv_pool [OF assms(2)] pool_step.work by blast
next
  case (return i)
  then show ?thesis using assms(2) by (auto simp: world_inv_def the_map_def dest: in_diffD)
next
  case (scan_start m hs)
  then have "distinct hs \<longleftrightarrow> distinct (map fst m)" "set hs = set (map fst m)"
    by (metis mset_eq_imp_distinct_iff, metis mset_eq_setD)
  then show ?thesis using scan_start assms(2) by (auto simp: world_inv_def the_map_def)
next
  case (scan_host h hs m i)
  define m' where "m' = cleanup_host h (h_count (p_host (w_hosts W i))) m"
  have "distinct (map fst m')" "set m' \<subseteq> set m"
    using assms(2) scan_host(3)
    by (auto simp: m'_def cleanup_host_def Let_def world_inv_def the_map_def distinct_map_filter)
  moreover have "distinct hs" "set hs \<subseteq> fst ` set m'"
    using world_invD(6) [OF assms(2)] scan_host(2,3)
    by (simp, force simp: m'_def cleanup_host_def Let_def the_map_def)
  ultimately show ?thesis
    using scan_host assms(2) unfolding m'_def [symmetric] by (auto simp: world_inv_def the_map_def)
next
  case (scan_end m)
  then show ?thesis using assms(2) by (auto simp: world_inv_def the_map_def cleanup_stops_def)
qed

lemma world_reachable_inv: "world_reachable c W \<Longrightarrow> world_inv c W"
proof (induction rule: world_reachable.induct)
  case start
  then show ?case by (simp add: world_inv_def start_world_def the_map_def)
next
  case (step W W')
  then show ?case by (blast intro: world_step_inv)
qed

section \<open>Properties\<close>

text \<open>
  C19. In every reachable state of a client, with any number of requests, goroutines of its host
  clients and the cleaner interleaved: the map has one host client per address, made for that
  address, and no request holds one that was not made; every host client, also one the map has
  dropped, is in a state its own pool can reach, so it has at most \<open>MaxConnsPerHost\<close> connections;
  and when the cleaner is not in the middle of the map, it runs exactly if the map is not empty.
\<close>

theorem client_invariant:
  assumes "world_reachable c W"
  shows "distinct (map fst (the_map W)) \<and>
    (\<forall>a i. map_of (the_map W) a = Some i \<longrightarrow> i < w_next W \<and> w_addr W i = a) \<and>
    (\<forall>i\<in>#w_requests W. i < w_next W) \<and>
    (\<forall>i<w_next W. pool_reachable (host_config_of c (w_addr W i)) (w_hosts W i) \<and>
       h_count (p_host (w_hosts W i)) \<le> max_conns (host_config_of c [])) \<and>
    (scanning (w_cleaner W) \<or> (w_cleaner W = MapOff \<longleftrightarrow> the_map W = []))"
proof -
  note W = world_reachable_inv [OF assms]
  note inv = world_invD [OF W]
  have "h_count (p_host (w_hosts W i)) \<le> max_conns (host_config_of c [])" if "i < w_next W" for i
  proof -
    have "max_conns (host_config_of c (w_addr W i)) = max_conns (host_config_of c [])"
      by (simp add: max_conns_def host_config_of_def)
    then show ?thesis using pool_invD(8) [OF pool_reachable_inv [OF inv(4) [OF that]]] by simp
  qed
  moreover have "scanning (w_cleaner W) \<or> (w_cleaner W = MapOff \<longleftrightarrow> the_map W = [])"
    using inv(6) by (cases "w_cleaner W") auto
  ultimately show ?thesis using inv by blast
qed

text \<open>A run: a request looks up a host client, the cleaner drops it, the request dials.\<close>

definition one_per_host :: client_config where
  "one_per_host = \<lparr>cl_Dial = None, cl_DialDualStack = False, cl_MaxConnsPerHost = 1,
     cl_MaxConnWaitTimeout = 0, cl_MaxIdleConnDuration = 60000000000, cl_MaxIdempotentCallAttempts = 0,
     cl_ReadBufferSize = 0, cl_WriteBufferSize = 0, cl_ReadTimeout = 0, cl_WriteTimeout = 0,
     cl_MaxResponseBodySize = 0\<rparr>"

text \<open>The pool of a host after its first request has found a place and dialed.\<close>

definition fresh_host :: pool where
  "fresh_host = start_pool (host_config_of one_per_host ''a:1'')"

definition dialing_host :: pool where
  "dialing_host = fresh_host\<lparr>p_host := (p_host fresh_host)\<lparr>h_count := 1, h_cleanerRunning := True\<rparr>,
     p_dials := 1, p_cleaner := CleanerScan\<rparr>"

definition dialed_host :: pool where
  "dialed_host = dialing_host\<lparr>p_owned := {#acquireClientConn 0#}, p_dials := 0, p_nextConn := 1\<rparr>"

lemmas host_defs = fresh_host_def dialing_host_def dialed_host_def start_pool_def
  new_host_client_def host_config_of_def one_per_host_def

lemma host_request: "pool_request fresh_host dialing_host"
  using pool_request.acquire_create [of fresh_host True "p_host dialing_host"]
  by (simp add: host_defs acquire_section_def max_conns_def Let_def)

lemma host_dialed: "pool_work dialing_host dialed_host"
  using pool_work.dialed [of dialing_host 0] by (simp add: host_defs)

abbreviation "world m hosts addrs n rs cl \<equiv> \<lparr>w_config = one_per_host, w_clients = m, w_hosts = hosts,
  w_addr = addrs, w_next = n, w_requests = rs, w_cleaner = cl\<rparr>"

lemma world_dial:
  assumes "world_reachable c W" and "i \<in># w_requests W" and "w_hosts W i = fresh_host"
  shows "world_reachable c (W\<lparr>w_hosts := (w_hosts W)(i := dialed_host)\<rparr>)"
proof -
  have 1: "world_reachable c (W\<lparr>w_hosts := (w_hosts W)(i := dialing_host)\<rparr>)"
    using world_reachable.step [OF assms(1) world_step.request [OF assms(2), of dialing_host]]
      host_request assms(3) by simp
  have "i < w_next W" using world_invD(5) [OF world_reachable_inv [OF assms(1)] assms(2)] .
  then show ?thesis
    using world_reachable.step [OF 1 world_step.work [of i _ dialed_host]] host_dialed by simp
qed

lemma run_two_hosts:
  defines "h0 \<equiv> \<lambda>_. start_pool (host_config_of one_per_host [])"
  shows "world_reachable one_per_host (world (Some [(''a:1'', 1)])
    (h0(0 := fresh_host, 0 := dialed_host, 1 := fresh_host, 1 := dialed_host))
    ((\<lambda>_. [])(0 := ''a:1'', 1 := ''a:1'')) 2 {#1, 0#} MapSleep)"
proof -
  let ?a = "(\<lambda>_. [])(0 := ''a:1'')"
  have 1: "world_reachable one_per_host
      (world (Some [(''a:1'', 0)]) (h0(0 := fresh_host)) ?a 1 {#0#} MapSleep)"
    using world_reachable.step [OF world_reachable.start world_step.created [of _ "''a:1''" True]]
    by (simp add: start_world_def Client_lookup_def h0_def fresh_host_def)
  have 2: "world_reachable one_per_host
      (world (Some [(''a:1'', 0)]) (h0(0 := fresh_host)) ?a 1 {#0#} (MapScan [''a:1'']))"
    using world_reachable.step [OF 1 world_step.scan_start [of _ _ "[''a:1'']"]] by simp
  have 3: "world_reachable one_per_host
      (world (Some []) (h0(0 := fresh_host)) ?a 1 {#0#} (MapScan []))"
    using world_reachable.step [OF 2 world_step.scan_host [of _ "''a:1''" "[]" "[(''a:1'', 0)]" 0]]
    by (simp add: cleanup_host_def Let_def fresh_host_def start_pool_def new_host_client_def)
  have 4: "world_reachable one_per_host
      (world (Some []) (h0(0 := fresh_host)) ?a 1 {#0#} MapOff)"
    using world_reachable.step [OF 3 world_step.scan_end] by (simp add: cleanup_stops_def)
  have 5: "world_reachable one_per_host
      (world (Some []) (h0(0 := fresh_host, 0 := dialed_host)) ?a 1 {#0#} MapOff)"
    using world_dial [OF 4, of 0] by simp
  have 6: "world_reachable one_per_host (world (Some [(''a:1'', 1)])
      (h0(0 := fresh_host, 0 := dialed_host, 1 := fresh_host)) (?a(1 := ''a:1'')) 2 {#1, 0#} MapSleep)"
    using world_reachable.step [OF 5 world_step.created [of _ "''a:1''" True]]
    by (simp add: Client_lookup_def fresh_host_def numeral_2_eq_2)
  show ?thesis using world_dial [OF 6, of 1] by simp
qed

lemma client_invariant_witness:
  "\<exists>W. length (the_map W) = 1 \<and> w_next W = 2 \<and> w_cleaner W \<noteq> MapOff \<and>
     h_count (p_host (w_hosts W 0)) \<le> 1"
proof (intro exI conjI)
  let ?W = "world (Some [(''a:1'', 1)])
    ((\<lambda>_. start_pool (host_config_of one_per_host []))
      (0 := fresh_host, 0 := dialed_host, 1 := fresh_host, 1 := dialed_host))
    ((\<lambda>_. [])(0 := ''a:1'', 1 := ''a:1'')) 2 {#1, 0#} MapSleep"
  note inv = client_invariant [OF run_two_hosts]
  show "h_count (p_host (w_hosts ?W 0)) \<le> 1"
  proof -
    have "max_conns (host_config_of one_per_host []) = 1"
      by (simp add: max_conns_def host_config_of_def one_per_host_def)
    moreover have "0 < w_next ?W" by simp
    ultimately show ?thesis using inv by metis
  qed
  show "w_cleaner ?W \<noteq> MapOff" by simp
qed (simp_all add: the_map_def)

text \<open>
  C33. The cleaner can drop a host client that a request has looked up and not yet used. The next
  request for the address makes another one, and the client has two live connections to one
  address although \<open>MaxConnsPerHost\<close> is 1.
\<close>

theorem client_exceeds_MaxConnsPerHost:
  "\<exists>W. world_reachable one_per_host W \<and> cl_MaxConnsPerHost one_per_host = 1 \<and>
     w_addr W 0 = w_addr W 1 \<and>
     size (live_conns (w_hosts W 0)) = 1 \<and> size (live_conns (w_hosts W 1)) = 1"
  by (intro exI, intro conjI, rule run_two_hosts)
    (simp_all add: host_defs live_conns_def cells_def)

text \<open>
  No host client of a client ever uses the client's \<open>MaxIdleConnDuration\<close>: their cleaners
  close connections after the default ten seconds, whatever was configured.
\<close>

theorem client_ignores_MaxIdleConnDuration:
  assumes "world_reachable c W" and "i < w_next W"
  shows "max_idle (h_config (p_host (w_hosts W i))) = 10 * 1000000000"
  using pool_invD(1) [OF pool_reachable_inv [OF world_invD(4) [OF world_reachable_inv [OF assms(1)] assms(2)]]]
  by (simp add: max_idle_def host_config_of_def DefaultMaxIdleConnDuration_def)

lemma client_ignores_MaxIdleConnDuration_witness:
  "cl_MaxIdleConnDuration one_per_host = 60000000000 \<and> max_idle (h_config (p_host dialed_host)) = 10000000000"
  using client_ignores_MaxIdleConnDuration [OF run_two_hosts, of 1] by (simp add: one_per_host_def)

end
