(* ===== verification/Rpc.thy ===== *)
theory Rpc
  imports ObjectPool NetErrors
begin

text \<open>
  The frames of \<open>sleepytcp/rpc.go\<close>. The body is a pointer to a pooled \<open>ByteBuffer\<close>; a frame owns
  it from \<open>bodyBuffer\<close> to \<open>Reset\<close>, so its contents stand for it. \<open>pooled\<close> is the contents of
  the buffer that \<open>frameBodyPool.Get\<close> returns: the package \<open>bytebufferpool\<close> promises an empty one.
\<close>

record frame =
  fr_addr :: string
  fr_Idempotent :: bool
  fr_Timeout :: int
  fr_body :: "bytes option"

definition zero_Frame :: frame where
  "zero_Frame = \<lparr>fr_addr = [], fr_Idempotent = False, fr_Timeout = 0, fr_body = None\<rparr>"

definition bodyBuffer :: "bytes \<Rightarrow> frame \<Rightarrow> bytes \<times> frame" where
  "bodyBuffer pooled r = (let
     r = (if fr_body r = None then r\<lparr>fr_body := Some pooled\<rparr> else r)
   in (the (fr_body r), r))"

text \<open>A nil slice is \<^const>\<open>None\<close>.\<close>

definition bodyBytes :: "frame \<Rightarrow> bytes option" where
  "bodyBytes r = fr_body r"

text \<open>\<open>write\<close> is the \<open>Write\<close> of the \<open>bufio.Writer\<close>; the result is its error.\<close>

definition WriteTo ::
  "(bytes \<Rightarrow> 'w \<Rightarrow> net_error option \<times> 'w) \<Rightarrow> frame \<Rightarrow> 'w \<Rightarrow> net_error option \<times> 'w" where
  "WriteTo write r dst = (let body = (case bodyBytes r of None \<Rightarrow> [] | Some b \<Rightarrow> b) in
     if length body = 0 then (None, dst)
     else let (err, dst) = write body dst in (err, dst))"

definition AppendBody :: "bytes \<Rightarrow> bytes \<Rightarrow> frame \<Rightarrow> frame" where
  "AppendBody pooled b r = (let (buf, r) = bodyBuffer pooled r in r\<lparr>fr_body := Some (buf @ b)\<rparr>)"

definition Body :: "bytes \<Rightarrow> frame \<Rightarrow> bytes \<times> frame" where
  "Body pooled r = bodyBuffer pooled r"

text \<open>The buffer's own \<open>Reset\<close> empties it and its \<open>Write\<close> appends.\<close>

definition SetBody :: "bytes \<Rightarrow> bytes \<Rightarrow> frame \<Rightarrow> frame" where
  "SetBody pooled b r = (let (buf, r) = bodyBuffer pooled r; buf = [] in
     r\<lparr>fr_body := Some (buf @ b)\<rparr>)"

definition SetAddr :: "string \<Rightarrow> frame \<Rightarrow> frame" where
  "SetAddr addr r = r\<lparr>fr_addr := addr\<rparr>"

text \<open>The buffer goes back to its pool.\<close>

definition Frame_Reset :: "frame \<Rightarrow> frame" where
  "Frame_Reset r = (let r = (if fr_body r \<noteq> None then r\<lparr>fr_body := None\<rparr> else r)
   in r\<lparr>fr_Timeout := 0\<rparr>)"

text \<open>\<open>AcquireFrame\<close> and \<open>ReleaseFrame\<close> on the pool of frames.\<close>

definition frame_pool_run :: "frame multiset \<Rightarrow> frame pool_op list \<Rightarrow> (frame multiset \<times> frame list) option" where
  "frame_pool_run = pool_run zero_Frame Frame_Reset"

text \<open>What is promised of a frame from the pool.\<close>

definition frame_clean :: "frame \<Rightarrow> bool" where
  "frame_clean r \<longleftrightarrow> fr_body r = None \<and> fr_Timeout r = 0"

interpretation frames: recycling zero_Frame Frame_Reset frame_clean
  by unfold_locales (simp_all add: zero_Frame_def Frame_Reset_def frame_clean_def)

text \<open>
  C25. Every frame that the pool hands out, in any history of acquiring and releasing, has no body
  and no timeout, so a body that is appended in pieces to it is written out as exactly these
  pieces, in one call of the writer (none for an empty body), whatever the frame was used for
  before.
\<close>

theorem acquired_frame_writes_body:
  assumes "frame_pool_run {#} cs = Some (pool, out)" and "r \<in> set out" and pooled: "pooled = []"
  shows "fr_Timeout r = 0 \<and> WriteTo write (fold (AppendBody pooled) bs r) dst =
    (if concat bs = [] then (None, dst) else write (concat bs) dst)"
proof -
  have r: "fr_body r = None" "fr_Timeout r = 0"
    using frames.pool_run_clean [OF assms(1) [unfolded frame_pool_run_def]] assms(2)
    by (auto simp: frame_clean_def)
  have "fr_body (fold (AppendBody pooled) bs q) = (if bs = [] then fr_body q
      else Some ((case fr_body q of None \<Rightarrow> [] | Some b \<Rightarrow> b) @ concat bs))" for q
  proof (induction bs arbitrary: q)
    case (Cons b bs)
    then show ?case using pooled by (auto simp: AppendBody_def bodyBuffer_def Let_def split: option.split)
  qed simp
  then have "(case bodyBytes (fold (AppendBody pooled) bs r) of None \<Rightarrow> [] | Some b \<Rightarrow> b) = concat bs"
    using r(1) by (simp add: bodyBytes_def)
  then show ?thesis using r(2) by (simp add: WriteTo_def Let_def)
qed

lemma acquired_frame_writes_body_witness:
  "\<exists>pool r. frame_pool_run {#} [Put (SetBody [] [9, 9] (zero_Frame\<lparr>fr_Timeout := 5\<rparr>)), Get (Some zero_Frame)] =
     Some (pool, [r]) \<and> WriteTo (\<lambda>b w. (None, w @ [b])) (fold (AppendBody []) [[1], [2, 3]] r) [] = (None, [[1, 2, 3]])"
proof -
  let ?ops = "[Put (SetBody [] [9, 9] (zero_Frame\<lparr>fr_Timeout := 5\<rparr>)), Get (Some zero_Frame)]"
  have run: "frame_pool_run {#} ?ops = Some ({#}, [zero_Frame])"
    by (simp add: frame_pool_run_def Frame_Reset_def SetBody_def bodyBuffer_def zero_Frame_def)
  from acquired_frame_writes_body [OF run, of zero_Frame "[]" "\<lambda>b w. (None, w @ [b])" "[[1], [2, 3]]" "[]"]
  show ?thesis using run by auto
qed

text \<open>
  \<open>Reset\<close> leaves the address and the permission to retry: a frame that was released by one
  user and acquired by another is still sent to the address, and retried like the request, of the
  first.
\<close>

theorem reused_frame_keeps_address:
  "\<exists>pool r. frame_pool_run {#} [Put ((SetAddr a zero_Frame)\<lparr>fr_Idempotent := True\<rparr>), Get (Some r)] =
     Some (pool, [r]) \<and> fr_addr r = a \<and> fr_Idempotent r"
  by (intro exI [of _ "Frame_Reset ((SetAddr a zero_Frame)\<lparr>fr_Idempotent := True\<rparr>)"] exI [of _ "{#}"])
    (simp add: frame_pool_run_def Frame_Reset_def SetAddr_def zero_Frame_def)

text \<open>What was set is what is read, and what is read is what is written.\<close>

lemma SetBody_Body: "Body pooled (SetBody pooled' b r) = (b, SetBody pooled' b r)"
  by (simp add: Body_def SetBody_def bodyBuffer_def Let_def split: option.splits)

lemma SetBody_WriteTo:
  "WriteTo write (SetBody pooled b r) dst = (if b = [] then (None, dst) else write b dst)"
  by (simp add: WriteTo_def SetBody_def bodyBuffer_def bodyBytes_def Let_def)

end
