(* ===== verification/Timer.thy ===== *)
theory Timer
  imports Prelude "HOL-Library.Multiset"
begin

text \<open>
  The timers of \<open>sleepytcp/timer.go\<close> and their pool. A \<open>time.Timer\<close> is the time when it fires,
  as long as it is active, its channel, which holds at most one tick, and the ticks that the
  runtime is about to send; a tick is the time it was sent. The runtime of Go 1.14, the version
  of \<open>go.mod\<close>, fires a timer in two steps: the timer becomes inactive, and later its tick is sent
  unless the channel is full. Everything else can happen in between. \<open>Stop\<close> and \<open>Reset\<close> report
  whether the timer was active and leave the channel and a tick on its way alone.
\<close>

record timer =
  t_when :: "int option"
  t_sending :: nat
  t_C :: "int option"

definition NewTimer :: "int \<Rightarrow> int \<Rightarrow> timer" where
  "NewTimer now timeout = \<lparr>t_when = Some (now + timeout), t_sending = 0, t_C = None\<rparr>"

definition timer_Reset :: "int \<Rightarrow> int \<Rightarrow> timer \<Rightarrow> bool \<times> timer" where
  "timer_Reset now timeout t = (t_when t \<noteq> None, t\<lparr>t_when := Some (now + timeout)\<rparr>)"

definition timer_Stop :: "timer \<Rightarrow> bool \<times> timer" where
  "timer_Stop t = (t_when t \<noteq> None, t\<lparr>t_when := None\<rparr>)"

text \<open>The two steps of a timer that fires.\<close>

definition timer_expire :: "timer \<Rightarrow> timer" where
  "timer_expire t = t\<lparr>t_when := None, t_sending := t_sending t + 1\<rparr>"

definition timer_send :: "int \<Rightarrow> timer \<Rightarrow> timer" where
  "timer_send now t = t\<lparr>t_sending := t_sending t - 1,
     t_C := (case t_C t of None \<Rightarrow> Some now | Some c \<Rightarrow> Some c)\<rparr>"

section \<open>The code\<close>

text \<open>\<^const>\<open>None\<close> is the panic on an active timer.\<close>

definition initTimer :: "int \<Rightarrow> timer option \<Rightarrow> int \<Rightarrow> timer option" where
  "initTimer now t timeout = (case t of
     None \<Rightarrow> Some (NewTimer now timeout)
   | Some t \<Rightarrow> let (active, t) = timer_Reset now timeout t in if active then None else Some t)"

definition stopTimer :: "timer \<Rightarrow> timer" where
  "stopTimer t = (let (active, t) = timer_Stop t in
     if \<not> active then (case t_C t of Some _ \<Rightarrow> t\<lparr>t_C := None\<rparr> | None \<Rightarrow> t) else t)"

text \<open>\<open>v\<close> is what the pool returns.\<close>

definition AcquireTimer :: "int \<Rightarrow> timer option \<Rightarrow> int \<Rightarrow> timer option" where
  "AcquireTimer now v timeout = (case v of
     None \<Rightarrow> Some (NewTimer now timeout)
   | Some t \<Rightarrow> initTimer now (Some t) timeout)"

definition ReleaseTimer :: "timer \<Rightarrow> timer" where
  "ReleaseTimer t = stopTimer t"

section \<open>All users of the pool\<close>

text \<open>
  The clock, the pool, and the timers in use by the number of their user, each with the time when
  it has to fire at the earliest. A user acquires a timer, may receive a tick, and releases the
  timer; time passes, an active timer expires when its time has come, and the tick of an expired
  timer is sent at any time afterwards. Every timer has a mark, which the code does not see: it
  was once released between its expiry and its tick.
\<close>

record timers =
  ts_now :: int
  ts_pool :: "(timer \<times> bool) multiset"
  ts_used :: "nat \<Rightarrow> (timer \<times> int \<times> bool) option"

definition no_timers :: timers where
  "no_timers = \<lparr>ts_now = 0, ts_pool = {#}, ts_used = (\<lambda>_. None)\<rparr>"

inductive timer_step :: "timers \<Rightarrow> timers \<Rightarrow> bool" where
  acquire_new: "ts_used s u = None \<Longrightarrow> AcquireTimer (ts_now s) None timeout = Some t \<Longrightarrow>
    timer_step s (s\<lparr>ts_used := (ts_used s)(u \<mapsto> (t, ts_now s + timeout, False))\<rparr>)"
| acquire_pooled: "ts_used s u = None \<Longrightarrow> (v, r) \<in># ts_pool s \<Longrightarrow>
    AcquireTimer (ts_now s) (Some v) timeout = Some t \<Longrightarrow>
    timer_step s (s\<lparr>ts_pool := ts_pool s - {#(v, r)#},
      ts_used := (ts_used s)(u \<mapsto> (t, ts_now s + timeout, r))\<rparr>)"
| receive: "ts_used s u = Some (t, d, r) \<Longrightarrow> t_C t = Some c \<Longrightarrow>
    timer_step s (s\<lparr>ts_used := (ts_used s)(u \<mapsto> (t\<lparr>t_C := None\<rparr>, d, r))\<rparr>)"
| release_used: "ts_used s u = Some (t, d, r) \<Longrightarrow>
    timer_step s (s\<lparr>ts_pool := add_mset (ReleaseTimer t, r \<or> t_sending t \<noteq> 0) (ts_pool s),
      ts_used := (ts_used s)(u := None)\<rparr>)"
| expire_used: "ts_used s u = Some (t, d, r) \<Longrightarrow> t_when t = Some w \<Longrightarrow> w \<le> ts_now s \<Longrightarrow>
    timer_step s (s\<lparr>ts_used := (ts_used s)(u \<mapsto> (timer_expire t, d, r))\<rparr>)"
| send_used: "ts_used s u = Some (t, d, r) \<Longrightarrow> t_sending t \<noteq> 0 \<Longrightarrow>
    timer_step s (s\<lparr>ts_used := (ts_used s)(u \<mapsto> (timer_send (ts_now s) t, d, r))\<rparr>)"
| expire_pooled: "(v, r) \<in># ts_pool s \<Longrightarrow> t_when v = Some w \<Longrightarrow> w \<le> ts_now s \<Longrightarrow>
    timer_step s (s\<lparr>ts_pool := add_mset (timer_expire v, r) (ts_pool s - {#(v, r)#})\<rparr>)"
| send_pooled: "(v, r) \<in># ts_pool s \<Longrightarrow> t_sending v \<noteq> 0 \<Longrightarrow>
    timer_step s (s\<lparr>ts_pool := add_mset (timer_send (ts_now s) v, r) (ts_pool s - {#(v, r)#})\<rparr>)"
| drop_pooled: "timer_step s (s\<lparr>ts_pool := ts_pool s - {#v#}\<rparr>)"
| tick: "0 \<le> d \<Longrightarrow> timer_step s (s\<lparr>ts_now := ts_now s + d\<rparr>)"

inductive timers_reachable :: "timers \<Rightarrow> bool" where
  start: "timers_reachable no_timers"
| step: "timers_reachable s \<Longrightarrow> timer_step s s' \<Longrightarrow> timers_reachable s'"

text \<open>
  A pooled timer is inactive, and at rest if it has no mark. A used one without a mark expires,
  and its tick is sent, no earlier than it has to.
\<close>

definition at_rest :: "timer \<times> bool \<Rightarrow> bool" where
  "at_rest p \<longleftrightarrow> t_when (fst p) = None \<and> (\<not> snd p \<longrightarrow> t_sending (fst p) = 0 \<and> t_C (fst p) = None)"

definition on_time :: "int \<Rightarrow> timer \<Rightarrow> int \<Rightarrow> bool" where
  "on_time now t d \<longleftrightarrow> (\<forall>w. t_when t = Some w \<longrightarrow> d \<le> w \<and> t_sending t = 0 \<and> t_C t = None) \<and>
     (t_sending t \<noteq> 0 \<longrightarrow> d \<le> now) \<and> t_sending t \<le> 1 \<and> (\<forall>c. t_C t = Some c \<longrightarrow> d \<le> c \<and> t_sending t = 0)"

definition timers_ok :: "timers \<Rightarrow> bool" where
  "timers_ok s \<longleftrightarrow> (\<forall>p\<in>#ts_pool s. at_rest p) \<and>
     (\<forall>u t d. ts_used s u = Some (t, d, False) \<longrightarrow> on_time (ts_now s) t d)"

lemma timers_okI [intro]:
  "(\<And>p. p \<in># ts_pool s \<Longrightarrow> at_rest p) \<Longrightarrow>
   (\<And>u t d. ts_used s u = Some (t, d, False) \<Longrightarrow> on_time (ts_now s) t d) \<Longrightarrow> timers_ok s"
  by (auto simp: timers_ok_def)

lemma timers_ok_pool: "timers_ok s \<Longrightarrow> p \<in># ts_pool s \<Longrightarrow> at_rest p"
  by (simp add: timers_ok_def)

lemma timers_ok_used: "timers_ok s \<Longrightarrow> ts_used s u = Some (t, d, False) \<Longrightarrow> on_time (ts_now s) t d"
  by (simp add: timers_ok_def)

lemma AcquireTimer_inactive:
  "t_when v = None \<Longrightarrow> AcquireTimer now (Some v) timeout = Some (v\<lparr>t_when := Some (now + timeout)\<rparr>)"
  by (simp add: AcquireTimer_def initTimer_def timer_Reset_def)

lemma AcquireTimer_new: "AcquireTimer now None timeout = Some (NewTimer now timeout)"
  by (simp add: AcquireTimer_def)

lemma NewTimer_on_time: "on_time now (NewTimer now timeout) (now + timeout)"
  by (simp add: on_time_def NewTimer_def)

lemma acquired_on_time:
  "at_rest (v, False) \<Longrightarrow> on_time now (v\<lparr>t_when := Some (now + timeout)\<rparr>) (now + timeout)"
  by (simp add: on_time_def at_rest_def)

lemma received_on_time: "on_time now t d \<Longrightarrow> on_time now (t\<lparr>t_C := None\<rparr>) d"
  by (auto simp: on_time_def)

lemma expire_on_time:
  "on_time now t d \<Longrightarrow> t_when t = Some w \<Longrightarrow> w \<le> now \<Longrightarrow> on_time now (timer_expire t) d"
  by (auto simp: on_time_def timer_expire_def)

lemma send_on_time: "on_time now t d \<Longrightarrow> t_sending t \<noteq> 0 \<Longrightarrow> on_time now (timer_send now t) d"
  by (cases "t_when t") (auto simp: on_time_def timer_send_def split: option.splits)

lemma later_on_time: "on_time now t d \<Longrightarrow> 0 \<le> k \<Longrightarrow> on_time (now + k) t d"
  by (auto simp: on_time_def)

lemma ReleaseTimer_at_rest:
  assumes "\<not> r \<longrightarrow> on_time now t d"
  shows "at_rest (ReleaseTimer t, r \<or> t_sending t \<noteq> 0)"
  using assms
  by (auto simp: ReleaseTimer_def stopTimer_def timer_Stop_def at_rest_def on_time_def Let_def
    split: option.splits)

lemma send_at_rest: "at_rest (v, r) \<Longrightarrow> t_sending v \<noteq> 0 \<Longrightarrow> at_rest (timer_send now v, r)"
  by (auto simp: at_rest_def timer_send_def)

lemma timers_ok_update:
  assumes "timers_ok s" and "\<not> r \<longrightarrow> on_time (ts_now s) t d" and "P \<subseteq># ts_pool s"
  shows "timers_ok (s\<lparr>ts_pool := P, ts_used := (ts_used s)(u \<mapsto> (t, d, r))\<rparr>)"
  using assms by (auto simp: timers_ok_def dest: mset_subset_eqD)

lemmas timers_ok_use = timers_ok_update [where P = "ts_pool s" and s = s for s, simplified]

lemma timers_ok_pooled:
  assumes "timers_ok s" and "at_rest p"
  shows "timers_ok (s\<lparr>ts_pool := add_mset p (ts_pool s - M)\<rparr>)"
  using assms by (auto simp: timers_ok_def dest: in_diffD)

lemma timer_step_ok:
  assumes "timer_step s s'" and ok: "timers_ok s"
  shows "timers_ok s'"
  using assms(1)
proof cases
  case (acquire_new u timeout t)
  then have "\<not> False \<longrightarrow> on_time (ts_now s) t (ts_now s + timeout)"
    by (auto simp: AcquireTimer_new NewTimer_on_time)
  then show ?thesis using acquire_new(1) timers_ok_use [OF ok, of False] by simp
next
  case (acquire_pooled u v r timeout t)
  then have rest: "at_rest (v, r)" using ok timers_ok_pool by blast
  then have t: "t = v\<lparr>t_when := Some (ts_now s + timeout)\<rparr>"
    using acquire_pooled(4) AcquireTimer_inactive [of v] by (simp add: at_rest_def)
  have "\<not> r \<longrightarrow> on_time (ts_now s) t (ts_now s + timeout)"
    using rest acquired_on_time t by (cases r) auto
  then show ?thesis using acquire_pooled(1) timers_ok_update [OF ok] by simp
next
  case (receive u t d r c)
  then have "\<not> r \<longrightarrow> on_time (ts_now s) (t\<lparr>t_C := None\<rparr>) d"
    using ok timers_ok_used received_on_time by (cases r) auto
  then show ?thesis using receive(1) timers_ok_use [OF ok] by simp
next
  case (release_used u t d r)
  then have "\<not> r \<longrightarrow> on_time (ts_now s) t d" using ok timers_ok_used by (cases r) auto
  then have "at_rest (ReleaseTimer t, r \<or> t_sending t \<noteq> 0)" by (rule ReleaseTimer_at_rest)
  then show ?thesis using release_used(1) ok by (auto simp: timers_ok_def)
next
  case (expire_used u t d r w)
  then have "\<not> r \<longrightarrow> on_time (ts_now s) (timer_expire t) d"
    using ok timers_ok_used expire_on_time by (cases r) auto
  then show ?thesis using expire_used(1) timers_ok_use [OF ok] by simp
next
  case (send_used u t d r)
  then have "\<not> r \<longrightarrow> on_time (ts_now s) (timer_send (ts_now s) t) d"
    using ok timers_ok_used send_on_time by (cases r) auto
  then show ?thesis using send_used(1) timers_ok_use [OF ok] by simp
next
  case (expire_pooled v r w)
  then show ?thesis using timers_ok_pool [OF ok] by (fastforce simp: at_rest_def)
next
  case (send_pooled v r)
  then have "at_rest (timer_send (ts_now s) v, r)" using ok timers_ok_pool send_at_rest by blast
  then show ?thesis using send_pooled(1) timers_ok_pooled [OF ok] by simp
next
  case (drop_pooled v)
  then show ?thesis using ok by (auto simp: timers_ok_def dest: in_diffD)
next
  case (tick d)
  then show ?thesis using ok later_on_time by (auto simp: timers_ok_def)
qed

lemma timers_reachable_ok: "timers_reachable s \<Longrightarrow> timers_ok s"
proof (induction rule: timers_reachable.induct)
  case start
  then show ?case by (simp add: timers_ok_def no_timers_def)
next
  case (step s s')
  then show ?case by (blast intro: timer_step_ok)
qed

text \<open>
  A tick can come early. A timer expires, its user releases it before the tick is sent, so
  \<open>stopTimer\<close> finds an empty channel, and the tick is sent to the next user of the timer. \<open>stale_timer\<close>
  is such a timer when it comes into the pool.
\<close>

definition stale_timer :: timer where
  "stale_timer = \<lparr>t_when = None, t_sending = 1, t_C = None\<rparr>"

lemma stale_timer_pooled:
  "timers_reachable \<lparr>ts_now = 1, ts_pool = {#(stale_timer, True)#}, ts_used = (\<lambda>_. None)\<rparr>"
proof -
  let ?t = "NewTimer 0 1"
  have 1: "timers_reachable \<lparr>ts_now = 0, ts_pool = {#}, ts_used = [0 \<mapsto> (?t, 1, False)]\<rparr>"
    using timers_reachable.step [OF timers_reachable.start timer_step.acquire_new [where u = 0 and timeout = 1]]
    by (simp add: no_timers_def AcquireTimer_new)
  have 2: "timers_reachable \<lparr>ts_now = 1, ts_pool = {#}, ts_used = [0 \<mapsto> (?t, 1, False)]\<rparr>"
    using timers_reachable.step [OF 1 timer_step.tick [where d = 1]] by simp
  have 3: "timers_reachable \<lparr>ts_now = 1, ts_pool = {#}, ts_used = [0 \<mapsto> (timer_expire ?t, 1, False)]\<rparr>"
    using timers_reachable.step [OF 2 timer_step.expire_used [where u = 0 and t = ?t and d = 1 and r = False and w = 1]]
    by (simp add: NewTimer_def)
  show ?thesis
    using timers_reachable.step [OF 3 timer_step.release_used [where u = 0 and t = "timer_expire ?t" and d = 1 and r = False]]
    by (simp add: NewTimer_def timer_expire_def ReleaseTimer_def stopTimer_def timer_Stop_def stale_timer_def)
qed

lemma stale_tick_reaches_next_user:
  "timers_reachable \<lparr>ts_now = 1, ts_pool = {#},
     ts_used = [0 \<mapsto> (\<lparr>t_when = Some (1 + timeout), t_sending = 0, t_C = Some 1\<rparr>, 1 + timeout, True)]\<rparr>"
proof -
  let ?t = "stale_timer\<lparr>t_when := Some (1 + timeout)\<rparr>"
  have 1: "timers_reachable \<lparr>ts_now = 1, ts_pool = {#}, ts_used = [0 \<mapsto> (?t, 1 + timeout, True)]\<rparr>"
    using timers_reachable.step [OF stale_timer_pooled
        timer_step.acquire_pooled [where u = 0 and v = stale_timer and r = True and timeout = timeout]]
    by (simp add: AcquireTimer_inactive stale_timer_def)
  show ?thesis
    using timers_reachable.step [OF 1 timer_step.send_used [where u = 0]]
    by (simp add: stale_timer_def timer_send_def)
qed

text \<open>
  C21. In every history of the pool, acquiring a timer never panics, whichever pooled timer is
  reused. A user can find a tick that was sent before its own timeout had passed only in a timer
  that was once released between its expiry and its tick. This does happen, for every timeout:
  a user has a tick at once, and its timer is still running.
\<close>

theorem early_tick_only_after_race:
  assumes "timers_reachable s"
  shows "(\<forall>v r. (v, r) \<in># ts_pool s \<longrightarrow>
      AcquireTimer (ts_now s) (Some v) timeout = Some (v\<lparr>t_when := Some (ts_now s + timeout)\<rparr>)) \<and>
    (\<forall>u t d r c. ts_used s u = Some (t, d, r) \<and> t_C t = Some c \<and> c < d \<longrightarrow> r) \<and>
    (\<exists>s' t. timers_reachable s' \<and> ts_used s' 0 = Some (t, ts_now s' + timeout, True) \<and>
      t_when t = Some (ts_now s' + timeout) \<and> t_C t = Some (ts_now s'))"
proof (intro conjI allI impI)
  have ok: "timers_ok s" using assms by (rule timers_reachable_ok)
  fix v r
  assume "(v, r) \<in># ts_pool s"
  then show "AcquireTimer (ts_now s) (Some v) timeout = Some (v\<lparr>t_when := Some (ts_now s + timeout)\<rparr>)"
    using timers_ok_pool [OF ok] by (auto simp: at_rest_def AcquireTimer_inactive)
next
  fix u t d r c
  assume "ts_used s u = Some (t, d, r) \<and> t_C t = Some c \<and> c < d"
  then show r using timers_ok_used [OF timers_reachable_ok [OF assms], of u t d] by (cases r) (auto simp: on_time_def)
next
  show "\<exists>s' t. timers_reachable s' \<and> ts_used s' 0 = Some (t, ts_now s' + timeout, True) \<and>
      t_when t = Some (ts_now s' + timeout) \<and> t_C t = Some (ts_now s')"
    using stale_tick_reaches_next_user [of timeout] by (intro exI conjI) auto
qed

text \<open>The pool with a timer whose tick is still on its way, and the next use of that timer.\<close>

lemma early_tick_only_after_race_witness:
  "AcquireTimer 1 (Some stale_timer) 7 = Some \<lparr>t_when = Some 8, t_sending = 1, t_C = None\<rparr>"
proof -
  have "AcquireTimer 1 (Some stale_timer) 7 = Some (stale_timer\<lparr>t_when := Some (1 + 7)\<rparr>)"
    using early_tick_only_after_race [OF stale_timer_pooled, of 7] by fastforce
  then show ?thesis by (simp add: stale_timer_def)
qed

end
