(* ===== verification/Resolver.thy ===== *)
theory Resolver
  imports NetErrors
begin

text \<open>
  From an address string to the TCP addresses to dial: \<open>resolveTCPAddrs\<close> of
  \<open>sleepytcp/dial_tcp.go\<close>, with the functions of the standard library that it calls,
  \<open>net.SplitHostPort\<close>, \<open>strconv.Atoi\<close> and \<open>IP.To4\<close>. What a resolver answers is the environment's.
\<close>

section \<open>Host and port\<close>

fun byteIndex :: "char \<Rightarrow> string \<Rightarrow> nat option" where
  "byteIndex c [] = None"
| "byteIndex c (x # xs) = (if x = c then Some 0 else map_option Suc (byteIndex c xs))"

fun lastIndex :: "char \<Rightarrow> string \<Rightarrow> nat option" where
  "lastIndex c [] = None"
| "lastIndex c (x # xs) = (case lastIndex c xs of
     Some i \<Rightarrow> Some (Suc i)
   | None \<Rightarrow> if x = c then Some 0 else None)"

definition addr_error :: "string \<Rightarrow> string \<Rightarrow> net_error + 'a" where
  "addr_error addr why = Inl (TextError (''address '' @ addr @ '': '' @ why))"

text \<open>
  The host with the places up to which brackets were seen, for the last colon at \<open>i\<close>; then the
  port, if there are no other brackets.
\<close>

definition split_host :: "string \<Rightarrow> nat \<Rightarrow> net_error + string \<times> nat \<times> nat" where
  "split_host hostport i =
     (if hostport ! 0 = CHR ''['' then
        (case byteIndex CHR '']'' hostport of
           None \<Rightarrow> addr_error hostport ''missing ']' in address''
         | Some e \<Rightarrow>
             if e + 1 = length hostport then addr_error hostport ''missing port in address''
             else if e + 1 = i then Inr (drop 1 (take e hostport), 1, e + 1)
             else if hostport ! (e + 1) = CHR '':'' then addr_error hostport ''too many colons in address''
             else addr_error hostport ''missing port in address'')
      else let host = take i hostport in
        if byteIndex CHR '':'' host \<noteq> None then addr_error hostport ''too many colons in address''
        else Inr (host, 0, 0))"

definition SplitHostPort :: "string \<Rightarrow> net_error + string \<times> string" where
  "SplitHostPort hostport = (case lastIndex CHR '':'' hostport of
     None \<Rightarrow> addr_error hostport ''missing port in address''
   | Some i \<Rightarrow> (case split_host hostport i of
        Inl err \<Rightarrow> Inl err
      | Inr (host, j, k) \<Rightarrow>
          if byteIndex CHR ''['' (drop j hostport) \<noteq> None
          then addr_error hostport ''unexpected '[' in address''
          else if byteIndex CHR '']'' (drop k hostport) \<noteq> None
          then addr_error hostport ''unexpected ']' in address''
          else Inr (host, drop (i + 1) hostport)))"

definition digit :: "char \<Rightarrow> nat option" where
  "digit c = (let n = of_char c in if 48 \<le> n \<and> n \<le> (57 :: nat) then Some (n - 48) else None)"

fun digits :: "nat \<Rightarrow> string \<Rightarrow> nat option" where
  "digits n [] = Some n"
| "digits n (c # cs) = (case digit c of None \<Rightarrow> None | Some d \<Rightarrow> digits (10 * n + d) cs)"

definition num_error :: "string \<Rightarrow> string \<Rightarrow> net_error" where
  "num_error s why = WrapError (''strconv.Atoi: parsing \"'' @ s @ ''\": '' @ why) (TextError why)"

definition Atoi :: "string \<Rightarrow> net_error + int" where
  "Atoi s = (let
     neg = (case s of c # _ \<Rightarrow> c = CHR ''-'' | [] \<Rightarrow> False);
     ds = (case s of c # cs \<Rightarrow> if c = CHR ''-'' \<or> c = CHR ''+'' then cs else s | [] \<Rightarrow> [])
   in if ds = [] then Inl (num_error s ''invalid syntax'')
   else case digits 0 ds of
       None \<Rightarrow> Inl (num_error s ''invalid syntax'')
     | Some n \<Rightarrow>
         if (if neg then n > 2 ^ 63 else n \<ge> 2 ^ 63) then Inl (num_error s ''value out of range'')
         else Inr (if neg then - int n else int n))"

section \<open>Addresses\<close>

definition To4 :: "bytes \<Rightarrow> bytes option" where
  "To4 ip = (if length ip = 4 then Some ip
     else if length ip = 16 \<and> take 10 ip = replicate 10 0 \<and> ip ! 10 = 0xff \<and> ip ! 11 = 0xff
     then Some (drop 12 ip) else None)"

record ip_addr =
  ip_IP :: bytes
  ip_Zone :: string

record tcp_addr =
  ta_IP :: bytes
  ta_Port :: int
  ta_Zone :: string

fun collect_addrs :: "bool \<Rightarrow> int \<Rightarrow> ip_addr list \<Rightarrow> tcp_addr list" where
  "collect_addrs dualStack port [] = []"
| "collect_addrs dualStack port (ip # ips) =
     (if \<not> dualStack \<and> To4 (ip_IP ip) = None then collect_addrs dualStack port ips
      else \<lparr>ta_IP = ip_IP ip, ta_Port = port, ta_Zone = ip_Zone ip\<rparr> # collect_addrs dualStack port ips)"

type_synonym resolver = "string \<Rightarrow> net_error + ip_addr list"

definition resolveTCPAddrs ::
  "resolver \<Rightarrow> string \<Rightarrow> bool \<Rightarrow> resolver option \<Rightarrow> net_error + tcp_addr list" where
  "resolveTCPAddrs defaultResolver addr dualStack resolver = (case SplitHostPort addr of
     Inl err \<Rightarrow> Inl err
   | Inr (host, portS) \<Rightarrow> (case Atoi portS of
       Inl err \<Rightarrow> Inl err
     | Inr port \<Rightarrow> (let lookup = (case resolver of None \<Rightarrow> defaultResolver | Some r \<Rightarrow> r) in
         case lookup host of
           Inl err \<Rightarrow> Inl err
         | Inr ipAddrs \<Rightarrow> (let addrs = collect_addrs dualStack port ipAddrs in
             if length addrs = 0 then Inl ErrNoDNSEntries else Inr addrs))))"

section \<open>What is accepted\<close>

lemma byteIndex_None: "byteIndex c s = None \<longleftrightarrow> c \<notin> set s"
  by (induction s) auto

lemma byteIndex_append: "c \<notin> set s \<Longrightarrow> byteIndex c (s @ c # t) = Some (length s)"
  by (induction s) auto

lemma lastIndex_None: "lastIndex c s = None \<longleftrightarrow> c \<notin> set s"
  by (induction s) (auto split: option.splits)

lemma lastIndex_append: "c \<notin> set t \<Longrightarrow> lastIndex c (s @ c # t) = Some (length s)"
  by (induction s) (auto simp: lastIndex_None [symmetric] split: option.splits)

text \<open>The text of an address: a host with a colon is put into brackets.\<close>

definition JoinHostPort :: "string \<Rightarrow> string \<Rightarrow> string" where
  "JoinHostPort host port = (if CHR '':'' \<in> set host then ''['' @ host @ '']:'' @ port
     else host @ '':'' @ port)"

lemma SplitHostPort_Join:
  assumes "CHR ''['' \<notin> set host" "CHR '']'' \<notin> set host"
    and "CHR ''['' \<notin> set port" "CHR '']'' \<notin> set port" "CHR '':'' \<notin> set port"
  shows "SplitHostPort (JoinHostPort host port) = Inr (host, port)"
proof (cases "CHR '':'' \<in> set host")
  case True
  have last: "lastIndex CHR '':'' (JoinHostPort host port) = Some (length host + 2)"
    using lastIndex_append [OF assms(5), of "CHR ''['' # host @ '']''"] True
    by (simp add: JoinHostPort_def)
  have close: "byteIndex CHR '']'' (JoinHostPort host port) = Some (length host + 1)"
    using byteIndex_append [of "CHR '']''" "CHR ''['' # host" "CHR '':'' # port"] assms(2) True
    by (simp add: JoinHostPort_def)
  have "split_host (JoinHostPort host port) (length host + 2) = Inr (host, 1, length host + 2)"
    using close True by (simp add: split_host_def JoinHostPort_def)
  then show ?thesis
    using last assms True byteIndex_None
    by (auto simp: SplitHostPort_def JoinHostPort_def byteIndex_None)
next
  case False
  have last: "lastIndex CHR '':'' (JoinHostPort host port) = Some (length host)"
    using lastIndex_append [OF assms(5), of host] False by (simp add: JoinHostPort_def)
  have "(host @ '':'' @ port) ! 0 \<noteq> CHR ''[''" using assms(1) by (cases host) auto
  then have "split_host (JoinHostPort host port) (length host) = Inr (host, 0, 0)"
    using False by (simp add: split_host_def JoinHostPort_def byteIndex_None)
  then show ?thesis
    using last assms False by (simp add: SplitHostPort_def JoinHostPort_def byteIndex_None)
qed

lemma collect_addrs_eq:
  "collect_addrs dualStack port ips =
     map (\<lambda>ip. \<lparr>ta_IP = ip_IP ip, ta_Port = port, ta_Zone = ip_Zone ip\<rparr>)
       (filter (\<lambda>ip. dualStack \<or> To4 (ip_IP ip) \<noteq> None) ips)"
  by (induction ips) auto

text \<open>
  C24. For a host and a decimal port, joined with a colon (a host with colons in brackets),
  \<open>resolveTCPAddrs\<close> asks the configured resolver, or else the default one, for exactly this host
  and returns its addresses in its order with this port, without the IPv6 ones unless both
  stacks are wanted; it reports the resolver's error, and an error when no address is left.
\<close>

theorem resolveTCPAddrs_addresses:
  assumes "set host \<inter> {CHR ''['', CHR '']''} = {}"
    and "set portS \<inter> {CHR ''['', CHR '']'', CHR '':''} = {}" and "Atoi portS = Inr port"
  shows "resolveTCPAddrs sys (JoinHostPort host portS) dualStack resolver =
    (case (case resolver of None \<Rightarrow> sys | Some r \<Rightarrow> r) host of
       Inl err \<Rightarrow> Inl err
     | Inr ips \<Rightarrow> (case filter (\<lambda>ip. dualStack \<or> To4 (ip_IP ip) \<noteq> None) ips of
         [] \<Rightarrow> Inl ErrNoDNSEntries
       | kept \<Rightarrow> Inr (map (\<lambda>ip. \<lparr>ta_IP = ip_IP ip, ta_Port = port, ta_Zone = ip_Zone ip\<rparr>) kept)))"
proof -
  have "SplitHostPort (JoinHostPort host portS) = Inr (host, portS)"
    using assms(1,2) by (intro SplitHostPort_Join) auto
  then show ?thesis
    using assms(3)
    by (auto simp: resolveTCPAddrs_def collect_addrs_eq Let_def split: sum.splits list.splits)
qed

lemma resolveTCPAddrs_addresses_witness:
  "resolveTCPAddrs (\<lambda>h. if h = ''::1'' then Inr [\<lparr>ip_IP = [127, 0, 0, 1], ip_Zone = []\<rparr>] else Inl EOF)
     ''[::1]:80'' False None = Inr [\<lparr>ta_IP = [127, 0, 0, 1], ta_Port = 80, ta_Zone = []\<rparr>]"
proof -
  have "Atoi ''80'' = Inr 80" by (simp add: Atoi_def digit_def Let_def of_char_def)
  moreover have "JoinHostPort ''::1'' ''80'' = ''[::1]:80''" by (simp add: JoinHostPort_def)
  ultimately show ?thesis
    using resolveTCPAddrs_addresses [of "''::1''" "''80''" 80
        "\<lambda>h. if h = ''::1'' then Inr [\<lparr>ip_IP = [127, 0, 0, 1], ip_Zone = []\<rparr>] else Inl EOF" False None]
    by (simp add: To4_def)
qed

end
