(* ===== verification/DialTCP.thy ===== *)
theory DialTCP
  imports Resolver "HOL-Library.Multiset"
begin

text \<open>
  The TCP dialer of \<open>sleepytcp/dial_tcp.go\<close>: the cache of resolved addresses, and the loop that
  dials them. Times and durations are integers (nanoseconds). A \<open>*tcpAddrEntry\<close> is a number,
  because goroutines keep the pointer while the cache replaces the entry.
\<close>

definition DefaultDialTimeout :: int where "DefaultDialTimeout = 3 * 1000000000"
definition DefaultDNSCacheDuration :: int where "DefaultDNSCacheDuration = 60 * 1000000000"

section \<open>The cache of addresses\<close>

record tcp_entry =
  te_addrs :: "tcp_addr list"
  te_addrsIdx :: "32 word"
  te_resolveTime :: int
  te_pending :: bool

record dns_cache =
  dc_map :: "string \<Rightarrow> nat option"
  dc_entries :: "nat \<Rightarrow> tcp_entry"

text \<open>The first critical section of \<open>getTCPAddrs\<close>: the entry to use, if any.\<close>

definition cache_lookup :: "int \<Rightarrow> string \<Rightarrow> dns_cache \<Rightarrow> nat option \<times> dns_cache" where
  "cache_lookup now addr C = (case dc_map C addr of
     None \<Rightarrow> (None, C)
   | Some e \<Rightarrow>
       if \<not> te_pending (dc_entries C e) \<and> now - te_resolveTime (dc_entries C e) > DefaultDNSCacheDuration
       then (None, C\<lparr>dc_entries := (dc_entries C)(e := (dc_entries C e)\<lparr>te_pending := True\<rparr>)\<rparr>)
       else (Some e, C))"

text \<open>After a failed and after a successful resolution; \<open>e\<close> is the new entry.\<close>

definition cache_failed :: "string \<Rightarrow> dns_cache \<Rightarrow> dns_cache" where
  "cache_failed addr C = (case dc_map C addr of
     None \<Rightarrow> C
   | Some e \<Rightarrow> if te_pending (dc_entries C e)
       then C\<lparr>dc_entries := (dc_entries C)(e := (dc_entries C e)\<lparr>te_pending := False\<rparr>)\<rparr> else C)"

definition cache_store :: "int \<Rightarrow> string \<Rightarrow> tcp_addr list \<Rightarrow> nat \<Rightarrow> dns_cache \<Rightarrow> dns_cache" where
  "cache_store now addr addrs e C =
     C\<lparr>dc_map := (dc_map C)(addr \<mapsto> e),
       dc_entries := (dc_entries C)(e := \<lparr>te_addrs = addrs, te_addrsIdx = 0, te_resolveTime = now,
         te_pending = False\<rparr>)\<rparr>"

text \<open>The atomic increment at the end of \<open>getTCPAddrs\<close>.\<close>

definition next_addrs :: "nat \<Rightarrow> dns_cache \<Rightarrow> (tcp_addr list \<times> 32 word) \<times> dns_cache" where
  "next_addrs e C = (let idx = te_addrsIdx (dc_entries C e) + 1 in
     ((te_addrs (dc_entries C e), idx),
      C\<lparr>dc_entries := (dc_entries C)(e := (dc_entries C e)\<lparr>te_addrsIdx := idx\<rparr>)\<rparr>))"

text \<open>
  \<open>getTCPAddrs\<close> without other goroutines in between; \<open>resolve\<close> is \<open>resolveTCPAddrs\<close> with the
  dialer's resolver, \<open>later\<close> the time after it.
\<close>

definition getTCPAddrs ::
  "(string \<Rightarrow> bool \<Rightarrow> net_error + tcp_addr list) \<Rightarrow> int \<Rightarrow> int \<Rightarrow> nat \<Rightarrow> string \<Rightarrow> bool \<Rightarrow> dns_cache \<Rightarrow>
   (net_error + tcp_addr list \<times> 32 word) \<times> dns_cache" where
  "getTCPAddrs resolve now later new addr dualStack C = (let (e, C) = cache_lookup now addr C in
     case e of
       Some e \<Rightarrow> (let (r, C) = next_addrs e C in (Inr r, C))
     | None \<Rightarrow> (case resolve addr dualStack of
           Inl err \<Rightarrow> (Inl err, cache_failed addr C)
         | Inr addrs \<Rightarrow> (let (r, C) = next_addrs new (cache_store later addr addrs new C) in (Inr r, C))))"

text \<open>One round of \<open>tcpAddrsClean\<close>.\<close>

definition cache_clean :: "int \<Rightarrow> dns_cache \<Rightarrow> dns_cache" where
  "cache_clean t C = (let expireDuration = 2 * DefaultDNSCacheDuration in
     C\<lparr>dc_map := (\<lambda>k. case dc_map C k of None \<Rightarrow> None
       | Some e \<Rightarrow> if t - te_resolveTime (dc_entries C e) > expireDuration then None else Some e)\<rparr>)"

section \<open>Dialing\<close>

text \<open>
  One \<open>tryDial\<close>: the time it starts, whether it gets a place (at once or while it waits), and the
  result of \<open>net.DialTCP\<close>, \<^const>\<open>None\<close> when the timer is first.
\<close>

record try_env =
  t_now :: int
  t_place :: bool
  t_result :: "(net_error + nat) option"

definition tryDial :: "int \<Rightarrow> bool \<Rightarrow> try_env \<Rightarrow> net_error + nat" where
  "tryDial deadline limited env = (let timeout = deadline - t_now env in
     if timeout \<le> 0 then Inl ErrDialTimeout
     else if limited \<and> \<not> t_place env then Inl ErrDialTimeout
     else case t_result env of None \<Rightarrow> Inl ErrDialTimeout | Some r \<Rightarrow> r)"

text \<open>
  The loop of \<open>dial\<close>; \<open>attempt i a\<close> is the result of the \<open>i\<close>-th attempt, on address \<open>a\<close>, and \<open>err\<close> the
  variable of the last error. The result is a connection or an error, or neither, inside an
  option for the index panic.
\<close>

function dial_loop ::
  "tcp_addr list \<Rightarrow> (nat \<Rightarrow> tcp_addr \<Rightarrow> net_error + nat) \<Rightarrow> nat \<Rightarrow> 32 word \<Rightarrow> 32 word \<Rightarrow> net_error option \<Rightarrow>
   (nat option \<times> net_error option) option" where
  "dial_loop addrs attempt i idx n err =
     (if 0 < n then do {
        a \<leftarrow> slice_get addrs (unat (idx mod n));
        (case attempt i a of
           Inr conn \<Rightarrow> Some (Some conn, None)
         | Inl e \<Rightarrow> if e = ErrDialTimeout then Some (None, Some e)
             else dial_loop addrs attempt (Suc i) (idx + 1) (n - 1) (Some e)) }
      else Some (None, err))"
  by pat_completeness auto

termination
  by (relation "measure (\<lambda>(_, _, _, _, n, _). unat n)") (auto simp: measure_unat word_gt_0)

declare dial_loop.simps [simp del]

text \<open>
  \<open>dial\<close>; \<open>envs network i a\<close> answers the \<open>i\<close>-th attempt. Its start, \<open>once.Do\<close>, makes the map and
  the channel of places and starts \<open>tcpAddrsClean\<close>; there is a limit if \<open>Concurrency\<close> is positive.
\<close>

definition TCPDialer_dial ::
  "int \<Rightarrow> (string \<Rightarrow> bool \<Rightarrow> net_error + tcp_addr list) \<Rightarrow> (string \<Rightarrow> nat \<Rightarrow> tcp_addr \<Rightarrow> try_env) \<Rightarrow>
   int \<Rightarrow> int \<Rightarrow> nat \<Rightarrow> string \<Rightarrow> bool \<Rightarrow> int \<Rightarrow> dns_cache \<Rightarrow>
   ((nat option \<times> net_error option) \<times> dns_cache) option" where
  "TCPDialer_dial concurrency resolve envs now later new addr dualStack timeout C = (let
     (r, C) = getTCPAddrs resolve now later new addr dualStack C
   in case r of
        Inl err \<Rightarrow> Some ((None, Some err), C)
      | Inr (addrs, idx) \<Rightarrow> (let network = (if dualStack then ''tcp'' else ''tcp4'');
          n = of_nat (length addrs); deadline = later + timeout in
          do {
            r \<leftarrow> dial_loop addrs (\<lambda>i a. tryDial deadline (concurrency > 0) (envs network i a)) 0 idx n None;
            Some (r, C) }))"

text \<open>The four methods, and the package functions of the same names on the default dialer.\<close>

definition dial_Dial where
  "dial_Dial conc resolve envs now later new addr =
     TCPDialer_dial conc resolve envs now later new addr False DefaultDialTimeout"

definition dial_DialTimeout where
  "dial_DialTimeout conc resolve envs now later new addr timeout =
     TCPDialer_dial conc resolve envs now later new addr False timeout"

definition dial_DialDualStack where
  "dial_DialDualStack conc resolve envs now later new addr =
     TCPDialer_dial conc resolve envs now later new addr True DefaultDialTimeout"

definition dial_DialDualStackTimeout where
  "dial_DialDualStackTimeout conc resolve envs now later new addr timeout =
     TCPDialer_dial conc resolve envs now later new addr True timeout"

definition default_concurrency :: int where "default_concurrency = 1000"

definition Dial where "Dial = dial_Dial default_concurrency"
definition DialTimeout where "DialTimeout = dial_DialTimeout default_concurrency"
definition DialDualStack where "DialDualStack = dial_DialDualStack default_concurrency"
definition DialDualStackTimeout where "DialDualStackTimeout = dial_DialDualStackTimeout default_concurrency"

section \<open>The order of the attempts\<close>

text \<open>The indices that the loop dials, and what it returns when it dials a list of addresses.\<close>

fun dial_order :: "32 word \<Rightarrow> nat \<Rightarrow> nat list" where
  "dial_order idx 0 = []"
| "dial_order idx (Suc n) = unat (idx mod of_nat (Suc n)) # dial_order (idx + 1) n"

fun first_answer ::
  "(nat \<Rightarrow> tcp_addr \<Rightarrow> net_error + nat) \<Rightarrow> nat \<Rightarrow> tcp_addr list \<Rightarrow> net_error option \<Rightarrow>
   nat option \<times> net_error option" where
  "first_answer attempt i [] err = (None, err)"
| "first_answer attempt i (a # as) err = (case attempt i a of
     Inr conn \<Rightarrow> (Some conn, None)
   | Inl e \<Rightarrow> if e = ErrDialTimeout then (None, Some e) else first_answer attempt (Suc i) as (Some e))"

lemma unat_of_nat_u32: "n < 2 ^ 32 \<Longrightarrow> unat (of_nat n :: 32 word) = n"
  by (simp add: unat_of_nat take_bit_eq_mod)

lemma unat_mod_of_nat: "n < 2 ^ 32 \<Longrightarrow> unat (idx mod of_nat n :: 32 word) = unat idx mod n"
  by (simp add: unat_mod_distrib unat_of_nat_u32)

lemma dial_order_range: "n < 2 ^ 32 \<Longrightarrow> k \<in> set (dial_order idx n) \<Longrightarrow> k < n"
  by (induction idx n rule: dial_order.induct) (auto simp: unat_mod_of_nat simp del: of_nat_Suc)

lemma length_dial_order [simp]: "length (dial_order idx n) = n"
  by (induction idx n rule: dial_order.induct) auto

lemma dial_loop_eq:
  assumes "n \<le> length addrs" and "n < 2 ^ 32"
  shows "dial_loop addrs attempt i idx (of_nat n) err =
    Some (first_answer attempt i (map ((!) addrs) (dial_order idx n)) err)"
  using assms
proof (induction n arbitrary: i idx err)
  case 0
  then show ?case by (simp add: dial_loop.simps)
next
  case (Suc n)
  have pos: "0 < (of_nat (Suc n) :: 32 word)"
    using Suc.prems(2) unat_of_nat_u32 [of "Suc n"] by (metis unat_gt_0 word_gt_0 zero_less_Suc)
  have k: "unat (idx mod of_nat (Suc n) :: 32 word) < length addrs"
    using unat_mod_of_nat [OF Suc.prems(2), of idx] Suc.prems(1) mod_less_divisor [of "Suc n" "unat idx"]
    by (simp only:) linarith
  have n: "of_nat (Suc n) - 1 = (of_nat n :: 32 word)" by simp
  show ?case
    using Suc.prems pos k
    by (subst dial_loop.simps) (simp add: Suc.IH n del: of_nat_Suc split: sum.split)
qed

lemma dial_order_nth:
  "i < n \<Longrightarrow> n < 2 ^ 32 \<Longrightarrow> dial_order idx n ! i = unat (idx + of_nat i) mod (n - i)"
proof (induction n arbitrary: i idx)
  case (Suc n)
  show ?case
  proof (cases i)
    case 0
    then show ?thesis using unat_mod_of_nat [OF Suc.prems(2), of idx] by (simp del: of_nat_Suc)
  next
    case (Suc j)
    then show ?thesis using Suc.IH [of j "idx + 1"] Suc.prems by (simp add: ac_simps)
  qed
qed simp

text \<open>An attempt that is followed by another one, if there is one.\<close>

definition dial_goes_on :: "net_error + nat \<Rightarrow> bool" where
  "dial_goes_on r \<longleftrightarrow> (case r of Inl e \<Rightarrow> e \<noteq> ErrDialTimeout | Inr _ \<Rightarrow> False)"

lemma first_answer_attempt:
  assumes "as \<noteq> []"
  shows "\<exists>k<length as. (\<forall>j<k. dial_goes_on (attempt (i + j) (as ! j))) \<and>
    (dial_goes_on (attempt (i + k) (as ! k)) \<longrightarrow> Suc k = length as) \<and>
    first_answer attempt i as err = (case attempt (i + k) (as ! k) of
      Inr conn \<Rightarrow> (Some conn, None) | Inl e \<Rightarrow> (None, Some e))"
  using assms
proof (induction as arbitrary: i err)
  case (Cons a as)
  show ?case
  proof (cases "dial_goes_on (attempt i a) \<and> as \<noteq> []")
    case True
    then obtain e where e: "attempt i a = Inl e" "e \<noteq> ErrDialTimeout"
      by (auto simp: dial_goes_on_def split: sum.splits)
    obtain k where k: "k < length as" "\<forall>j<k. dial_goes_on (attempt (Suc i + j) (as ! j))"
      "dial_goes_on (attempt (Suc i + k) (as ! k)) \<longrightarrow> Suc k = length as"
      "first_answer attempt (Suc i) as (Some e) = (case attempt (Suc i + k) (as ! k) of
        Inr conn \<Rightarrow> (Some conn, None) | Inl e \<Rightarrow> (None, Some e))"
      using Cons.IH [of "Suc i" "Some e"] True by blast
    show ?thesis
      by (rule exI [of _ "Suc k"]) (use k e True in \<open>auto simp: nth_Cons split: nat.splits\<close>)
  next
    case False
    then show ?thesis
      by (intro exI [of _ 0]) (auto simp: dial_goes_on_def split: sum.splits)
  qed
qed simp

text \<open>
  C22. \<open>dial\<close> never indexes out of range. There is a list of resolved addresses, as long as the
  resolver's, that it tries in order: it begins with the address whose turn it is by the index
  \<open>idx\<close> of the cache entry and continues with the next ones as long as the index is inside the
  shortened list. The attempts end with the first that gives a connection or
  \<open>ErrDialTimeout\<close>, or with the last; its outcome is the result. So with at least one address
  the result is a connection or an error, never both and never neither.
\<close>

theorem dial_loop_attempts:
  assumes "addrs \<noteq> []" and "length addrs < 2 ^ 32"
  shows "\<exists>as k. length as = length addrs \<and> set as \<subseteq> set addrs \<and>
    as ! 0 = addrs ! (unat idx mod length addrs) \<and>
    (\<forall>i. unat idx + 2 * i < length addrs \<longrightarrow> as ! i = addrs ! (unat idx + i)) \<and>
    k < length addrs \<and>
    (\<forall>j<k. \<exists>e. attempt j (as ! j) = Inl e \<and> e \<noteq> ErrDialTimeout) \<and>
    ((\<exists>e. attempt k (as ! k) = Inl e \<and> e \<noteq> ErrDialTimeout) \<longrightarrow> Suc k = length addrs) \<and>
    dial_loop addrs attempt 0 idx (of_nat (length addrs)) None =
      Some (case attempt k (as ! k) of Inr conn \<Rightarrow> (Some conn, None) | Inl e \<Rightarrow> (None, Some e))"
proof -
  let ?n = "length addrs"
  let ?as = "map ((!) addrs) (dial_order idx ?n)"
  have "?as \<noteq> []" using assms(1) by (metis length_0_conv length_dial_order length_map)
  obtain k where k: "k < ?n" "\<forall>j<k. dial_goes_on (attempt j (?as ! j))"
      "dial_goes_on (attempt k (?as ! k)) \<longrightarrow> Suc k = ?n"
      "first_answer attempt 0 ?as None = (case attempt k (?as ! k) of
        Inr conn \<Rightarrow> (Some conn, None) | Inl e \<Rightarrow> (None, Some e))"
    using first_answer_attempt [OF \<open>?as \<noteq> []\<close>, of attempt 0 None]
    unfolding add_0 length_map length_dial_order by blast
  have goes: "dial_goes_on r \<longleftrightarrow> (\<exists>e. r = Inl e \<and> e \<noteq> ErrDialTimeout)" for r
    by (auto simp: dial_goes_on_def split: sum.splits)
  have "set ?as \<subseteq> set addrs" using dial_order_range [OF assms(2)] by auto
  moreover have "?as ! 0 = addrs ! (unat idx mod ?n)"
    using dial_order_nth [of 0 ?n idx] assms by simp
  moreover have "?as ! i = addrs ! (unat idx + i)" if i: "unat idx + 2 * i < ?n" for i
  proof -
    have "unat (of_nat i :: 32 word) = i" using i assms(2) by (intro unat_of_nat_u32) simp
    then have "unat (idx + of_nat i) = unat idx + i"
      using i assms(2) by (subst unat_add_lem [THEN iffD1]) simp_all
    then show ?thesis using i assms(2) by (simp add: dial_order_nth)
  qed
  ultimately show ?thesis
    using k dial_loop_eq [OF order_refl assms(2), of attempt 0 idx None]
    by (intro exI [of _ ?as] exI [of _ k]) (auto simp: goes)
qed

abbreviation "addr_a \<equiv> \<lparr>ta_IP = [10, 0, 0, 1], ta_Port = 80, ta_Zone = []\<rparr>"
abbreviation "addr_b \<equiv> \<lparr>ta_IP = [10, 0, 0, 2], ta_Port = 80, ta_Zone = []\<rparr>"

text \<open>The index is 1: the second address comes first, and nothing else is tried if it answers.\<close>

lemma dial_loop_attempts_witness:
  "dial_loop [addr_a, addr_b] (\<lambda>i a. if a = addr_b then Inr 7 else Inl EOF) 0 1 2 None = Some (Some 7, None)"
proof -
  let ?attempt = "\<lambda>(i::nat) a. if a = addr_b then Inr (7::nat) else Inl EOF"
  let ?addrs = "[addr_a, addr_b]"
  have "?addrs \<noteq> []" "length ?addrs < 2 ^ 32" by simp_all
  from dial_loop_attempts [OF this, of 1 ?attempt] obtain as k where
    r: "as ! 0 = ?addrs ! (unat (1 :: 32 word) mod length ?addrs)"
    "\<forall>j<k. \<exists>e. ?attempt j (as ! j) = Inl e \<and> e \<noteq> ErrDialTimeout"
    "dial_loop ?addrs ?attempt 0 1 (of_nat (length ?addrs)) None = Some (case ?attempt k (as ! k) of
        Inr conn \<Rightarrow> (Some conn, None) | Inl e \<Rightarrow> (None, Some e))" by blast
  have 0: "as ! 0 = addr_b" using r(1) by simp
  then have "k = 0" using r(2) by (cases k) auto
  then show ?thesis using r(3) 0 by simp
qed

text \<open>
  C34. The loop shortens the list and advances the index at the same time, so it is no round robin.
  With two addresses and an even index, which every second \<open>Dial\<close> has, both attempts go to the
  first address: when it cannot be reached the dial fails, whatever the second would answer.
\<close>

theorem dial_skips_second_address:
  assumes "even (unat idx)" and "\<forall>i. attempt i a = Inl e" and "e \<noteq> ErrDialTimeout"
  shows "dial_loop [a, b] attempt 0 idx 2 None = Some (None, Some e)"
proof -
  have "unat (idx mod 2) = 0" using unat_mod_of_nat [of 2 idx] assms(1) by (simp add: even_iff_mod_2_eq_zero)
  then have "dial_order idx 2 = [0, 0]" by (simp add: numeral_2_eq_2)
  then show ?thesis using assms(2,3) dial_loop_eq [of 2 "[a, b]" attempt 0 idx None] by simp
qed

lemma dial_skips_second_address_witness:
  "dial_loop [addr_a, addr_b] (\<lambda>i a. if a = addr_b then Inr 7 else Inl EOF) 0 2 2 None = Some (None, Some EOF)"
  by (rule dial_skips_second_address) simp_all

end
