(* ===== verification/DnsCache.thy ===== *)
theory DnsCache
  imports DialTCP
begin

text \<open>
  All goroutines that use the address cache of a dialer (\<open>getTCPAddrs\<close> and \<open>tcpAddrsClean\<close> of
  \<open>sleepytcp/dial_tcp.go\<close>), as a step relation: \<open>dw_resolving\<close> are the addresses that goroutines
  resolve at the moment, \<open>dw_held\<close> the entries of those that are about to increment the index.
\<close>

record dns_world =
  dw_cache :: dns_cache
  dw_now :: int
  dw_next :: nat
  dw_resolving :: "string multiset"
  dw_held :: "nat multiset"

definition no_entry :: tcp_entry where
  "no_entry = \<lparr>te_addrs = [], te_addrsIdx = 0, te_resolveTime = 0, te_pending = False\<rparr>"

definition start_dns :: dns_world where
  "start_dns = \<lparr>dw_cache = \<lparr>dc_map = (\<lambda>_. None), dc_entries = (\<lambda>_. no_entry)\<rparr>, dw_now = 0,
     dw_next = 0, dw_resolving = {#}, dw_held = {#}\<rparr>"

inductive dns_step :: "dns_world \<Rightarrow> dns_world \<Rightarrow> bool" where
  hit: "cache_lookup (dw_now W) addr (dw_cache W) = (Some e, C) \<Longrightarrow>
    dns_step W (W\<lparr>dw_cache := C, dw_held := add_mset e (dw_held W)\<rparr>)"
| miss: "cache_lookup (dw_now W) addr (dw_cache W) = (None, C) \<Longrightarrow>
    dns_step W (W\<lparr>dw_cache := C, dw_resolving := add_mset addr (dw_resolving W)\<rparr>)"
| resolved: "addr \<in># dw_resolving W \<Longrightarrow> resolveTCPAddrs sys addr dualStack resolver = Inr addrs \<Longrightarrow>
    dns_step W (W\<lparr>dw_cache := cache_store (dw_now W) addr addrs (dw_next W) (dw_cache W),
      dw_next := Suc (dw_next W), dw_resolving := dw_resolving W - {#addr#},
      dw_held := add_mset (dw_next W) (dw_held W)\<rparr>)"
| failed: "addr \<in># dw_resolving W \<Longrightarrow>
    dns_step W (W\<lparr>dw_cache := cache_failed addr (dw_cache W),
      dw_resolving := dw_resolving W - {#addr#}\<rparr>)"
| advance: "e \<in># dw_held W \<Longrightarrow> next_addrs e (dw_cache W) = (r, C) \<Longrightarrow>
    dns_step W (W\<lparr>dw_cache := C, dw_held := dw_held W - {#e#}\<rparr>)"
| clean: "dns_step W (W\<lparr>dw_cache := cache_clean (dw_now W) (dw_cache W)\<rparr>)"
| tick: "0 \<le> d \<Longrightarrow> dns_step W (W\<lparr>dw_now := dw_now W + d\<rparr>)"

inductive dns_reachable :: "dns_world \<Rightarrow> bool" where
  start: "dns_reachable start_dns"
| step: "dns_reachable W \<Longrightarrow> dns_step W W' \<Longrightarrow> dns_reachable W'"

section \<open>The invariant\<close>

definition dns_inv :: "dns_world \<Rightarrow> bool" where
  "dns_inv W \<longleftrightarrow> (\<forall>a e. dc_map (dw_cache W) a = Some e \<longrightarrow> e < dw_next W \<and>
       te_resolveTime (dc_entries (dw_cache W) e) \<le> dw_now W \<and>
       (te_pending (dc_entries (dw_cache W) e) \<longrightarrow> a \<in># dw_resolving W)) \<and>
     (\<forall>a b e. dc_map (dw_cache W) a = Some e \<longrightarrow> dc_map (dw_cache W) b = Some e \<longrightarrow> a = b) \<and>
     (\<forall>e<dw_next W. te_addrs (dc_entries (dw_cache W) e) \<noteq> []) \<and> (\<forall>e\<in>#dw_held W. e < dw_next W)"

lemma dns_invD:
  assumes "dns_inv W"
  shows "dc_map (dw_cache W) a = Some e \<Longrightarrow> e < dw_next W"
    "dc_map (dw_cache W) a = Some e \<Longrightarrow> te_resolveTime (dc_entries (dw_cache W) e) \<le> dw_now W"
    "dc_map (dw_cache W) a = Some e \<Longrightarrow> te_pending (dc_entries (dw_cache W) e) \<Longrightarrow> a \<in># dw_resolving W"
    "dc_map (dw_cache W) a = Some e \<Longrightarrow> dc_map (dw_cache W) b = Some e \<Longrightarrow> a = b"
    "e < dw_next W \<Longrightarrow> te_addrs (dc_entries (dw_cache W) e) \<noteq> []"
    "e \<in># dw_held W \<Longrightarrow> e < dw_next W"
  using assms unfolding dns_inv_def by blast+

lemma resolveTCPAddrs_nonempty: "resolveTCPAddrs sys addr dualStack resolver = Inr addrs \<Longrightarrow> addrs \<noteq> []"
  by (auto simp: resolveTCPAddrs_def Let_def split: sum.splits if_splits)

text \<open>After a resolution of an address, its entry is not pending.\<close>

lemma in_diff_other: "a \<noteq> b \<Longrightarrow> a \<in># M \<Longrightarrow> a \<in># M - {#b#}"
  by (metis add_mset_remove_trivial_eq diff_single_trivial in_diff_count insert_noteq_member insert_DiffM)

lemma dns_inv_miss:
  assumes "dns_inv W" and "cache_lookup (dw_now W) addr (dw_cache W) = (None, C)"
  shows "dns_inv (W\<lparr>dw_cache := C, dw_resolving := add_mset addr (dw_resolving W)\<rparr>)"
proof (cases "dc_map (dw_cache W) addr")
  case None
  then have "C = dw_cache W" using assms(2) by (simp add: cache_lookup_def)
  then show ?thesis using assms(1) by (auto simp: dns_inv_def)
next
  case (Some e)
  then have C: "C = (dw_cache W)\<lparr>dc_entries := (dc_entries (dw_cache W))(e :=
      (dc_entries (dw_cache W) e)\<lparr>te_pending := True\<rparr>)\<rparr>"
    using assms(2) by (auto simp: cache_lookup_def split: if_splits)
  have "dc_map (dw_cache W) a = Some e \<Longrightarrow> a = addr" for a using dns_invD(4) [OF assms(1)] Some by blast
  then show ?thesis using assms(1) C unfolding dns_inv_def by auto
qed

lemma dns_inv_resolved:
  assumes "dns_inv W" and "addrs \<noteq> []"
  shows "dns_inv (W\<lparr>dw_cache := cache_store (dw_now W) addr addrs (dw_next W) (dw_cache W),
      dw_next := Suc (dw_next W), dw_resolving := dw_resolving W - {#addr#},
      dw_held := add_mset (dw_next W) (dw_held W)\<rparr>)"
  using assms in_diff_other [of _ addr "dw_resolving W"]
  unfolding dns_inv_def cache_store_def by (auto simp: less_Suc_eq)

lemma dns_inv_failed:
  assumes "dns_inv W"
  shows "dns_inv (W\<lparr>dw_cache := cache_failed addr (dw_cache W), dw_resolving := dw_resolving W - {#addr#}\<rparr>)"
  using assms in_diff_other [of _ addr "dw_resolving W"]
  unfolding dns_inv_def cache_failed_def
  by (auto split: option.splits) (metis option.inject option.distinct(1))+

lemma dns_step_inv:
  assumes "dns_step W W'" and "dns_inv W"
  shows "dns_inv W'"
  using assms(1)
proof cases
  case (hit addr e C)
  then have "C = dw_cache W" "dc_map (dw_cache W) addr = Some e"
    by (auto simp: cache_lookup_def split: option.splits if_splits)
  then show ?thesis using hit(1) assms(2) by (auto simp: dns_inv_def)
next
  case (miss addr C)
  then show ?thesis using dns_inv_miss [OF assms(2)] by simp
next
  case (resolved addr sys dualStack resolver addrs)
  then show ?thesis using dns_inv_resolved [OF assms(2) resolveTCPAddrs_nonempty] by simp
next
  case (failed addr)
  then show ?thesis using dns_inv_failed [OF assms(2)] by simp
next
  case (advance e r C)
  then show ?thesis using assms(2) unfolding dns_inv_def
    by (auto simp: next_addrs_def Let_def split: if_splits dest: in_diffD)
next
  case clean
  then show ?thesis using assms(2) unfolding dns_inv_def
    by (auto simp: cache_clean_def Let_def split: option.splits if_splits)
next
  case (tick d)
  then show ?thesis using assms(2) unfolding dns_inv_def by fastforce
qed

lemma dns_reachable_inv: "dns_reachable W \<Longrightarrow> dns_inv W"
proof (induction rule: dns_reachable.induct)
  case start
  then show ?case by (simp add: dns_inv_def start_dns_def)
next
  case (step W W')
  then show ?case by (blast intro: dns_step_inv)
qed

text \<open>
  C23. Under every interleaving of the users of the address cache, a lookup that is answered from
  the cache gives a non-empty list of addresses that was resolved at most a minute ago, or a
  goroutine is resolving the address again at this moment. So a refresh is never forgotten: an
  entry does not stay marked as pending after the last resolution of its address has ended.
\<close>

theorem dns_cache_fresh:
  assumes "dns_reachable W" and "cache_lookup (dw_now W) addr (dw_cache W) = (Some e, C)"
  shows "te_addrs (dc_entries (dw_cache W) e) \<noteq> [] \<and>
    (dw_now W - te_resolveTime (dc_entries (dw_cache W) e) \<le> DefaultDNSCacheDuration \<or>
     addr \<in># dw_resolving W)"
proof -
  note inv = dns_invD [OF dns_reachable_inv [OF assms(1)]]
  have e: "dc_map (dw_cache W) addr = Some e" "te_pending (dc_entries (dw_cache W) e) \<or>
      dw_now W - te_resolveTime (dc_entries (dw_cache W) e) \<le> DefaultDNSCacheDuration"
    using assms(2) by (auto simp: cache_lookup_def split: option.splits if_splits)
  then show ?thesis using inv(1,3,5) by blast
qed

abbreviation "one_ip \<equiv> \<lambda>h :: string. Inr [\<lparr>ip_IP = [10, 0, 0, 1], ip_Zone = []\<rparr>] :: net_error + ip_addr list"

lemma resolve_one: "resolveTCPAddrs one_ip ''h:80'' False None = Inr [addr_a]"
  using resolveTCPAddrs_addresses [of "''h''" "''80''" 80 one_ip False None]
  by (simp add: JoinHostPort_def Atoi_def digit_def Let_def of_char_def To4_def)

lemma dns_cache_fresh_witness:
  "\<exists>(W :: dns_world) C. cache_lookup (dw_now W) ''h:80'' (dw_cache W) = (Some 0, C) \<and> dw_now W = 60000000000 \<and>
     te_addrs (dc_entries (dw_cache W) 0) = [addr_a] \<and>
     (60000000000 \<le> DefaultDNSCacheDuration \<or> ''h:80'' \<in># dw_resolving W)"
proof -
  let ?W1 = "start_dns\<lparr>dw_cache := dw_cache start_dns, dw_resolving := add_mset ''h:80'' (dw_resolving start_dns)\<rparr>"
  have 1: "dns_reachable ?W1"
    by (rule dns_reachable.step [OF dns_reachable.start dns_step.miss])
      (simp add: cache_lookup_def start_dns_def)
  let ?W2 = "?W1\<lparr>dw_cache := cache_store (dw_now ?W1) ''h:80'' [addr_a] (dw_next ?W1) (dw_cache ?W1),
      dw_next := Suc (dw_next ?W1), dw_resolving := dw_resolving ?W1 - {#''h:80''#},
      dw_held := add_mset (dw_next ?W1) (dw_held ?W1)\<rparr>"
  have 2: "dns_reachable ?W2"
    by (rule dns_reachable.step [OF 1 dns_step.resolved [OF _ resolve_one]]) simp
  let ?W3 = "?W2\<lparr>dw_now := dw_now ?W2 + 60000000000\<rparr>"
  have 3: "dns_reachable ?W3" by (rule dns_reachable.step [OF 2 dns_step.tick]) simp
  have hit: "cache_lookup (dw_now ?W3) ''h:80'' (dw_cache ?W3) = (Some 0, dw_cache ?W3)"
    by (simp add: cache_lookup_def cache_store_def start_dns_def DefaultDNSCacheDuration_def)
  show ?thesis
  proof (intro exI [of _ ?W3] exI [of _ "dw_cache ?W3"] conjI)
    show "cache_lookup (dw_now ?W3) ''h:80'' (dw_cache ?W3) = (Some 0, dw_cache ?W3)" by (rule hit)
    show "60000000000 \<le> DefaultDNSCacheDuration \<or> ''h:80'' \<in># dw_resolving ?W3"
      using dns_cache_fresh [OF 3 hit] by (simp add: start_dns_def cache_store_def)
  qed (simp_all add: start_dns_def cache_store_def)
qed

text \<open>
  The cache is keyed by the address alone. Within a minute after any dial of an address,
  \<open>DialDualStack\<close> and \<open>Dial\<close> get the same list, the one for whichever was asked first: a dual-stack
  dial can be given IPv4 addresses only, and a tcp4 dial IPv6 addresses.
\<close>

theorem cache_ignores_dual_stack:
  assumes "dc_map C addr = Some e" and "now - te_resolveTime (dc_entries C e) \<le> DefaultDNSCacheDuration"
  shows "getTCPAddrs resolve now later new addr True C = getTCPAddrs resolve now later new addr False C"
  using assms by (simp add: getTCPAddrs_def cache_lookup_def)

lemma cache_ignores_dual_stack_witness:
  "getTCPAddrs r 1 2 1 ''h:80'' True
     (cache_store 0 ''h:80'' [addr_a] 0 \<lparr>dc_map = (\<lambda>_. None), dc_entries = (\<lambda>_. no_entry)\<rparr>) =
   getTCPAddrs r 1 2 1 ''h:80'' False
     (cache_store 0 ''h:80'' [addr_a] 0 \<lparr>dc_map = (\<lambda>_. None), dc_entries = (\<lambda>_. no_entry)\<rparr>)"
  by (rule cache_ignores_dual_stack [where e = 0]) (simp_all add: cache_store_def DefaultDNSCacheDuration_def)

end
