(* ===== verification/DialSlots.thy ===== *)
theory DialSlots
  imports NetErrors "HOL-Library.Multiset"
begin

text \<open>
  The goroutines of \<open>tryDial\<close> (\<open>sleepytcp/dial_tcp.go\<close>): the limit on concurrent dials, a buffered
  channel of \<open>Concurrency\<close> places, and the pooled channels over which results come back. A
  \<open>tryDial\<close> is a number; \<open>ds_granted\<close> counts those that have a place and have not started to dial,
  \<open>ds_dialing\<close> are the goroutines in \<open>net.DialTCP\<close> and \<open>ds_waiting\<close> the calls in the last
  \<open>select\<close>, each with its channel, \<open>ds_leaving\<close> counts the goroutines that have sent their result
  and not yet left their place. The results in a channel carry the number of the call they are for.
\<close>

record dial_slots =
  ds_cap :: "nat option"
  ds_places :: nat
  ds_granted :: nat
  ds_ch :: "nat \<Rightarrow> (nat \<times> (net_error + nat)) list"
  ds_pool :: "nat multiset"
  ds_dialing :: "(nat \<times> nat) set"
  ds_leaving :: nat
  ds_waiting :: "(nat \<times> nat) set"
  ds_nextCh :: nat
  ds_nextTask :: nat

text \<open>\<open>Concurrency\<close> of zero or less means no limit: the channel of places is nil.\<close>

definition start_slots :: "int \<Rightarrow> dial_slots" where
  "start_slots concurrency = \<lparr>ds_cap = (if concurrency > 0 then Some (nat concurrency) else None),
     ds_places = 0, ds_granted = 0, ds_ch = (\<lambda>_. []), ds_pool = {#}, ds_dialing = {}, ds_leaving = 0,
     ds_waiting = {}, ds_nextCh = 0, ds_nextTask = 0\<rparr>"

definition take_place :: "dial_slots \<Rightarrow> dial_slots option" where
  "take_place s = (case ds_cap s of
     None \<Rightarrow> Some s
   | Some c \<Rightarrow> if ds_places s < c then Some (s\<lparr>ds_places := ds_places s + 1\<rparr>) else None)"

definition leave_place :: "dial_slots \<Rightarrow> dial_slots" where
  "leave_place s = (if ds_cap s \<noteq> None then s\<lparr>ds_places := ds_places s - 1\<rparr> else s)"

definition start_dialing :: "nat \<Rightarrow> dial_slots \<Rightarrow> dial_slots" where
  "start_dialing ch s = s\<lparr>ds_granted := ds_granted s - 1,
     ds_dialing := insert (ds_nextTask s, ch) (ds_dialing s),
     ds_waiting := insert (ds_nextTask s, ch) (ds_waiting s), ds_nextTask := Suc (ds_nextTask s)\<rparr>"

text \<open>\<open>ch <- dr\<close> goes on only when the channel, of capacity one, has room.\<close>

inductive slots_step :: "dial_slots \<Rightarrow> dial_slots \<Rightarrow> bool" where
  grant: "take_place s = Some s' \<Longrightarrow> slots_step s (s'\<lparr>ds_granted := Suc (ds_granted s')\<rparr>)"
| start_new: "ds_granted s > 0 \<Longrightarrow>
    slots_step s ((start_dialing (ds_nextCh s) s)\<lparr>ds_nextCh := Suc (ds_nextCh s)\<rparr>)"
| start_pooled: "ds_granted s > 0 \<Longrightarrow> ch \<in># ds_pool s \<Longrightarrow>
    slots_step s ((start_dialing ch s)\<lparr>ds_pool := ds_pool s - {#ch#}\<rparr>)"
| finish: "(t, ch) \<in> ds_dialing s \<Longrightarrow> length (ds_ch s ch) < 1 \<Longrightarrow>
    slots_step s (s\<lparr>ds_ch := (ds_ch s)(ch := ds_ch s ch @ [(t, r)]),
      ds_dialing := ds_dialing s - {(t, ch)}, ds_leaving := Suc (ds_leaving s)\<rparr>)"
| leave: "ds_leaving s = Suc n \<Longrightarrow> slots_step s (leave_place (s\<lparr>ds_leaving := n\<rparr>))"
| receive: "(t, ch) \<in> ds_waiting s \<Longrightarrow> ds_ch s ch = r # rs \<Longrightarrow>
    slots_step s (s\<lparr>ds_ch := (ds_ch s)(ch := rs), ds_pool := add_mset ch (ds_pool s),
      ds_waiting := ds_waiting s - {(t, ch)}\<rparr>)"
| timeout: "(t, ch) \<in> ds_waiting s \<Longrightarrow>
    slots_step s (s\<lparr>ds_waiting := ds_waiting s - {(t, ch)}\<rparr>)"
| forget: "slots_step s (s\<lparr>ds_pool := ds_pool s - {#ch#}\<rparr>)"

inductive slots_reachable :: "int \<Rightarrow> dial_slots \<Rightarrow> bool" for concurrency where
  start: "slots_reachable concurrency (start_slots concurrency)"
| step: "slots_reachable concurrency s \<Longrightarrow> slots_step s s' \<Longrightarrow> slots_reachable concurrency s'"

section \<open>The invariant\<close>

text \<open>The places: one for each granted, dialing or leaving call.\<close>

definition places_ok :: "int \<Rightarrow> dial_slots \<Rightarrow> bool" where
  "places_ok concurrency s \<longleftrightarrow> ds_cap s = (if concurrency > 0 then Some (nat concurrency) else None) \<and>
     finite (ds_dialing s) \<and>
     (\<forall>c. ds_cap s = Some c \<longrightarrow>
       ds_places s = ds_granted s + card (ds_dialing s) + ds_leaving s \<and> ds_places s \<le> c)"

text \<open>The channels: each serves one call at a time, and is empty when it is pooled or dialed for.\<close>

definition channels_ok :: "dial_slots \<Rightarrow> bool" where
  "channels_ok s \<longleftrightarrow>
     (\<forall>t ch. (t, ch) \<in> ds_dialing s \<union> ds_waiting s \<longrightarrow> t < ds_nextTask s \<and> ch < ds_nextCh s \<and> ch \<notin># ds_pool s) \<and>
     (\<forall>t t' ch. (t, ch) \<in> ds_dialing s \<union> ds_waiting s \<longrightarrow> (t', ch) \<in> ds_dialing s \<union> ds_waiting s \<longrightarrow> t = t') \<and>
     (\<forall>t ch. (t, ch) \<in> ds_dialing s \<longrightarrow> ds_ch s ch = []) \<and>
     (\<forall>t ch. (t, ch) \<in> ds_waiting s \<longrightarrow> (t, ch) \<in> ds_dialing s \<or> (\<exists>r. ds_ch s ch = [(t, r)])) \<and>
     (\<forall>ch. ch \<in># ds_pool s \<longrightarrow> ch < ds_nextCh s \<and> ds_ch s ch = [] \<and> count (ds_pool s) ch = 1) \<and>
     (\<forall>ch\<ge>ds_nextCh s. ds_ch s ch = [])"

lemma channels_okD:
  assumes "channels_ok s"
  shows "(t, ch) \<in> ds_dialing s \<union> ds_waiting s \<Longrightarrow> t < ds_nextTask s \<and> ch < ds_nextCh s \<and> ch \<notin># ds_pool s"
    "(t, ch) \<in> ds_dialing s \<union> ds_waiting s \<Longrightarrow> (t', ch) \<in> ds_dialing s \<union> ds_waiting s \<Longrightarrow> t = t'"
    "(t, ch) \<in> ds_dialing s \<Longrightarrow> ds_ch s ch = []"
    "(t, ch) \<in> ds_waiting s \<Longrightarrow> (t, ch) \<in> ds_dialing s \<or> (\<exists>r. ds_ch s ch = [(t, r)])"
    "ch \<in># ds_pool s \<Longrightarrow> ch < ds_nextCh s \<and> ds_ch s ch = [] \<and> count (ds_pool s) ch = 1"
    "ds_nextCh s \<le> ch \<Longrightarrow> ds_ch s ch = []"
  using assms unfolding channels_ok_def by blast+

lemma channels_ok_counts [simp]:
  "channels_ok (s\<lparr>ds_places := p\<rparr>) = channels_ok s" "channels_ok (s\<lparr>ds_granted := p\<rparr>) = channels_ok s"
  "channels_ok (s\<lparr>ds_leaving := p\<rparr>) = channels_ok s"
  by (simp_all add: channels_ok_def)

lemma places_step:
  assumes "slots_step s s'" and "places_ok c s" and "channels_ok s"
  shows "places_ok c s'"
  using assms(1)
proof cases
  case (grant s1)
  then show ?thesis using assms(2)
    by (auto simp: places_ok_def take_place_def split: option.splits if_splits)
next
  case start_new
  have "(ds_nextTask s, ds_nextCh s) \<notin> ds_dialing s" using channels_okD(1) [OF assms(3)] by blast
  then show ?thesis using start_new assms(2) by (auto simp: places_ok_def start_dialing_def)
next
  case (start_pooled ch)
  have "(ds_nextTask s, ch) \<notin> ds_dialing s" using channels_okD(1) [OF assms(3)] by blast
  then show ?thesis using start_pooled assms(2) by (auto simp: places_ok_def start_dialing_def)
next
  case (finish t ch r)
  then have "card (ds_dialing s) = Suc (card (ds_dialing s - {(t, ch)}))"
    using assms(2) by (intro card.remove [symmetric, THEN sym]) (auto simp: places_ok_def)
  then show ?thesis using finish(1) assms(2) by (auto simp: places_ok_def)
next
  case (leave n)
  then show ?thesis using assms(2) by (auto simp: places_ok_def leave_place_def)
qed (use assms(2) in \<open>auto simp: places_ok_def\<close>)

lemma channels_start:
  assumes ok: "channels_ok s" and ch: "ds_ch s ch = []" "ch < n" "ds_nextCh s \<le> n"
    and free: "\<And>t. (t, ch) \<notin> ds_dialing s \<union> ds_waiting s"
    and pool: "P \<subseteq># ds_pool s" "ch \<notin># P"
  shows "channels_ok ((start_dialing ch s)\<lparr>ds_pool := P, ds_nextCh := n\<rparr>)"
proof -
  have P: "x \<in># ds_pool s \<and> count P x = 1" if "x \<in># P" for x
  proof -
    have x: "x \<in># ds_pool s" using that pool(1) by (metis mset_subset_eqD)
    have "count P x \<le> count (ds_pool s) x" using pool(1) by (rule mset_subset_eq_count)
    moreover have "1 \<le> count P x" using that by (simp only: count_greater_eq_one_iff)
    moreover have "count (ds_pool s) x = 1" using channels_okD(5) [OF ok x] by blast
    ultimately have "count P x = 1" by linarith
    with x show ?thesis by blast
  qed
  let ?s = "(start_dialing ch s)\<lparr>ds_pool := P, ds_nextCh := n\<rparr>"
  let ?t = "ds_nextTask s" and ?L = "ds_dialing s \<union> ds_waiting s"
  have fields: "ds_dialing ?s = insert (?t, ch) (ds_dialing s)" "ds_waiting ?s = insert (?t, ch) (ds_waiting s)"
    "ds_ch ?s = ds_ch s" "ds_pool ?s = P" "ds_nextCh ?s = n" "ds_nextTask ?s = Suc ?t"
    by (simp_all add: start_dialing_def)
  have live: "(t, c) \<in> insert (?t, ch) (ds_dialing s) \<union> insert (?t, ch) (ds_waiting s) \<longleftrightarrow>
      (t = ?t \<and> c = ch) \<or> (t, c) \<in> ?L" for t c by auto
  show ?thesis
    unfolding channels_ok_def fields live
  proof (intro conjI allI impI)
    fix t c
    assume tc: "(t = ?t \<and> c = ch) \<or> (t, c) \<in> ?L"
    show "t < Suc ?t" using tc channels_okD(1) [OF ok, of t c] by auto
    show "c < n" using tc channels_okD(1) [OF ok, of t c] ch(2,3) by auto
    show "c \<notin># P" using tc channels_okD(1) [OF ok, of t c] pool(2) P by blast
    fix t'
    assume "(t' = ?t \<and> c = ch) \<or> (t', c) \<in> ?L"
    then show "t = t'" using tc free channels_okD(2) [OF ok, of t c t'] by blast
  next
    show "ds_ch s c = []" if "(t, c) \<in> insert (?t, ch) (ds_dialing s)" for t c
      using that ch(1) channels_okD(3) [OF ok] by auto
    show "(t, c) \<in> insert (?t, ch) (ds_dialing s) \<or> (\<exists>r. ds_ch s c = [(t, r)])"
      if "(t, c) \<in> insert (?t, ch) (ds_waiting s)" for t c
      using that channels_okD(4) [OF ok] by auto
    show "c < n" "ds_ch s c = []" "count P c = 1" if "c \<in># P" for c
      using P [OF that] channels_okD(5) [OF ok, of c] ch(3) by auto
    show "ds_ch s c = []" if "n \<le> c" for c
      using that ch(3) channels_okD(6) [OF ok] by auto
  qed
qed

lemma pooled_once: "channels_ok s \<Longrightarrow> ch \<notin># ds_pool s - {#ch#}"
  using channels_okD(5) [of s ch] by (cases "ch \<in># ds_pool s") (auto simp: not_in_iff)

lemma channels_step:
  assumes "slots_step s s'" and "channels_ok s"
  shows "channels_ok s'"
  using assms(1)
proof cases
  case (grant s1)
  then show ?thesis using assms(2)
    by (auto simp: take_place_def split: option.splits if_splits)
next
  case start_new
  have "(t, ds_nextCh s) \<notin> ds_dialing s \<union> ds_waiting s" "ds_nextCh s \<notin># ds_pool s" for t
    using channels_okD(1,5) [OF assms(2)] by blast+
  then show ?thesis
    using start_new channels_start [OF assms(2), of "ds_nextCh s" "Suc (ds_nextCh s)" "ds_pool s"]
      channels_okD(6) [OF assms(2), of "ds_nextCh s"]
    by (simp add: start_dialing_def)
next
  case (start_pooled ch)
  have "(t, ch) \<notin> ds_dialing s \<union> ds_waiting s" for t
    using channels_okD(1) [OF assms(2)] start_pooled(3) by blast
  moreover have "ch \<notin># ds_pool s - {#ch#}" by (rule pooled_once [OF assms(2)])
  ultimately show ?thesis
    using start_pooled channels_start [OF assms(2), of ch "ds_nextCh s" "ds_pool s - {#ch#}"]
      channels_okD(5) [OF assms(2) start_pooled(3)]
    by (simp add: start_dialing_def)
next
  case (finish t ch r)
  have "ds_ch s ch = []" using finish(3) by simp
  moreover have "t' = t" if "(t', ch) \<in> ds_dialing s \<union> ds_waiting s" for t'
    using channels_okD(2) [OF assms(2) that] finish(2) by blast
  moreover have "ch \<notin># ds_pool s" "ch < ds_nextCh s"
    using channels_okD(1) [OF assms(2), of t ch] finish(2) by auto
  ultimately show ?thesis
    using assms(2) finish(1) unfolding channels_ok_def by auto
next
  case (leave n)
  then show ?thesis using assms(2) by (simp add: leave_place_def)
next
  case (receive t ch r rs)
  have "(t, ch) \<notin> ds_dialing s" using channels_okD(3) [OF assms(2)] receive(3) by fastforce
  then have "rs = []" and other: "(t', ch) \<notin> ds_dialing s \<union> (ds_waiting s - {(t, ch)})" for t'
    using channels_okD(2,4) [OF assms(2)] receive(2,3) by (fastforce, blast)
  moreover have "ch \<notin># ds_pool s" "ch < ds_nextCh s"
    using channels_okD(1) [OF assms(2), of t ch] receive(2) by auto
  ultimately show ?thesis
    using assms(2) receive(1) unfolding channels_ok_def by (auto simp: not_in_iff)
next
  case (timeout t ch)
  then show ?thesis using assms(2) unfolding channels_ok_def by auto
next
  case (forget ch)
  have "x \<in># ds_pool s - {#ch#} \<Longrightarrow> x \<in># ds_pool s \<and> count (ds_pool s - {#ch#}) x = 1" for x
    using channels_okD(5) [OF assms(2), of x] in_diffD [of x "ds_pool s" "{#ch#}"] pooled_once [OF assms(2), of ch]
    by (cases "x = ch") auto
  then show ?thesis
    using assms(2) forget pooled_once [OF assms(2), of ch] unfolding channels_ok_def by (auto dest: in_diffD)
qed

lemma slots_reachable_ok: "slots_reachable c s \<Longrightarrow> places_ok c s \<and> channels_ok s"
proof (induction rule: slots_reachable.induct)
  case start
  then show ?case by (simp add: places_ok_def channels_ok_def start_slots_def)
next
  case (step s s')
  then show ?case by (blast intro: places_step channels_step)
qed

text \<open>
  C20. Under every interleaving of dials, no more than \<open>Concurrency\<close> calls of \<open>net.DialTCP\<close> run at
  a time if that is positive; a goroutine can always send its result, so it never keeps its place
  for ever; and a call that receives a result receives its own, although the channels are reused
  and calls give up waiting on them.
\<close>

theorem dial_slots_safe:
  assumes "slots_reachable concurrency s"
  shows "(0 < concurrency \<longrightarrow> int (card (ds_dialing s)) \<le> concurrency) \<and>
    (\<forall>t ch. (t, ch) \<in> ds_dialing s \<longrightarrow> length (ds_ch s ch) < 1) \<and>
    (\<forall>t ch r rs. (t, ch) \<in> ds_waiting s \<and> ds_ch s ch = r # rs \<longrightarrow> fst r = t \<and> rs = [])"
proof (intro conjI allI impI)
  note ok = slots_reachable_ok [OF assms]
  show "int (card (ds_dialing s)) \<le> concurrency" if "0 < concurrency"
    using ok that by (auto simp: places_ok_def)
  show "length (ds_ch s ch) < 1" if "(t, ch) \<in> ds_dialing s" for t ch
    using channels_okD(3) [OF conjunct2 [OF ok] that] by simp
  show "fst r = t" "rs = []" if "(t, ch) \<in> ds_waiting s \<and> ds_ch s ch = r # rs" for t ch r rs
    using channels_okD(3,4) [OF conjunct2 [OF ok]] that by fastforce+
qed

text \<open>
  A call times out while its connection is being made; the connection then lies in a channel that
  is not pooled and that nobody reads.
\<close>

lemma run_leak:
  "slots_reachable 1 \<lparr>ds_cap = Some 1, ds_places = 0, ds_granted = 0, ds_ch = (\<lambda>_. [])(0 := [(0, Inr 7)]),
     ds_pool = {#}, ds_dialing = {}, ds_leaving = 0, ds_waiting = {}, ds_nextCh = 1, ds_nextTask = 1\<rparr>"
proof -
  let ?s = "\<lambda>places granted ch dialing leaving waiting n. \<lparr>ds_cap = Some 1, ds_places = places,
    ds_granted = granted, ds_ch = ch, ds_pool = {#}, ds_dialing = dialing, ds_leaving = leaving,
    ds_waiting = waiting, ds_nextCh = n, ds_nextTask = n\<rparr>"
  have 1: "slots_reachable 1 (?s 1 1 (\<lambda>_. []) {} 0 {} 0)"
    using slots_reachable.step [OF slots_reachable.start [of 1] slots_step.grant]
    by (simp add: start_slots_def take_place_def)
  have 2: "slots_reachable 1 (?s 1 0 (\<lambda>_. []) {(0, 0)} 0 {(0, 0)} 1)"
    using slots_reachable.step [OF 1 slots_step.start_new] by (simp add: start_dialing_def)
  have 3: "slots_reachable 1 (?s 1 0 (\<lambda>_. []) {(0, 0)} 0 {} 1)"
    using slots_reachable.step [OF 2 slots_step.timeout [of 0 0]] by simp
  have 4: "slots_reachable 1 (?s 1 0 ((\<lambda>_. [])(0 := [(0, Inr 7)])) {} 1 {} 1)"
    using slots_reachable.step [OF 3 slots_step.finish [of 0 0 _ "Inr 7"]] by simp
  show ?thesis
    using slots_reachable.step [OF 4 slots_step.leave [of _ 0]] by (simp add: leave_place_def)
qed

lemma dial_slots_safe_witness:
  "\<exists>s. slots_reachable 1 s \<and> ds_ch s 0 = [(0, Inr 7)] \<and> int (card (ds_dialing s)) \<le> 1"
  using dial_slots_safe [OF run_leak] run_leak by (intro exI conjI) (assumption, simp_all)

text \<open>
  A connection that is made after its \<open>tryDial\<close> has timed out is neither used nor closed: it
  stays in a channel on which no call waits and which never goes back to the pool.
\<close>

theorem timed_out_connection_leaks:
  "\<exists>s. slots_reachable 1 s \<and> ds_ch s 0 = [(0, Inr 7)] \<and> ds_waiting s = {} \<and> ds_pool s = {#} \<and>
     ds_dialing s = {} \<and> ds_nextCh s = 1"
  by (intro exI, intro conjI, rule run_leak) simp_all

end
