(* ===== verification/Spec2Isabelle.thy ===== *)
theory Spec2Isabelle
  imports WireProperties EndpointProperties ChannelStall HostProperties
    ClientMap Rpc Timer DnsCache DialSlots
begin

text \<open>
  A verification development of the Go networking library \<open>sleepy\<close>: its reliable-datagram part
  (the files directly under \<open>src/\<close>) and its TCP client (\<open>src/sleepytcp/\<close>).

  \<^bold>\<open>The program.\<close> An endpoint (\<open>endpoint.go\<close>) numbers packets with 16-bit sequence numbers, splits
  the large ones into fragments, reassembles those of its peer, acknowledges what it receives
  with a bitset of the last 32 numbers, and measures loss, round-trip time and bandwidth. It
  keeps four buffers indexed by sequence number (\<open>buffer*.go\<close>) and talks to its owner through the
  callbacks \<open>Transmit\<close>, \<open>Process\<close> and \<open>ACK\<close> of a dispatcher. A channel (\<open>channel.go\<close>) is such an
  owner: it keeps the datagrams it transmits in a window, sends them again until they are
  acknowledged, and holds packets back while the oldest one is too old. The TCP client is a
  separate program: a client (\<open>client.go\<close>) has one host client per address (\<open>client_host.go\<close>),
  which pools connections, lets callers wait for one in a queue (\<open>client_wait.go\<close>) and dials new
  ones (\<open>dial.go\<close>, \<open>dial_tcp.go\<close>) with resolved addresses from a cache and a bound on concurrent
  dials. Frames (\<open>rpc.go\<close>) and timers (\<open>timer.go\<close>) come from pools.

  \<^bold>\<open>Conventions.\<close> Theory \<open>Prelude\<close> fixes them. A run-time panic is the result \<^const>\<open>None\<close> of an
  option, and a Go \<open>error\<close> is a value: \<^const>\<open>Inl\<close> of a sum, or an option beside the new state. Words
  have the widths of the source and wrap; \<open>int\<close> quantities are integers, except the attempt
  counter of \<open>Do\<close>, whose overflow matters and which is a 64-bit word. A slice updated by index goes through
  the checked \<^const>\<open>slice_get\<close> and \<^const>\<open>slice_set\<close>, a pointer into a buffer is its index, and a pointer shared
  between goroutines is a number. \<open>float64\<close> is exact IEEE binary64 (\<open>Float64\<close>).

  \<^bold>\<open>The datagram part, bottom up.\<close>
  \<^item> \<open>SeqNum\<close>: \<open>utils.go\<close>, the circular order of the sequence numbers.
  \<^item> \<open>SequenceBuffer\<close>: \<open>buffer.go\<close> and \<open>memset.go\<close>, the array of 32-bit slots with \<open>RemoveRange\<close>.
  \<^item> \<open>RingBuffer\<close>: the code shared by \<open>buffer_packet.go\<close>, \<open>buffer_sent.go\<close>, \<open>buffer_recv.go\<close> and
    \<open>buffer_fragment.go\<close>, once for any type of record; \<open>stored\<close>, \<open>slot\<close> and \<open>inserted\<close> are its closed forms.
    \<open>Buffers\<close> has the four types and \<open>NextACK\<close>, and the locale \<open>sequence_window\<close> that all four interpret.
  \<^item> \<open>ThirdParty\<close>: the packages \<open>bytesutil\<close> and \<open>bytebufferpool\<close>, which are not in the repository, as
    a record of functions; the locale \<open>library\<close> holds their documented laws, and \<open>be_lib\<close> is an instance.
  \<^item> \<open>PacketHeader\<close>, \<open>FragmentCodec\<close>: the two wire formats of \<open>packet.go\<close>, the validation of fragments
    and the bitset of received ones; both are interpretations of the locale \<open>codec\<close> of \<open>Codec\<close>.
  \<^item> \<open>Endpoint\<close>: the record and the operations of \<open>endpoint.go\<close> and \<open>config.go\<close>, from \<open>NewEndpoint\<close> to
    \<open>ReadPacket\<close>; \<open>Statistics\<close>: \<open>Update\<close>, \<open>updateStatistics\<close> and the accessors. The record carries the
    state of its dispatcher, and a callback maps the whole endpoint, since the channel calls
    \<open>WritePacket\<close> from \<open>ACK\<close>.
  \<^item> \<open>Dispatch\<close>, \<open>Receive\<close>: the endpoint invariant \<open>ep_ok\<close> and the contracts \<open>transmitter\<close> and \<open>dispatching\<close>
    of the callbacks, under which sending and receiving never panic; \<open>Mock\<close> interprets them on the
    dispatcher of \<open>endpoint_test.go\<close>, \<open>Channel\<close> on the channel.
  \<^item> \<open>Delivery\<close>, \<open>Acks\<close>: two endpoints. Reassembly is related to the set of fragments received,
    acknowledging to the packets that \<open>NextACK\<close> names; the locale \<open>acking\<close> is the contract of the \<open>ACK\<close>
    callbacks that leave the sent buffer alone, and its interpretation observes them with a log.
  \<^item> \<open>Channel\<close>: \<open>channel.go\<close>; \<open>ChannelUpdate\<close>: what the loops of its \<open>Update\<close> compute, with the locale
    \<open>commuting\<close> for the updates of the channel's queues that can come before or after a \<open>WritePacket\<close>;
    \<open>ChannelLink\<close>: two channels connected by their queues, with the locale \<open>silent\<close> for what sending leaves alone;
    \<open>ChannelSync\<close>: the window related to the endpoint's own sent buffer, a second interpretation of
    \<open>dispatching\<close>, and runs of a channel as lists of its users' calls; \<open>ChannelStall\<close>: all runs of a channel
    whose only packet was acknowledged and that receives nothing.

  \<^bold>\<open>The TCP part.\<close>
  \<^item> \<open>NetErrors\<close>: Go errors as trees, \<open>errors.Is\<close>, \<open>errors.As\<close> and \<open>isEOF\<close> of \<open>error.go\<close>.
  \<^item> \<open>ObjectPool\<close>: \<open>sync.Pool\<close> and the locale \<open>recycling\<close> of reset-and-reuse, interpreted on the frames
    (\<open>Rpc\<close>, \<open>rpc.go\<close>) and the connection records (\<open>HostClient\<close>).
  \<^item> \<open>WaitQueue\<close>: the two-stage queue of \<open>client_wait.go\<close>, an interpretation of the locale \<open>fifo\<close>, and the
    answer cell of a waiting caller.
  \<^item> \<open>HostClient\<close>: \<open>client_host.go\<close>, \<open>client_conn.go\<close> and \<open>dial.go\<close>, one function per critical section;
    \<open>HostQueue\<close>: what each does to the list of callers that still wait; \<open>ConnPool\<close>: all goroutines of
    one host client as a step relation, whose steps are the critical sections.
  \<^item> \<open>ClientMap\<close>: \<open>client.go\<close>, the map of host clients, its users and its cleaner as a step relation.
  \<^item> \<open>Timer\<close>: \<open>timer.go\<close> and its pool, with the runtime, which fires a timer in two steps: the timer
    expires, and its tick is sent later.
  \<^item> \<open>Resolver\<close>, \<open>DialTCP\<close>: \<open>dial_tcp.go\<close> from the address string to the connection; \<open>DnsCache\<close> and
    \<open>DialSlots\<close>: the goroutines that share the address cache, and those that share the places for dials.

  \<^bold>\<open>What is shown.\<close> The claims are numbered C1 to C40, the most important first; the rest of the
  lemmas carry them.
  \<^item> \<open>WireProperties\<close>: both headers survive encoding and decoding; the decoders are total; the
    buffers know exactly the numbers they should, also past the wrap-around, with one exception.
  \<^item> \<open>EndpointProperties\<close>: what is sent is delivered once and unchanged in whatever order the
    fragments arrive; acknowledgements mark exactly the packets the peer holds; receiving never panics on
    datagrams whose fragment data fits, and panics on one whose data does not; what the loss and the
    rates measure, and that the rates are not smoothed.
  \<^item> \<open>ChannelProperties\<close>, \<open>ChannelLink\<close>, \<open>ChannelSync\<close>, \<open>ChannelStall\<close>: \<open>Update\<close> is total on datagrams that fit
    and sends exactly what is due; packets are held back and released in order, with their bytes; the packets
    of one window that are not fragmented arrive at the peer in order and unchanged;
    the window holds exactly the unacknowledged packets, and an acknowledgement clears exactly those it names.
    Fragmented packets lose all but their last datagram in the window, and a channel whose
    only packet was acknowledged never sends the packets it writes next.
  \<^item> \<open>HostProperties\<close>, \<open>ClientMap\<close>: under every interleaving a connection is in one place, the bound on
    connections holds, nothing panics, an answer is final, and waiting callers are served in order;
    runs that show a caller waiting beside an idle connection, a connection without a cleaner,
    and two host clients for one address.
  \<^item> \<open>Rpc\<close>, \<open>Timer\<close>, \<open>Resolver\<close>, \<open>DialTCP\<close>, \<open>DnsCache\<close>, \<open>DialSlots\<close>: pooled objects are as good as new but for the
    fields \<open>Reset\<close> forgets; a timer ticks early only after a race of its release
    with the runtime, which can happen; the addresses dialed and the result of a dial; the age of cached addresses;
    the bound on concurrent dials and the result that reaches each call.

  \<^bold>\<open>Loops and bounds.\<close> Most loops are recursion on their data. \<open>write_fragments\<close>, \<open>processACKs_loop\<close> and
  \<open>flush_queue\<close> count the iterations the source makes (fragments, 32 bits, how far the oldest number moved).
  \<open>loop_seqs\<close>, \<open>clearFront_loop\<close>, \<open>dial_loop\<close> and \<open>do_loop\<close> are recursive functions with proved termination; \<open>do_loop\<close>
  ends only when its 64-bit counter overflows. \<open>pop_until\<close> is bounded by the length of the
  queue, and \<open>pop_until_eq\<close> shows that this is enough. Endless loops (the cleaners) are steps of a relation.

  \<^bold>\<open>Environment.\<close> Clocks, the outcomes of dialing, of socket calls and of the resolver, the choices of
  \<open>select\<close> and of \<open>sync.Pool\<close>, and the interleaving of goroutines are arguments, or nondeterminism of the
  step relations. The mutexes appear as the atomicity of a step.

  \<^bold>\<open>Not modelled.\<close> The test programs under \<open>src/cmd\<close> (sockets and terminal I/O), the accessors
  \<open>PendingRequests\<close> and \<open>LastUseTime\<close> (one atomic read each), the log line of dialing, the
  local address of the dialer (passed on to \<open>net.DialTCP\<close>), and the reading of a response, which
  the source leaves open.
\<close>

end
